(* ===== verification/Prelude.thy ===== *)
theory Prelude
  imports Main "HOL-Library.Word" "HOL-Library.Sublist"
begin

text \<open>
  Shared vocabulary of the development: how Rust's text, integers and results are written in HOL,
  with the lemmas about them that the components use.

  A Rust \<open>String\<close> or \<open>&str\<close> is its UTF-8 bytes: a \<^typ>\<open>string\<close> whose elements are bytes, so
  that \<open>s.len()\<close> is \<^term>\<open>length\<close> and a byte offset is a list index.  The predicates on
  single characters that the code uses (newline, slash, digit, space, ...) are all about ASCII
  characters, which UTF-8 encodes as themselves, so testing bytes is testing characters.
  A \<open>usize\<close> is a \<^typ>\<open>nat\<close>, or a \<^typ>\<open>64 word\<close> where the code does arithmetic that could
  overflow.  \<open>Option\<close> is \<^typ>\<open>'a option\<close> and \<open>Result\<close> a sum whose left side is the error.
\<close>

subsection \<open>Collections of facts\<close>

named_theorems text_simps "lengths, membership and evaluation of text operations"
named_theorems frame_simps "which parts of a state an operation leaves alone"

type_synonym usize = nat
type_synonym ('e, 'a) rresult = "'e + 'a"

abbreviation Err :: "'e \<Rightarrow> ('e, 'a) rresult" where "Err \<equiv> Inl"
abbreviation Ok :: "'a \<Rightarrow> ('e, 'a) rresult" where "Ok \<equiv> Inr"

definition is_ok :: "('e, 'a) rresult \<Rightarrow> bool" where
  "is_ok r = (case r of Inl _ \<Rightarrow> False | Inr _ \<Rightarrow> True)"

lemma is_ok_simps [simp]: "is_ok (Inr a)" "\<not> is_ok (Inl e)"
  by (simp_all add: is_ok_def)

text \<open>The first result that is an error stops the computation, as the \<open>?\<close> operator does.\<close>

definition rbind :: "('e, 'a) rresult \<Rightarrow> ('a \<Rightarrow> ('e, 'b) rresult) \<Rightarrow> ('e, 'b) rresult" where
  "rbind r f = (case r of Inl e \<Rightarrow> Inl e | Inr a \<Rightarrow> f a)"

lemma rbind_simps [simp]: "rbind (Inr a) f = f a" "rbind (Inl e) f = Inl e"
  by (simp_all add: rbind_def)

lemma rbind_Ok_iff: "rbind r f = Inr b \<longleftrightarrow> (\<exists>a. r = Inr a \<and> f a = Inr b)"
  by (cases r) auto

text \<open>\<open>Option::or\<close> and \<open>Option::unwrap_or\<close>.\<close>

definition opt_or :: "'a option \<Rightarrow> 'a option \<Rightarrow> 'a option" where
  "opt_or a b = (case a of Some _ \<Rightarrow> a | None \<Rightarrow> b)"

definition unwrap_or :: "'a option \<Rightarrow> 'a \<Rightarrow> 'a" where
  "unwrap_or a d = (case a of Some x \<Rightarrow> x | None \<Rightarrow> d)"

lemma opt_or_simps [simp]: "opt_or None b = b" "opt_or (Some a) b = Some a"
  by (simp_all add: opt_or_def)

lemma unwrap_or_simps [simp]: "unwrap_or (Some x) d = x" "unwrap_or None d = d"
  by (simp_all add: unwrap_or_def)

text \<open>\<open>Vec::last\<close> and \<open>slice::first\<close>.\<close>

definition last_opt :: "'a list \<Rightarrow> 'a option" where
  "last_opt xs = (if xs = [] then None else Some (last xs))"

definition first_opt :: "'a list \<Rightarrow> 'a option" where
  "first_opt xs = (case xs of [] \<Rightarrow> None | x # _ \<Rightarrow> Some x)"

lemma last_opt_simps [simp]: "last_opt [] = None" "last_opt (xs @ [x]) = Some x"
  by (simp_all add: last_opt_def)

lemma last_opt_None [simp]: "last_opt xs = None \<longleftrightarrow> xs = []"
  by (simp add: last_opt_def)

lemma last_opt_Some: "last_opt xs = Some x \<Longrightarrow> x \<in> set xs"
  by (auto simp: last_opt_def split: if_splits)

text \<open>\<open>slice::get\<close>, which never panics.\<close>

definition get_opt :: "'a list \<Rightarrow> nat \<Rightarrow> 'a option" where
  "get_opt xs i = (if i < length xs then Some (xs ! i) else None)"

lemma get_opt_Some: "get_opt xs i = Some x \<longleftrightarrow> i < length xs \<and> xs ! i = x"
  by (auto simp: get_opt_def)

lemma get_opt_None: "get_opt xs i = None \<longleftrightarrow> length xs \<le> i"
  by (auto simp: get_opt_def)

subsection \<open>Decimal numbers\<close>

text \<open>\<open>Display\<close> for \<open>usize\<close>, and \<open>str::parse::<usize>\<close> with its optional plus sign and its
  overflow error.\<close>

definition is_digit :: "char \<Rightarrow> bool" where
  "is_digit c \<longleftrightarrow> 48 \<le> (of_char c :: nat) \<and> (of_char c :: nat) \<le> 57"

definition digit_char :: "nat \<Rightarrow> char" where
  "digit_char d = char_of (48 + d)"

definition digit_val :: "char \<Rightarrow> nat" where
  "digit_val c = of_char c - 48"

fun show_nat :: "nat \<Rightarrow> string" where
  "show_nat n = (if n < 10 then [digit_char n] else show_nat (n div 10) @ [digit_char (n mod 10)])"

declare show_nat.simps [simp del]

definition digits_val :: "string \<Rightarrow> nat" where
  "digits_val s = foldl (\<lambda>acc c. 10 * acc + digit_val c) 0 s"

definition parse_usize :: "string \<Rightarrow> nat option" where
  "parse_usize s =
     (let ds = (case s of c # cs \<Rightarrow> if c = CHR ''+'' then cs else s | [] \<Rightarrow> [])
      in if ds \<noteq> [] \<and> list_all is_digit ds \<and> digits_val ds < 2 ^ 64
         then Some (digits_val ds) else None)"

lemma is_digit_digit_char [simp]: "d < 10 \<Longrightarrow> is_digit (digit_char d)"
  by (simp add: is_digit_def digit_char_def)

lemma digit_val_digit_char [simp]: "d < 10 \<Longrightarrow> digit_val (digit_char d) = d"
  by (simp add: digit_val_def digit_char_def)

lemma show_nat_nonempty [simp]: "show_nat n \<noteq> []"
  by (subst show_nat.simps) simp

lemma show_nat_digits: "list_all is_digit (show_nat n)"
proof (induction n rule: show_nat.induct)
  case (1 n)
  then show ?case by (subst show_nat.simps) simp
qed

lemma digit_char_values:
  "digit_char 0 = CHR ''0''" "digit_char 1 = CHR ''1''" "digit_char (Suc 0) = CHR ''1''"
  "digit_char 2 = CHR ''2''" "digit_char 3 = CHR ''3''" "digit_char 4 = CHR ''4''"
  "digit_char 5 = CHR ''5''" "digit_char 6 = CHR ''6''" "digit_char 7 = CHR ''7''"
  "digit_char 8 = CHR ''8''" "digit_char 9 = CHR ''9''"
  by (simp_all add: digit_char_def char_of_def bit_0)

lemmas show_nat_eval = show_nat.simps digit_char_values

lemma digits_val_snoc: "digits_val (s @ [c]) = 10 * digits_val s + digit_val c"
  by (simp add: digits_val_def)

lemma digits_val_show [simp]: "digits_val (show_nat n) = n"
proof (induction n rule: show_nat.induct)
  case (1 n)
  show ?case
  proof (cases "n < 10")
    case True
    then show ?thesis by (subst show_nat.simps) (simp add: digits_val_def)
  next
    case False
    with 1 show ?thesis by (subst show_nat.simps) (simp add: digits_val_snoc)
  qed
qed

lemma show_nat_inj [simp]: "show_nat m = show_nat n \<longleftrightarrow> m = n"
  by (metis digits_val_show)

lemma is_digit_not [simp]: "\<not> is_digit CHR ''+''" "\<not> is_digit CHR ''_''" "\<not> is_digit CHR ''/''"
  "\<not> is_digit CHR '' ''" "\<not> is_digit CHR '',''" "\<not> is_digit CHR '':''" "\<not> is_digit CHR ''l''"
  by (simp_all add: is_digit_def)

lemma show_nat_mem: "c \<in> set (show_nat n) \<Longrightarrow> is_digit c"
  using show_nat_digits by (auto simp: list_all_iff)

lemma show_nat_notin [simp]: "\<not> is_digit c \<Longrightarrow> c \<notin> set (show_nat n)"
  using show_nat_mem by blast

lemma parse_usize_show [simp]: "n < 2 ^ 64 \<Longrightarrow> parse_usize (show_nat n) = Some n"
proof -
  assume n: "n < 2 ^ 64"
  obtain c cs where s: "show_nat n = c # cs" by (meson list.exhaust show_nat_nonempty)
  then have "is_digit c" using show_nat_mem [of c n] by simp
  then have "c \<noteq> CHR ''+''" by auto
  then show ?thesis using n s show_nat_digits [of n] digits_val_show [of n]
    by (simp add: parse_usize_def)
qed

lemma parse_usize_bound: "parse_usize s = Some n \<Longrightarrow> n < 2 ^ 64"
  by (auto simp: parse_usize_def Let_def split: if_splits)

text \<open>\<open>{n:03}\<close>: at least three digits, padded on the left with zeros.\<close>

definition pad3 :: "nat \<Rightarrow> string" where
  "pad3 n = replicate (3 - length (show_nat n)) CHR ''0'' @ show_nat n"

lemma digits_val_zeros: "digits_val (replicate k CHR ''0'' @ s) = digits_val s"
  by (induction k) (simp_all add: digits_val_def digit_val_def)

lemma pad3_inj [simp]: "pad3 m = pad3 n \<longleftrightarrow> m = n"
  by (metis digits_val_show digits_val_zeros pad3_def)

lemma pad3_digits: "list_all is_digit (pad3 n)"
proof -
  have "is_digit CHR ''0''" by (simp add: is_digit_def)
  then have "list_all is_digit (replicate (3 - length (show_nat n)) CHR ''0'')"
    by (simp add: list_all_length)
  then show ?thesis unfolding pad3_def list_all_append using show_nat_digits by blast
qed

lemma pad3_nonempty [simp]: "pad3 n \<noteq> []"
  by (simp add: pad3_def)

subsection \<open>Searching and splitting text\<close>

text \<open>\<open>str::split_once\<close> on a character.\<close>

fun split_once :: "char \<Rightarrow> string \<Rightarrow> (string \<times> string) option" where
  "split_once d [] = None"
| "split_once d (c # cs) =
     (if c = d then Some ([], cs)
      else map_option (\<lambda>(a, b). (c # a, b)) (split_once d cs))"

lemma split_once_append [simp]: "d \<notin> set a \<Longrightarrow> split_once d (a @ d # b) = Some (a, b)"
  by (induction a) auto

lemma split_once_None: "split_once d s = None \<longleftrightarrow> d \<notin> set s"
  by (induction s) auto

lemma split_once_Some: "split_once d s = Some (a, b) \<Longrightarrow> s = a @ d # b \<and> d \<notin> set a"
  by (induction s arbitrary: a) (auto split: if_splits)

text \<open>\<open>str::strip_prefix\<close> and \<open>str::split_once\<close> on a string.\<close>

definition strip_prefix :: "'a list \<Rightarrow> 'a list \<Rightarrow> 'a list option" where
  "strip_prefix p s = (if take (length p) s = p then Some (drop (length p) s) else None)"

lemma strip_prefix_Some: "strip_prefix p s = Some r \<longleftrightarrow> s = p @ r"
  unfolding strip_prefix_def by (metis append_eq_conv_conj option.distinct(1) option.inject)

lemma strip_prefix_append [simp]: "strip_prefix p (p @ r) = Some r"
  by (simp add: strip_prefix_Some)

fun split_once_str :: "string \<Rightarrow> string \<Rightarrow> (string \<times> string) option" where
  "split_once_str p s =
     (case strip_prefix p s of
        Some r \<Rightarrow> Some ([], r)
      | None \<Rightarrow> (case s of [] \<Rightarrow> None
                | c # cs \<Rightarrow> map_option (\<lambda>(a, b). (c # a, b)) (split_once_str p cs)))"

declare split_once_str.simps [simp del]

lemma split_once_str_Some: "split_once_str p s = Some (a, b) \<Longrightarrow> s = a @ p @ b"
proof (induction s arbitrary: a)
  case Nil
  then show ?case
    by (subst (asm) split_once_str.simps)
      (auto simp: strip_prefix_Some split: option.splits)
next
  case (Cons c cs)
  from Cons.prems show ?case
    by (subst (asm) split_once_str.simps)
      (auto simp: strip_prefix_Some split: option.splits dest: Cons.IH)
qed

text \<open>\<open>str::ends_with\<close> and \<open>str::starts_with\<close>.\<close>

definition ends_with :: "'a list \<Rightarrow> 'a list \<Rightarrow> bool" where
  "ends_with s p \<longleftrightarrow> length p \<le> length s \<and> drop (length s - length p) s = p"

definition starts_with :: "'a list \<Rightarrow> 'a list \<Rightarrow> bool" where
  "starts_with s p \<longleftrightarrow> take (length p) s = p"

lemma ends_with_iff: "ends_with s p \<longleftrightarrow> (\<exists>q. s = q @ p)"
  unfolding ends_with_def
  by (metis add_diff_cancel_right' append_eq_conv_conj append_take_drop_id le_add2 length_append)

lemma ends_with_snoc [simp]: "ends_with (s @ [c]) [d] \<longleftrightarrow> c = d"
  by (auto simp: ends_with_iff)

lemma ends_with_Nil1 [simp]: "ends_with [] [d] \<longleftrightarrow> False"
  by (simp add: ends_with_def)

text \<open>Joining with a separator, \<open>slice::join\<close>.\<close>

fun join :: "string \<Rightarrow> string list \<Rightarrow> string" where
  "join sep [] = []"
| "join sep [x] = x"
| "join sep (x # y # zs) = x @ sep @ join sep (y # zs)"

text \<open>\<open>str::split_inclusive('\n')\<close>: the pieces keep their newline.\<close>

fun split_inclusive :: "string \<Rightarrow> string list" where
  "split_inclusive [] = []"
| "split_inclusive (c # cs) =
     (if c = CHR 0x0A then [c] # split_inclusive cs
      else (case split_inclusive cs of [] \<Rightarrow> [[c]] | l # ls \<Rightarrow> (c # l) # ls))"

lemma concat_split_inclusive [simp]: "concat (split_inclusive s) = s"
  by (induction s rule: split_inclusive.induct) (auto split: list.splits)

text \<open>\<open>str::lines\<close>: the pieces between newlines, a newline and a carriage return before it
  dropped, and no empty piece after a final newline.\<close>

definition strip_line_end :: "string \<Rightarrow> string" where
  "strip_line_end l =
     (if l \<noteq> [] \<and> last l = CHR 0x0A
      then (let b = butlast l in if b \<noteq> [] \<and> last b = CHR 0x0D then butlast b else b)
      else l)"

definition lines :: "string \<Rightarrow> string list" where
  "lines s = map strip_line_end (split_inclusive s)"

text \<open>Replacing a character by a string, \<open>str::replace\<close> with a one-character pattern.\<close>

definition replace_char :: "char \<Rightarrow> string \<Rightarrow> string \<Rightarrow> string" where
  "replace_char c r s = concat (map (\<lambda>x. if x = c then r else [x]) s)"

subsection \<open>Association lists used as insertion-ordered maps\<close>

text \<open>\<open>dedup\<close> keeps the first of each run of equal neighbours; \<open>unique_by\<close> keeps the first of
  each key.\<close>

fun dedup :: "'a list \<Rightarrow> 'a list" where
  "dedup (x # y # zs) = (if x = y then dedup (y # zs) else x # dedup (y # zs))"
| "dedup xs = xs"

fun unique_by_aux :: "('a \<Rightarrow> 'k) \<Rightarrow> 'k list \<Rightarrow> 'a list \<Rightarrow> 'a list" where
  "unique_by_aux f seen [] = []"
| "unique_by_aux f seen (x # xs) =
     (if f x \<in> set seen then unique_by_aux f seen xs else x # unique_by_aux f (f x # seen) xs)"

definition unique_by :: "('a \<Rightarrow> 'k) \<Rightarrow> 'a list \<Rightarrow> 'a list" where
  "unique_by f xs = unique_by_aux f [] xs"

lemma unique_by_aux_distinct:
  "distinct (map f (unique_by_aux f seen xs)) \<and> set seen \<inter> f ` set (unique_by_aux f seen xs) = {}"
  by (induction f seen xs rule: unique_by_aux.induct) auto

lemma unique_by_aux_keys: "f ` set (unique_by_aux f seen xs) = f ` set xs - set seen"
  by (induction f seen xs rule: unique_by_aux.induct) auto

lemma unique_by_aux_subset: "set (unique_by_aux f seen xs) \<subseteq> set xs"
  by (induction f seen xs rule: unique_by_aux.induct) auto

lemma distinct_unique_by [simp]: "distinct (map f (unique_by f xs))"
  using unique_by_aux_distinct [of f "[]" xs] by (simp add: unique_by_def)

lemma unique_by_keys: "f ` set (unique_by f xs) = f ` set xs"
  by (simp add: unique_by_def unique_by_aux_keys)

lemma unique_by_subset: "set (unique_by f xs) \<subseteq> set xs"
  by (simp add: unique_by_def unique_by_aux_subset)

lemma set_dedup [simp]: "set (dedup xs) = set xs"
  by (induction xs rule: dedup.induct) auto

lemma sorted_dedup: "sorted xs \<Longrightarrow> sorted (dedup xs)"
  by (induction xs rule: dedup.induct) auto

lemma distinct_dedup: "sorted xs \<Longrightarrow> distinct (dedup xs)"
proof (induction xs rule: dedup.induct)
  case (1 x y zs)
  then show ?case by (auto dest: order_antisym)
qed auto

end
