(* ===== verification/Shards.thy ===== *)
theory Shards
  imports Prelude "HOL-Library.Multiset"
begin

text \<open>
  Sharding (\<open>src/src/shard.rs\<close>): parsing \<open>k/n\<close>, and the two ways a list of mutants is cut into
  \<open>n\<close> shards.  The arithmetic of \<open>Sharding::shard\<close> is kept on 64-bit words, so that its
  wrap-around is visible; a panic (division by zero, a bad \<open>drain\<close> range) is \<^term>\<open>None\<close>.
  The interface \<open>sharder\<close> states what the rest of the program relies on.
\<close>

record shard =
  shard_k :: "64 word"
  shard_n :: "64 word"

datatype sharding = RoundRobin | Slice

definition default_sharding :: sharding where
  "default_sharding = Slice"

datatype shard_error = NotKN | BadK | BadN | KNotLess

definition shard_from_str :: "string \<Rightarrow> (shard_error, shard) rresult" where
  "shard_from_str s =
     (case split_once CHR ''/'' s of
        None \<Rightarrow> Err NotKN
      | Some (a, b) \<Rightarrow>
          (case parse_usize a of
             None \<Rightarrow> Err BadK
           | Some k' \<Rightarrow>
               (case parse_usize b of
                  None \<Rightarrow> Err BadN
                | Some n' \<Rightarrow>
                    if k' < n' then Ok \<lparr>shard_k = of_nat k', shard_n = of_nat n'\<rparr> else Err KNotLess)))"

text \<open>\<open>usize::div_ceil\<close>, as the standard library computes it: the quotient, plus one where there
  is a remainder.  Dividing by zero panics.\<close>

definition div_ceil :: "64 word \<Rightarrow> 64 word \<Rightarrow> 64 word option" where
  "div_ceil a b = (if b = 0 then None else Some (if 0 < a mod b then a div b + 1 else a div b))"

text \<open>\<open>Vec::drain(start..end).collect()\<close>: panics unless \<open>start <= end <= len\<close>.\<close>

definition drain :: "64 word \<Rightarrow> 64 word \<Rightarrow> 'a list \<Rightarrow> 'a list option" where
  "drain s e xs =
     (if s \<le> e \<and> unat e \<le> length xs then Some (take (unat e - unat s) (drop (unat s) xs)) else None)"

definition shard_list :: "sharding \<Rightarrow> shard \<Rightarrow> 'a list \<Rightarrow> 'a list option" where
  "shard_list how s mutants =
     (case how of
        RoundRobin \<Rightarrow>
          if shard_n s = 0 \<and> mutants \<noteq> [] then None
          else Some (map snd (filter (\<lambda>(i, m). (of_nat i :: 64 word) mod shard_n s = shard_k s)
                                     (List.enumerate 0 mutants)))
      | Slice \<Rightarrow>
          let total = of_nat (length mutants) in
          (case div_ceil total (shard_n s) of
             None \<Rightarrow> None
           | Some chunk_size \<Rightarrow>
               let start = shard_k s * chunk_size;
                   end' = min ((shard_k s + 1) * chunk_size) total
               in if total \<le> start then Some [] else drain start end' mutants))"

subsection \<open>What sharding promises\<close>

text \<open>
  The interface: \<open>select k n xs\<close> is the part of \<open>xs\<close> that shard \<open>k\<close> of \<open>n\<close> runs.  Together
  the shards run every mutant exactly once, and no shard reorders.
\<close>

locale sharder =
  fixes select :: "nat \<Rightarrow> nat \<Rightarrow> 'a list \<Rightarrow> 'a list"
    and admissible :: "nat \<Rightarrow> 'a list \<Rightarrow> bool"
  assumes partition: "admissible N xs \<Longrightarrow> mset (concat (map (\<lambda>i. select i N xs) [0..<N])) = mset xs"
    and in_order: "admissible N xs \<Longrightarrow> i < N \<Longrightarrow> subseq (select i N xs) xs"
begin

lemma covered:
  assumes "admissible N xs" "x \<in> set xs"
  shows "\<exists>i<N. x \<in> set (select i N xs)"
proof -
  from assms have "x \<in># mset (concat (map (\<lambda>i. select i N xs) [0..<N]))"
    by (simp only: partition set_mset_mset)
  then show ?thesis by auto
qed

lemma total_length:
  assumes "admissible N xs"
  shows "(\<Sum>i<N. length (select i N xs)) = length xs"
proof -
  have "length (concat (map (\<lambda>i. select i N xs) [0..<N])) = length xs"
    using partition [OF assms] by (metis size_mset)
  then show ?thesis
    by (simp add: length_concat comp_def sum_list_distinct_conv_sum_set atLeast0LessThan)
qed

lemma no_overlap:
  assumes adm: "admissible N xs" and dist: "distinct xs"
    and ij: "i < N" "j < N" "i \<noteq> j"
  shows "set (select i N xs) \<inter> set (select j N xs) = {}"
proof (rule ccontr)
  let ?f = "\<lambda>i. select i N xs"
  assume "set (?f i) \<inter> set (?f j) \<noteq> {}"
  then obtain x where x: "x \<in> set (?f i)" "x \<in> set (?f j)" by auto
  have "count (mset xs) x = (\<Sum>l<N. count (mset (?f l)) x)"
    by (subst partition [OF adm, symmetric])
      (simp add: mset_concat comp_def count_sum sum_list_distinct_conv_sum_set atLeast0LessThan)
  also have "\<dots> \<ge> (\<Sum>l\<in>{i, j}. count (mset (?f l)) x)"
    using ij by (intro sum_mono2) auto
  finally have "count (mset xs) x \<ge> count (mset (?f i)) x + count (mset (?f j)) x"
    using ij by simp
  moreover have "count (mset (?f i)) x \<ge> 1" "count (mset (?f j)) x \<ge> 1"
    using x by (simp_all add: Suc_le_eq count_greater_zero_iff)
  moreover have "count (mset xs) x \<le> 1"
    using dist by (simp add: distinct_count_atmost_1)
  ultimately show False by simp
qed

end

subsection \<open>The two methods on natural numbers\<close>

definition round_robin :: "nat \<Rightarrow> nat \<Rightarrow> 'a list \<Rightarrow> 'a list" where
  "round_robin i N xs = map snd (filter (\<lambda>(j, m). j mod N = i) (List.enumerate 0 xs))"

definition chunk_of :: "nat \<Rightarrow> nat \<Rightarrow> nat" where
  "chunk_of len N = (if 0 < len mod N then len div N + 1 else len div N)"

definition slice_of :: "nat \<Rightarrow> nat \<Rightarrow> 'a list \<Rightarrow> 'a list" where
  "slice_of i N xs = take (chunk_of (length xs) N) (drop (i * chunk_of (length xs) N) xs)"

lemma mset_concat_upt: "mset (concat (map f [0..<N])) = (\<Sum>i<N. mset (f i))"
  by (simp add: mset_concat comp_def sum_list_distinct_conv_sum_set atLeast0LessThan)

lemma round_robin_from:
  assumes "0 < N"
  shows "(\<Sum>i<N. mset (map snd (filter (\<lambda>(j, m). j mod N = i) (List.enumerate s xs)))) = mset xs"
proof (induction xs arbitrary: s)
  case Nil
  then show ?case by simp
next
  case (Cons x xs)
  let ?g = "\<lambda>i. mset (map snd (filter (\<lambda>(j, m). j mod N = i) (List.enumerate (Suc s) xs)))"
  have "(\<Sum>i<N. mset (map snd (filter (\<lambda>(j, m). j mod N = i) (List.enumerate s (x # xs)))))
      = (\<Sum>i<N. (if i = s mod N then {#x#} else {#}) + ?g i)"
    by (intro sum.cong) auto
  also have "\<dots> = (\<Sum>i<N. if i = s mod N then {#x#} else {#}) + (\<Sum>i<N. ?g i)"
    by (rule sum.distrib)
  also have "\<dots> = mset (x # xs)"
    using assms Cons.IH [of "Suc s"] by simp
  finally show ?case .
qed

lemma subseq_filter_enumerate: "subseq (map snd (filter P (List.enumerate s xs))) xs"
proof (induction xs arbitrary: s)
  case (Cons x xs)
  then show ?case by (auto intro: subseq_Cons')
qed simp

lemma chunk_of_enough: "0 < N \<Longrightarrow> len \<le> N * chunk_of len N"
  unfolding chunk_of_def
proof -
  assume N: "0 < N"
  have "len = N * (len div N) + len mod N" by simp
  moreover have "len mod N < N" using N by simp
  ultimately have "len \<le> N * (len div N) + N" by linarith
  then show "len \<le> N * (if 0 < len mod N then len div N + 1 else len div N)"
    by (auto simp: algebra_simps)
qed

lemma chunk_of_upper: "0 < N \<Longrightarrow> 0 < len \<Longrightarrow> N * chunk_of len N \<le> len + (N - 1)"
proof -
  assume N: "0 < N"
  have "len = N * (len div N) + len mod N" by simp
  then have "0 < len mod N \<Longrightarrow> N + N * (len div N) \<le> N + len - 1" using N by linarith
  with N show ?thesis by (auto simp: chunk_of_def algebra_simps)
qed

lemma concat_slices: "concat (map (\<lambda>i. take c (drop (i * c) xs)) [0..<N]) = take (N * c) xs"
proof (induction N)
  case (Suc N)
  have "take (N * c) xs @ take c (drop (N * c) xs) = take (N * c + c) xs"
    by (simp add: take_add)
  then show ?case using Suc by (simp add: algebra_simps)
qed simp

lemma concat_slice_of: "0 < N \<Longrightarrow> concat (map (\<lambda>i. slice_of i N xs) [0..<N]) = xs"
  using chunk_of_enough [of N "length xs"] by (simp add: slice_of_def concat_slices)

lemma subseq_slice_of: "subseq (slice_of i N xs) xs"
  unfolding slice_of_def
  by (meson list_emb_append2 subseq_order.order_trans subseq_order.refl
      sublist_imp_subseq sublist_take sublist_drop)

subsection \<open>The code's word arithmetic computes them\<close>

text \<open>A \<open>Vec\<close> of mutants holds at most \<open>isize::MAX\<close> bytes, so its length is below \<open>2 ^ 63\<close>.\<close>

definition vec_len_ok :: "'a list \<Rightarrow> bool" where
  "vec_len_ok xs \<longleftrightarrow> length xs < 2 ^ 63"

definition shard_ok :: "shard \<Rightarrow> bool" where
  "shard_ok s \<longleftrightarrow> shard_k s < shard_n s"

lemma unat_chunk:
  assumes "len < 2 ^ 63" "0 < N"
  shows "div_ceil (of_nat len) N = Some (of_nat (chunk_of len (unat N)))"
    and "chunk_of len (unat N) \<le> len"
proof -
  have N: "0 < unat N" using assms by (simp add: unat_gt_0 word_gt_0)
  have len: "unat (of_nat len :: 64 word) = len"
    using assms by (simp add: unat_of_nat)
  have md: "unat ((of_nat len :: 64 word) mod N) = len mod unat N"
    and dv: "unat ((of_nat len :: 64 word) div N) = len div unat N"
    using len by (simp_all add: unat_mod_distrib unat_div_distrib)
  have z: "(0 < (of_nat len :: 64 word) mod N) = (0 < len mod unat N)"
    by (metis md unat_0 unat_gt_0 word_gt_0)
  have d: "(of_nat len :: 64 word) div N = of_nat (len div unat N)"
    using len by (metis word_arith_nat_div)
  show "div_ceil (of_nat len) N = Some (of_nat (chunk_of len (unat N)))"
    using assms(2) z d by (auto simp: div_ceil_def chunk_of_def)
  show "chunk_of len (unat N) \<le> len"
  proof (cases "0 < len mod unat N")
    case True
    have "len div unat N * unat N + len mod unat N = len" by simp
    moreover have "len div unat N \<le> len div unat N * unat N" using N by simp
    ultimately have "len div unat N + 1 \<le> len" using True by linarith
    then show ?thesis by (simp add: chunk_of_def)
  qed (simp add: chunk_of_def)
qed

lemma unat_of_nat_64: "m < 2 ^ 64 \<Longrightarrow> unat (of_nat m :: 64 word) = m"
  by (simp add: unat_of_nat)

lemma shard_products:
  assumes "len < 2 ^ 63" "K < N" "N < (2::nat) ^ 64"
  shows "(K + 1) * chunk_of len N < 2 ^ 64"
proof (cases "len < N")
  case True
  then have "chunk_of len N \<le> 1" by (cases "len = 0") (auto simp: chunk_of_def)
  then have "(K + 1) * chunk_of len N \<le> (K + 1) * 1" by (rule mult_le_mono2)
  with assms show ?thesis by simp
next
  case False
  then have "0 < len" using assms by auto
  have "(K + 1) * chunk_of len N \<le> N * chunk_of len N"
    using assms(2) by (intro mult_le_mono1) simp
  also have "\<dots> \<le> len + (N - 1)" using chunk_of_upper [of N len] assms \<open>0 < len\<close> by simp
  also have "\<dots> < 2 ^ 64" using False assms(1) by simp
  finally show ?thesis .
qed

lemma slice_computes:
  assumes len: "vec_len_ok xs" and s: "shard_ok s"
  shows "shard_list Slice s xs = Some (slice_of (unat (shard_k s)) (unat (shard_n s)) xs)"
proof -
  let ?len = "length xs" let ?c = "chunk_of (length xs) (unat (shard_n s))"
  let ?K = "unat (shard_k s)"
  have n0: "0 < shard_n s" and kn: "?K < unat (shard_n s)" and nb: "unat (shard_n s) < 2 ^ 64"
    using s unsigned_less [of "shard_n s"] by (auto simp: shard_ok_def word_less_nat_alt word_gt_0)
  have l63: "?len < 2 ^ 63" using len by (simp add: vec_len_ok_def)
  have prod: "(?K + 1) * ?c < 2 ^ 64" by (rule shard_products [OF l63 kn nb])
  then have prod0: "?K * ?c < 2 ^ 64" by (simp add: add_mult_distrib)
  have tot: "unat (of_nat ?len :: 64 word) = ?len" using l63 by (simp add: unat_of_nat)
  have st: "shard_k s * of_nat ?c = (of_nat (?K * ?c) :: 64 word)"
    by simp
  have en: "(shard_k s + 1) * of_nat ?c = (of_nat ((?K + 1) * ?c) :: 64 word)"
    by (simp add: algebra_simps)
  have ust: "unat (shard_k s * of_nat ?c) = ?K * ?c"
    unfolding st by (rule unat_of_nat_64 [OF prod0])
  have uen: "unat ((shard_k s + 1) * of_nat ?c) = (?K + 1) * ?c"
    unfolding en by (rule unat_of_nat_64 [OF prod])
  have umin: "unat (min ((shard_k s + 1) * of_nat ?c) (of_nat ?len)) = min ((?K + 1) * ?c) ?len"
    by (auto simp: min_def word_le_nat_alt uen tot)
  have le: "(of_nat ?len \<le> shard_k s * of_nat ?c) = (?len \<le> ?K * ?c)"
    by (simp add: word_le_nat_alt tot ust)
  have dr: "drain (shard_k s * of_nat ?c) (min ((shard_k s + 1) * of_nat ?c) (of_nat ?len)) xs
      = Some (slice_of ?K (unat (shard_n s)) xs)" if "\<not> ?len \<le> ?K * ?c"
  proof -
    have "shard_k s * of_nat ?c \<le> min ((shard_k s + 1) * of_nat ?c) (of_nat ?len)"
      using that by (simp only: word_le_nat_alt umin ust) (simp add: add_mult_distrib)
    moreover have "take (min ((?K + 1) * ?c) ?len - ?K * ?c) (drop (?K * ?c) xs)
        = take ?c (drop (?K * ?c) xs)"
      using that by (auto simp: min_def add_mult_distrib)
    ultimately show ?thesis by (simp add: drain_def umin ust slice_of_def)
  qed
  show ?thesis
    using dr unat_chunk(1) [OF l63 n0] le
    by (auto simp: shard_list_def Let_def slice_of_def)
qed

lemma round_robin_computes:
  assumes len: "vec_len_ok xs" and s: "shard_ok s"
  shows "shard_list RoundRobin s xs = Some (round_robin (unat (shard_k s)) (unat (shard_n s)) xs)"
proof -
  have n0: "shard_n s \<noteq> 0" using s by (auto simp: shard_ok_def)
  have "((of_nat i :: 64 word) mod shard_n s = shard_k s) = (i mod unat (shard_n s) = unat (shard_k s))"
    if "i < length xs" for i
  proof -
    have "unat (of_nat i :: 64 word) = i"
      using len that by (intro unat_of_nat_64) (simp add: vec_len_ok_def)
    then have "unat ((of_nat i :: 64 word) mod shard_n s) = i mod unat (shard_n s)"
      by (simp only: unat_mod_distrib)
    then show ?thesis by (simp only: word_unat_eq_iff)
  qed
  then have "filter (\<lambda>(i, m). (of_nat i :: 64 word) mod shard_n s = shard_k s) (List.enumerate 0 xs)
      = filter (\<lambda>(j, m). j mod unat (shard_n s) = unat (shard_k s)) (List.enumerate 0 xs)"
    by (intro filter_cong [OF refl]) (auto simp: in_set_enumerate_eq)
  with n0 show ?thesis by (simp add: shard_list_def round_robin_def)
qed

subsection \<open>Both methods keep the promise\<close>

definition run_shard :: "sharding \<Rightarrow> nat \<Rightarrow> nat \<Rightarrow> 'a list \<Rightarrow> 'a list" where
  "run_shard how i N xs =
     (case shard_list how \<lparr>shard_k = of_nat i, shard_n = of_nat N\<rparr> xs of None \<Rightarrow> [] | Some ys \<Rightarrow> ys)"

definition shardable :: "nat \<Rightarrow> 'a list \<Rightarrow> bool" where
  "shardable N xs \<longleftrightarrow> 0 < N \<and> N < 2 ^ 64 \<and> vec_len_ok xs"

lemma run_shard_eq:
  assumes "shardable N xs" "i < N"
  shows "run_shard RoundRobin i N xs = round_robin i N xs"
    and "run_shard Slice i N xs = slice_of i N xs"
proof -
  have u: "unat (of_nat i :: 64 word) = i" "unat (of_nat N :: 64 word) = N"
    using assms by (auto simp: shardable_def intro!: unat_of_nat_64)
  then have ok: "shard_ok \<lparr>shard_k = of_nat i, shard_n = of_nat N\<rparr>"
    using assms by (simp add: shard_ok_def word_less_nat_alt)
  have v: "vec_len_ok xs" using assms by (simp add: shardable_def)
  show "run_shard RoundRobin i N xs = round_robin i N xs"
    using round_robin_computes [OF v ok] u by (simp add: run_shard_def)
  show "run_shard Slice i N xs = slice_of i N xs"
    using slice_computes [OF v ok] u by (simp add: run_shard_def)
qed

lemma map_run_shard:
  assumes "shardable N xs"
  shows "map (\<lambda>i. run_shard RoundRobin i N xs) [0..<N] = map (\<lambda>i. round_robin i N xs) [0..<N]"
    and "map (\<lambda>i. run_shard Slice i N xs) [0..<N] = map (\<lambda>i. slice_of i N xs) [0..<N]"
  using run_shard_eq [OF assms] by simp_all

interpretation rr: sharder "run_shard RoundRobin" shardable
proof unfold_locales
  fix N and xs :: "'a list" assume a: "shardable N xs"
  then show "mset (concat (map (\<lambda>i. run_shard RoundRobin i N xs) [0..<N])) = mset xs"
    unfolding map_run_shard [OF a] mset_concat_upt round_robin_def
    by (intro round_robin_from) (simp add: shardable_def)
  fix i assume "i < N"
  with a show "subseq (run_shard RoundRobin i N xs) xs"
    by (simp add: run_shard_eq round_robin_def subseq_filter_enumerate)
qed

interpretation sl: sharder "run_shard Slice" shardable
proof unfold_locales
  fix N and xs :: "'a list" assume a: "shardable N xs"
  then show "mset (concat (map (\<lambda>i. run_shard Slice i N xs) [0..<N])) = mset xs"
    unfolding map_run_shard [OF a] by (subst concat_slice_of) (simp_all add: shardable_def)
  fix i assume "i < N"
  with a show "subseq (run_shard Slice i N xs) xs"
    by (simp add: run_shard_eq subseq_slice_of)
qed

lemma shard_list_total:
  assumes "vec_len_ok xs" "shard_ok s"
  shows "\<exists>ys. shard_list how s xs = Some ys"
  using slice_computes [OF assms] round_robin_computes [OF assms] by (cases how) auto

subsection \<open>Properties\<close>

text \<open>C13: With either method and any number of shards, every shard returns (no panic), the shards
  together hold every mutant exactly as often as the whole list, each shard keeps the order, and
  where the mutants are distinct no two shards share one.\<close>

theorem shards_run_each_mutant_once:
  assumes "0 < N" "N < 2 ^ 64" "vec_len_ok xs"
  shows "\<exists>parts. length parts = N
    \<and> (\<forall>i<N. shard_list how \<lparr>shard_k = of_nat i, shard_n = of_nat N\<rparr> xs = Some (parts ! i)
              \<and> subseq (parts ! i) xs)
    \<and> mset (concat parts) = mset xs
    \<and> (distinct xs \<longrightarrow> (\<forall>i<N. \<forall>j<N. i \<noteq> j \<longrightarrow> set (parts ! i) \<inter> set (parts ! j) = {}))"
proof -
  let ?f = "\<lambda>i. run_shard how i N xs" let ?sh = "\<lambda>i. \<lparr>shard_k = of_nat i, shard_n = of_nat N\<rparr>"
  have adm: "shardable N xs" using assms by (simp add: shardable_def)
  have some: "shard_list how (?sh i) xs = Some (?f i)" if "i < N" for i
  proof -
    have "shard_ok (?sh i)"
      using assms that by (simp add: shard_ok_def word_less_nat_alt unat_of_nat_64)
    then show ?thesis using shard_list_total [OF assms(3), of "?sh i" how]
      by (auto simp: run_shard_def)
  qed
  have all: "mset (concat (map ?f [0..<N])) = mset xs \<and> (\<forall>i<N. subseq (?f i) xs)
      \<and> (distinct xs \<longrightarrow> (\<forall>i<N. \<forall>j<N. i \<noteq> j \<longrightarrow> set (?f i) \<inter> set (?f j) = {}))"
  proof (cases how)
    case RoundRobin
    show ?thesis unfolding RoundRobin
      using rr.partition [OF adm] rr.in_order [OF adm] rr.no_overlap [OF adm] by blast
  next
    case Slice
    show ?thesis unfolding Slice
      using sl.partition [OF adm] sl.in_order [OF adm] sl.no_overlap [OF adm] by blast
  qed
  show ?thesis
    by (rule exI [of _ "map ?f [0..<N]"]) (use some all in auto)
qed

lemma shards_run_each_mutant_once_witness:
  "\<exists>parts. length parts = 2
    \<and> mset (concat parts) = mset [''a'', ''b'', ''c'']"
  using shards_run_each_mutant_once [of 2 "[''a'', ''b'', ''c'']" Slice] by (auto simp: vec_len_ok_def)

text \<open>C14: The 64-bit arithmetic of both methods agrees with the one on unbounded numbers: for every
  valid shard and every vector, no product or sum wraps, and slicing hands out runs of
  \<open>ceil(len / n)\<close> mutants.\<close>

theorem shard_arithmetic_does_not_wrap:
  assumes "vec_len_ok xs" "shard_ok s"
  shows "shard_list Slice s xs
      = Some (take (chunk_of (length xs) (unat (shard_n s)))
          (drop (unat (shard_k s) * chunk_of (length xs) (unat (shard_n s))) xs))
    \<and> shard_list RoundRobin s xs
      = Some (map snd (filter (\<lambda>(j, m). j mod unat (shard_n s) = unat (shard_k s)) (List.enumerate 0 xs)))"
  using slice_computes [OF assms] round_robin_computes [OF assms]
  by (simp add: slice_of_def round_robin_def)

lemma shard_arithmetic_does_not_wrap_witness:
  "shard_list Slice \<lparr>shard_k = 2 ^ 63, shard_n = 2 ^ 64 - 1\<rparr> [True, False, True] = Some []
    \<and> shard_list RoundRobin \<lparr>shard_k = 1, shard_n = 2\<rparr> [True, False, True] = Some [False]"
  using shard_arithmetic_does_not_wrap [of "[True, False, True]" "\<lparr>shard_k = 2 ^ 63, shard_n = 2 ^ 64 - 1\<rparr>"]
    shard_arithmetic_does_not_wrap [of "[True, False, True]" "\<lparr>shard_k = 1, shard_n = 2\<rparr>"]
  by (simp add: vec_len_ok_def shard_ok_def chunk_of_def)

text \<open>A shard is accepted exactly when its text is two numbers around the first slash with the
  first below the second, so every accepted shard is valid; printing \<open>k/n\<close> and parsing it gives the
  shard back, and \<open>k\<close> not below \<open>n\<close> is refused as such.\<close>

theorem shard_from_str_accepts:
  "(shard_from_str s = Ok sh \<longleftrightarrow>
      (\<exists>a b k n. s = a @ ''/'' @ b \<and> CHR ''/'' \<notin> set a \<and> parse_usize a = Some k
         \<and> parse_usize b = Some n \<and> k < n \<and> sh = \<lparr>shard_k = of_nat k, shard_n = of_nat n\<rparr>))
    \<and> (shard_from_str s = Ok sh \<longrightarrow> shard_ok sh)
    \<and> (k < 2 ^ 64 \<and> n < 2 ^ 64 \<longrightarrow>
        shard_from_str (show_nat k @ ''/'' @ show_nat n)
          = (if k < n then Ok \<lparr>shard_k = of_nat k, shard_n = of_nat n\<rparr> else Err KNotLess))"
proof (intro conjI impI)
  show acc: "shard_from_str s = Ok sh \<longleftrightarrow>
      (\<exists>a b k n. s = a @ ''/'' @ b \<and> CHR ''/'' \<notin> set a \<and> parse_usize a = Some k
         \<and> parse_usize b = Some n \<and> k < n \<and> sh = \<lparr>shard_k = of_nat k, shard_n = of_nat n\<rparr>)"
    (is "?l = ?r")
  proof
    assume ?l
    then obtain a b k n where "split_once CHR ''/'' s = Some (a, b)" "parse_usize a = Some k"
      "parse_usize b = Some n" "k < n" "sh = \<lparr>shard_k = of_nat k, shard_n = of_nat n\<rparr>"
      by (auto simp: shard_from_str_def split: option.splits if_splits)
    then show ?r using split_once_Some by fastforce
  next
    assume ?r
    then show ?l by (auto simp: shard_from_str_def)
  qed
  show "shard_ok sh" if "shard_from_str s = Ok sh"
    using that unfolding acc
    by (auto simp: shard_ok_def word_less_nat_alt unat_of_nat_64 dest!: parse_usize_bound)
  show "shard_from_str (show_nat k @ ''/'' @ show_nat n)
      = (if k < n then Ok \<lparr>shard_k = of_nat k, shard_n = of_nat n\<rparr> else Err KNotLess)"
    if "k < 2 ^ 64 \<and> n < 2 ^ 64"
    using that by (simp add: shard_from_str_def)
qed

lemma shard_from_str_accepts_witness:
  "shard_ok \<lparr>shard_k = 1, shard_n = 4\<rparr>
    \<and> shard_from_str (show_nat 1 @ ''/'' @ show_nat 4) = Ok \<lparr>shard_k = 1, shard_n = 4\<rparr>"
  using shard_from_str_accepts [of "show_nat 1 @ ''/'' @ show_nat 4" "\<lparr>shard_k = 1, shard_n = 4\<rparr>" 1 4]
  by simp

end
