(* ===== verification/Paths.thy ===== *)
theory Paths
  imports Prelude
begin

text \<open>
  Paths: the part of the standard library's path handling that the program uses (components,
  joining, stripping a prefix, parent, file name, extension), and \<open>src/src/path.rs\<close> with the
  path rewriting of \<open>src/src/manifest.rs\<close>.  A path is its text; as in Rust, two paths are the
  same if their components are.  The model is the Unix one.
\<close>

subsection \<open>The standard library's paths\<close>

type_synonym path = string

text \<open>\<open>str::split\<close> on a character.\<close>

fun split_char :: "char \<Rightarrow> string \<Rightarrow> string list" where
  "split_char d [] = [[]]"
| "split_char d (c # cs) =
     (if c = d then [] # split_char d cs
      else (case split_char d cs of [] \<Rightarrow> [[c]] | l # ls \<Rightarrow> (c # l) # ls))"

definition is_absolute :: "path \<Rightarrow> bool" where
  "is_absolute p \<longleftrightarrow> starts_with p ''/''"

definition components :: "path \<Rightarrow> string list" where
  "components p =
     (if is_absolute p then [''/'']
      else if hd (split_char CHR ''/'' p) = ''.'' then [''.''] else [])
     @ filter (\<lambda>c. c \<noteq> [] \<and> c \<noteq> ''.'') (split_char CHR ''/'' p)"

definition path_eq :: "path \<Rightarrow> path \<Rightarrow> bool" where
  "path_eq p q \<longleftrightarrow> components p = components q"

text \<open>A map keyed by path whose values are lists: \<open>entry(p).or_default().extend(xs)\<close> and \<open>get(p)\<close>.\<close>

fun extend_lines :: "path \<Rightarrow> 'a list \<Rightarrow> (path \<times> 'a list) list \<Rightarrow> (path \<times> 'a list) list" where
  "extend_lines p ls [] = [(p, ls)]"
| "extend_lines p ls ((q, ms) # r) =
     (if path_eq p q then (q, ms @ ls) # r else (q, ms) # extend_lines p ls r)"

fun path_lookup :: "path \<Rightarrow> (path \<times> 'a) list \<Rightarrow> 'a option" where
  "path_lookup p [] = None"
| "path_lookup p ((q, x) # r) = (if path_eq p q then Some x else path_lookup p r)"

lemma path_eq_refl [simp]: "path_eq p p"
  by (simp add: path_eq_def)

lemma path_eq_sym: "path_eq p q \<Longrightarrow> path_eq q p"
  by (simp add: path_eq_def)

lemma path_lookup_extend:
  "path_lookup p (extend_lines q xs r)
    = (if path_eq p q then Some ((case path_lookup q r of Some ys \<Rightarrow> ys | None \<Rightarrow> []) @ xs) else path_lookup p r)"
  by (induction q xs r rule: extend_lines.induct) (auto simp: path_eq_def)

definition path_of :: "string list \<Rightarrow> path" where
  "path_of cs = (case cs of [] \<Rightarrow> [] | c # rest \<Rightarrow> if c = ''/'' then ''/'' @ join ''/'' rest else join ''/'' cs)"

definition join_path :: "path \<Rightarrow> path \<Rightarrow> path" where
  "join_path a b =
     (if is_absolute b then b
      else if a = [] \<or> last a = CHR ''/'' then a @ b
      else a @ ''/'' @ b)"

definition path_strip_prefix :: "path \<Rightarrow> path \<Rightarrow> path option" where
  "path_strip_prefix base p = map_option path_of (strip_prefix (components base) (components p))"

definition path_parent :: "path \<Rightarrow> path option" where
  "path_parent p =
     (let cs = components p in
      if cs = [] \<or> last cs = ''/'' then None else Some (path_of (butlast cs)))"

definition file_name :: "path \<Rightarrow> string option" where
  "file_name p =
     (case last_opt (components p) of
        Some c \<Rightarrow> if c = ''/'' \<or> c = ''.'' \<or> c = ''..'' then None else Some c
      | None \<Rightarrow> None)"

text \<open>The extension is what follows the last dot of the file name, unless that dot comes first.\<close>

definition rsplit_dot :: "string \<Rightarrow> (string \<times> string) option" where
  "rsplit_dot name =
     (case split_once CHR ''.'' (rev name) of
        Some (ext, stem) \<Rightarrow> if stem = [] then None else Some (rev stem, rev ext)
      | None \<Rightarrow> None)"

definition extension :: "path \<Rightarrow> string option" where
  "extension p = (case file_name p of None \<Rightarrow> None | Some n \<Rightarrow> map_option snd (rsplit_dot n))"

definition without_extension :: "path \<Rightarrow> path" where
  "without_extension p =
     (case file_name p of
        None \<Rightarrow> p
      | Some n \<Rightarrow>
          (case rsplit_dot n of
             None \<Rightarrow> p
           | Some (stem, _) \<Rightarrow> path_of (butlast (components p) @ [stem])))"

definition path_ends_with_component :: "path \<Rightarrow> path \<Rightarrow> bool" where
  "path_ends_with_component p q \<longleftrightarrow> ends_with (components p) (components q)"

subsection \<open>How far a path climbs\<close>

text \<open>\<open>ascent\<close>: the loop keeps how far above the start the path is, and the most it has been.\<close>

fun ascent_loop :: "int \<Rightarrow> int \<Rightarrow> string list \<Rightarrow> int" where
  "ascent_loop asc max_ascent [] = max_ascent"
| "ascent_loop asc max_ascent (c # cs) =
     (if c = ''..'' then ascent_loop (asc + 1) (max (asc + 1) max_ascent) cs
      else if c = ''.'' then ascent_loop asc max_ascent cs
      else ascent_loop (asc - 1) max_ascent cs)"

definition ascent :: "path \<Rightarrow> int" where
  "ascent p = ascent_loop 0 0 (components p)"

definition to_slash_path :: "path \<Rightarrow> string" where
  "to_slash_path p =
     join ''/'' (map (\<lambda>c. if c = ''/'' \<or> c = [CHR 0x5C] then [] else c)
                     (filter (\<lambda>c. c \<noteq> []) (components p)))"

text \<open>\<open>fix_path\<close> of \<open>manifest.rs\<close>.\<close>

definition fix_path :: "string \<Rightarrow> path \<Rightarrow> string option" where
  "fix_path path_str source_dir =
     (if is_absolute path_str \<or> ascent path_str = 0 then None
      else Some (join_path source_dir path_str))"

subsection \<open>What the ascent measures\<close>

text \<open>The reference: the height above the start after following some components.\<close>

definition height :: "string list \<Rightarrow> int" where
  "height cs = int (length (filter (\<lambda>c. c = ''..'') cs))
     - int (length (filter (\<lambda>c. c \<noteq> ''..'' \<and> c \<noteq> ''.'') cs))"

lemma height_simps [simp]:
  "height [] = 0"
  "height (c # cs) = (if c = ''..'' then 1 + height cs else if c = ''.'' then height cs else height cs - 1)"
  by (auto simp: height_def)

lemma ascent_loop_ge: "m \<le> ascent_loop a m cs"
  by (induction a m cs rule: ascent_loop.induct) (auto intro: order_trans [OF max.cobounded2])

lemma ascent_loop_prefix:
  "a \<le> m \<Longrightarrow> prefix ps cs \<Longrightarrow> a + height ps \<le> ascent_loop a m cs"
proof (induction a m cs arbitrary: ps rule: ascent_loop.induct)
  case (1 a m)
  then show ?case by simp
next
  case (2 a m c cs)
  show ?case
  proof (cases ps)
    case Nil
    then show ?thesis using 2(4) ascent_loop_ge [of m a "c # cs"] by (simp del: ascent_loop.simps)
  next
    case (Cons p ps')
    with 2(5) have p: "p = c" "prefix ps' cs" by auto
    consider (up) "c = ''..''" | (stay) "c = ''.''" | (down) "c \<noteq> ''..''" "c \<noteq> ''.''" by blast
    then show ?thesis
    proof cases
      case up
      then show ?thesis using 2(1) [of ps'] p Cons by simp
    next
      case stay
      then show ?thesis using 2(2) [of ps'] 2(4) p Cons by simp
    next
      case down
      then show ?thesis using 2(3) [of ps'] 2(4) p Cons by simp
    qed
  qed
qed

lemma ascent_loop_attained:
  "ascent_loop a m cs = m \<or> (\<exists>ps. prefix ps cs \<and> ascent_loop a m cs = a + height ps)"
proof (induction a m cs rule: ascent_loop.induct)
  case (2 a m c cs)
  have ext: "\<exists>qs. prefix qs (c # cs) \<and> height qs = height [c] + height ps"
    if "prefix ps cs" for ps
    using that by (intro exI [of _ "c # ps"]) auto
  consider (up) "c = ''..''" | (stay) "c = ''.''" | (down) "c \<noteq> ''..''" "c \<noteq> ''.''" by blast
  then show ?case
  proof cases
    case up
    have one: "\<exists>qs. prefix qs (c # cs) \<and> height qs = 1" using up by (intro exI [of _ "[c]"]) auto
    from up 2(1) have "ascent_loop (a + 1) (max (a + 1) m) cs = max (a + 1) m
        \<or> (\<exists>ps. prefix ps cs \<and> ascent_loop (a + 1) (max (a + 1) m) cs = a + 1 + height ps)" by simp
    with up one ext show ?thesis by (auto simp: max_def split: if_splits) (metis add.assoc)+
  next
    case stay
    with 2(2) ext show ?thesis by auto metis
  next
    case down
    with 2(3) ext show ?thesis by auto (metis add.commute add.left_commute diff_add_eq uminus_add_conv_diff)
  qed
qed simp

lemma ascent_prefix: "prefix ps (components p) \<Longrightarrow> height ps \<le> ascent p"
  using ascent_loop_prefix [of 0 0 ps "components p"] by (simp add: ascent_def)

lemma ascent_attained: "\<exists>ps. prefix ps (components p) \<and> ascent p = height ps"
  using ascent_loop_attained [of 0 0 "components p"] by (auto simp: ascent_def intro: exI [of _ "[]"])

lemma ascent_nonneg: "0 \<le> ascent p"
  using ascent_loop_ge by (simp add: ascent_def)

lemma ascent_zero_iff: "ascent p = 0 \<longleftrightarrow> (\<forall>ps. prefix ps (components p) \<longrightarrow> height ps \<le> 0)"
  by (metis ascent_attained ascent_nonneg ascent_prefix dual_order.antisym)

lemma fix_path_None_iff:
  "fix_path p src = None \<longleftrightarrow> is_absolute p \<or> (\<forall>ps. prefix ps (components p) \<longrightarrow> height ps \<le> 0)"
  by (simp add: fix_path_def ascent_zero_iff)

text \<open>
  Joining a relative path puts its components below the directory, and an absolute directory
  stays absolute.
\<close>

lemma is_absolute_append: "a \<noteq> [] \<Longrightarrow> is_absolute (a @ b) = is_absolute a"
  by (cases a) (auto simp: is_absolute_def starts_with_def)

lemma join_path_absolute: "is_absolute a \<Longrightarrow> is_absolute (join_path a b)"
  by (cases a) (auto simp: join_path_def is_absolute_def starts_with_def)

lemma fix_path_absolute: "is_absolute src \<Longrightarrow> fix_path p src = Some q \<Longrightarrow> is_absolute q"
  by (auto simp: fix_path_def join_path_absolute split: if_splits)

lemma split_char_nonempty [simp]: "split_char d s \<noteq> []"
  by (induction s) (auto split: list.splits)

lemma split_char_append_sep: "split_char d (a @ d # b) = split_char d a @ split_char d b"
  by (induction a) (auto split: list.splits)

lemma components_join:
  assumes "a \<noteq> []" "last a \<noteq> CHR ''/''" "\<not> is_absolute b"
  shows "components (join_path a b)
    = components a @ filter (\<lambda>c. c \<noteq> [] \<and> c \<noteq> ''.'') (split_char CHR ''/'' b)"
proof -
  have j: "join_path a b = a @ CHR ''/'' # b" using assms by (simp add: join_path_def)
  have "is_absolute (a @ CHR ''/'' # b) = is_absolute a" using assms by (simp add: is_absolute_append)
  moreover have "hd (split_char CHR ''/'' (a @ CHR ''/'' # b)) = hd (split_char CHR ''/'' a)"
    by (simp add: split_char_append_sep)
  ultimately show ?thesis by (simp add: components_def j split_char_append_sep)
qed

subsection \<open>Properties\<close>

text \<open>\<open>ascent\<close> is the greatest height above its start that following the path ever reaches: no
  prefix of its components climbs higher, and one climbs that high.  So it is zero exactly for paths
  that never leave the directory they start in.\<close>

theorem ascent_is_greatest_height:
  "(\<exists>ps. prefix ps (components p) \<and> ascent p = height ps)
    \<and> (\<forall>ps. prefix ps (components p) \<longrightarrow> height ps \<le> ascent p)
    \<and> (ascent p = 0 \<longleftrightarrow> (\<forall>ps. prefix ps (components p) \<longrightarrow> height ps \<le> 0))"
  using ascent_attained ascent_prefix ascent_zero_iff by blast

lemma ascent_is_greatest_height_witness:
  "height (take 3 (components ''a/../../b'')) \<le> ascent ''a/../../b'' \<and> ascent ''a/../../b'' = 1"
  using ascent_is_greatest_height [of "''a/../../b''"]
  by (simp add: take_is_prefix) (simp add: ascent_def components_def is_absolute_def starts_with_def)

text \<open>A manifest path is rewritten exactly when it is relative and leaves the source directory; the
  new path is the old one below the source directory, and is absolute if that directory is.\<close>

theorem fix_path_rewrites_escaping_paths:
  "(fix_path p src = None \<longleftrightarrow> is_absolute p \<or> (\<forall>ps. prefix ps (components p) \<longrightarrow> height ps \<le> 0))
    \<and> (\<forall>q. fix_path p src = Some q \<longrightarrow> q = join_path src p \<and> (is_absolute src \<longrightarrow> is_absolute q))
    \<and> (\<forall>q. fix_path p src = Some q \<and> src \<noteq> [] \<and> last src \<noteq> CHR ''/''
        \<longrightarrow> components q = components src
              @ filter (\<lambda>c. c \<noteq> [] \<and> c \<noteq> ''.'') (split_char CHR ''/'' p))"
  using fix_path_None_iff [of p src] components_join [of src p]
  by (auto simp: fix_path_def join_path_absolute split: if_splits)

lemma fix_path_rewrites_escaping_paths_witness:
  "fix_path ''../util'' ''/work'' = Some ''/work/../util''
    \<and> components ''/work/../util'' = [''/'', ''work'', ''..'', ''util'']"
  using fix_path_rewrites_escaping_paths [of "''../util''" "''/work''"]
  by (simp add: fix_path_def ascent_def components_def is_absolute_def starts_with_def join_path_def)

end
