(* ===== verification/Spans.thy ===== *)
theory Spans
  imports Prelude
begin

text \<open>
  Positions and spans in source body (\<open>src/src/span.rs\<close>): the line index of a file, the byte
  offset a line and column resolve to, and the extraction and replacement of a span.  Text is
  UTF-8 bytes and slicing a \<open>str\<close> off a character boundary panics, so slices are partial; the
  lemmas show that no span can make them panic, that offsets grow with positions, and that
  resolving a position inverts counting lines and columns.
\<close>

subsection \<open>UTF-8 body\<close>

definition is_cont :: "char \<Rightarrow> bool" where
  "is_cont c \<longleftrightarrow> 128 \<le> (of_char c :: nat) \<and> (of_char c :: nat) < 192"

text \<open>How many continuation bytes follow a leading byte.\<close>

definition lead_len :: "char \<Rightarrow> nat option" where
  "lead_len c =
     (let b = (of_char c :: nat) in
      if b < 128 then Some 0
      else if 194 \<le> b \<and> b < 224 then Some 1
      else if 224 \<le> b \<and> b < 240 then Some 2
      else if 240 \<le> b \<and> b < 245 then Some 3
      else None)"

fun utf8_from :: "nat \<Rightarrow> string \<Rightarrow> bool" where
  "utf8_from m [] = (m = 0)"
| "utf8_from 0 (c # cs) = (case lead_len c of None \<Rightarrow> False | Some m \<Rightarrow> utf8_from m cs)"
| "utf8_from (Suc m) (c # cs) = (is_cont c \<and> utf8_from m cs)"

definition utf8 :: "string \<Rightarrow> bool" where
  "utf8 s = utf8_from 0 s"

text \<open>\<open>str::is_char_boundary\<close> and slicing with it.\<close>

definition boundary :: "string \<Rightarrow> nat \<Rightarrow> bool" where
  "boundary s i \<longleftrightarrow> i = 0 \<or> i = length s \<or> (i < length s \<and> \<not> is_cont (s ! i))"

definition slice :: "string \<Rightarrow> nat \<Rightarrow> nat \<Rightarrow> string option" where
  "slice s a b =
     (if a \<le> b \<and> b \<le> length s \<and> boundary s a \<and> boundary s b
      then Some (take (b - a) (drop a s)) else None)"

abbreviation newline :: char where "newline \<equiv> CHR 0x0A"
abbreviation creturn :: char where "creturn \<equiv> CHR 0x0D"

subsection \<open>Positions, spans and the line index\<close>

record line_column =
  lc_line :: usize
  lc_column :: usize

record span =
  sp_start :: line_column
  sp_end :: line_column

definition from_pm2_line_column :: "nat \<Rightarrow> nat \<Rightarrow> line_column" where
  "from_pm2_line_column line column = \<lparr>lc_line = line, lc_column = column + 1\<rparr>"

definition quad :: "nat \<Rightarrow> nat \<Rightarrow> nat \<Rightarrow> nat \<Rightarrow> span" where
  "quad a b c d = \<lparr>sp_start = \<lparr>lc_line = a, lc_column = b\<rparr>, sp_end = \<lparr>lc_line = c, lc_column = d\<rparr>\<rparr>"

type_synonym line_index = "nat list"

fun newline_ends :: "nat \<Rightarrow> string \<Rightarrow> nat list" where
  "newline_ends i [] = []"
| "newline_ends i (c # cs) =
     (if c = newline then (i + 1) # newline_ends (i + 1) cs else newline_ends (i + 1) cs)"

definition line_index_new :: "string \<Rightarrow> line_index" where
  "line_index_new s = 0 # newline_ends 0 s"

text \<open>The loop over \<open>char_indices\<close>: \<open>None\<close> when it runs off the end of the line.\<close>

fun scan_columns :: "nat \<Rightarrow> nat \<Rightarrow> nat \<Rightarrow> string \<Rightarrow> nat option" where
  "scan_columns target column offset [] = None"
| "scan_columns target column offset (c # cs) =
     (if is_cont c then scan_columns target column (offset + 1) cs
      else if target \<le> column then Some offset
      else scan_columns target (if c = creturn then column else column + 1) (offset + 1) cs)"

definition line_end_of :: "line_index \<Rightarrow> string \<Rightarrow> nat \<Rightarrow> nat" where
  "line_end_of idx s line = (case get_opt idx (line + 1) of Some e \<Rightarrow> e | None \<Rightarrow> length s)"

definition byte_offset :: "line_index \<Rightarrow> string \<Rightarrow> line_column \<Rightarrow> nat option" where
  "byte_offset idx s pos =
     (if lc_line pos = 0 then Some 0
      else (case get_opt idx (lc_line pos - 1) of
              None \<Rightarrow> Some (length s)
            | Some line_start \<Rightarrow>
                let line_end = line_end_of idx s (lc_line pos - 1) in
                (case slice s line_start line_end of
                   None \<Rightarrow> None
                 | Some body \<Rightarrow>
                     (case scan_columns (lc_column pos) 1 0 body of
                        Some offset \<Rightarrow> Some (line_start + offset)
                      | None \<Rightarrow> Some line_end))))"

definition line_start :: "line_index \<Rightarrow> nat \<Rightarrow> nat option" where
  "line_start idx line = (if line = 0 then None else get_opt idx (line - 1))"

text \<open>\<open>Span::byte_range\<close>: the end is clamped to the start.  The debug assertion is
  \<open>span_in_order\<close> below.\<close>

definition byte_range :: "span \<Rightarrow> string \<Rightarrow> line_index \<Rightarrow> (nat \<times> nat) option" where
  "byte_range sp s idx =
     (case (byte_offset idx s (sp_start sp), byte_offset idx s (sp_end sp)) of
        (Some a, Some b) \<Rightarrow> Some (a, max b a)
      | _ \<Rightarrow> None)"

definition byte_range_assert :: "span \<Rightarrow> string \<Rightarrow> line_index \<Rightarrow> bool" where
  "byte_range_assert sp s idx \<longleftrightarrow>
     the (byte_offset idx s (sp_start sp)) \<le> the (byte_offset idx s (sp_end sp))"

definition extract_indexed :: "span \<Rightarrow> string \<Rightarrow> line_index \<Rightarrow> string option" where
  "extract_indexed sp s idx =
     (case byte_range sp s idx of None \<Rightarrow> None | Some (a, b) \<Rightarrow> slice s a b)"

definition replace_indexed :: "span \<Rightarrow> string \<Rightarrow> line_index \<Rightarrow> string \<Rightarrow> string option" where
  "replace_indexed sp s idx replacement =
     (case byte_range sp s idx of
        None \<Rightarrow> None
      | Some (a, b) \<Rightarrow>
          (case (slice s 0 a, slice s b (length s)) of
             (Some pre, Some post) \<Rightarrow> Some (pre @ replacement @ post)
           | _ \<Rightarrow> None))"

definition show_line_column :: "line_column \<Rightarrow> string" where
  "show_line_column l = ''LineColumn('' @ show_nat (lc_line l) @ '', '' @ show_nat (lc_column l) @ '')''"

definition show_span :: "span \<Rightarrow> string" where
  "show_span sp = ''Span('' @ show_nat (lc_line (sp_start sp)) @ '', ''
     @ show_nat (lc_column (sp_start sp)) @ '', '' @ show_nat (lc_line (sp_end sp)) @ '', ''
     @ show_nat (lc_column (sp_end sp)) @ '')''"

subsection \<open>Character boundaries\<close>

lemma boundary_ends [simp]: "boundary s 0" "boundary s (length s)"
  by (simp_all add: boundary_def)

lemma lead_len_not_cont: "lead_len c = Some m \<Longrightarrow> \<not> is_cont c"
  by (auto simp: lead_len_def is_cont_def Let_def split: if_splits)

lemma newline_lead [simp]: "lead_len newline = Some 0" "\<not> is_cont newline" "\<not> is_cont creturn"
  by (simp_all add: lead_len_def is_cont_def)

lemma utf8_head: "utf8_from 0 (c # cs) \<Longrightarrow> \<not> is_cont c"
  by (auto dest: lead_len_not_cont split: option.splits)

lemma utf8_after_newline:
  "utf8_from m s \<Longrightarrow> i < length s \<Longrightarrow> s ! i = newline \<Longrightarrow> Suc i < length s \<Longrightarrow> \<not> is_cont (s ! Suc i)"
proof (induction m s arbitrary: i rule: utf8_from.induct)
  case (2 c cs)
  then obtain m where m: "lead_len c = Some m" "utf8_from m cs"
    by (auto split: option.splits)
  show ?case
  proof (cases i)
    case 0
    with 2 m have "utf8_from 0 cs" by simp
    with 2 0 show ?thesis by (cases cs) (auto dest!: utf8_head simp del: utf8_from.simps)
  next
    case (Suc j)
    with 2 m show ?thesis by auto
  qed
next
  case (3 m c cs)
  then show ?case by (cases i) auto
qed auto

lemma slice_some:
  "a \<le> b \<Longrightarrow> b \<le> length s \<Longrightarrow> boundary s a \<Longrightarrow> boundary s b
    \<Longrightarrow> slice s a b = Some (take (b - a) (drop a s))"
  by (simp add: slice_def)

lemma slice_split:
  assumes "slice s 0 a = Some p" "slice s a b = Some x" "slice s b (length s) = Some q"
  shows "s = p @ x @ q"
proof -
  have ab: "a \<le> b" "b \<le> length s" using assms by (auto simp: slice_def split: if_splits)
  have "s = take a s @ take (b - a) (drop a s) @ drop b s"
    using ab by (metis append_take_drop_id drop_drop le_add_diff_inverse2)
  with assms show ?thesis by (auto simp: slice_def split: if_splits)
qed

subsection \<open>The line index\<close>

lemma newline_ends_append: "newline_ends i (a @ b) = newline_ends i a @ newline_ends (i + length a) b"
  by (induction a arbitrary: i) auto

lemma newline_ends_mem: "e \<in> set (newline_ends i s) \<longleftrightarrow> (\<exists>j<length s. s ! j = newline \<and> e = i + j + 1)"
proof (induction s arbitrary: i)
  case (Cons c s)
  have ex: "(\<exists>j<length (c # s). (c # s) ! j = newline \<and> e = i + j + 1)
     \<longleftrightarrow> (c = newline \<and> e = i + 1) \<or> (\<exists>j<length s. s ! j = newline \<and> e = i + 1 + j + 1)"
    by (auto simp: less_Suc_eq_0_disj)
  show ?case unfolding ex using Cons [of "i + 1"] by auto
qed simp

lemma newline_ends_sorted: "sorted_wrt (<) (i # newline_ends i s)"
proof (induction s arbitrary: i)
  case (Cons c s)
  from Cons [of "i + 1"] have "sorted_wrt (<) (newline_ends (i + 1) s)"
    and "\<forall>e\<in>set (newline_ends (i + 1) s). i + 1 < e" by auto
  then show ?case by auto
qed simp

lemma line_index_sorted: "sorted_wrt (<) (line_index_new s)"
  using newline_ends_sorted [of 0 s] by (simp add: line_index_new_def)

lemma line_index_mem:
  "e \<in> set (line_index_new s) \<Longrightarrow> e = 0 \<or> (\<exists>j<length s. s ! j = newline \<and> e = j + 1)"
  by (auto simp: line_index_new_def newline_ends_mem)

lemma line_index_boundary:
  assumes "utf8 s" "e \<in> set (line_index_new s)"
  shows "boundary s e \<and> e \<le> length s"
  using line_index_mem [OF assms(2)] utf8_after_newline [of 0 s] assms(1)
  by (auto simp: boundary_def utf8_def)

lemma line_end_bounds:
  assumes "utf8 s" "get_opt (line_index_new s) l = Some ls"
  shows "ls \<le> line_end_of (line_index_new s) s l"
    and "line_end_of (line_index_new s) s l \<le> length s"
    and "boundary s (line_end_of (line_index_new s) s l)"
    and "boundary s ls"
proof -
  let ?I = "line_index_new s"
  have l: "l < length ?I" "ls = ?I ! l" using assms(2) by (auto simp: get_opt_Some)
  then have ls: "boundary s ls \<and> ls \<le> length s"
    using line_index_boundary [OF assms(1)] by auto
  show "boundary s ls" using ls by simp
  show "ls \<le> line_end_of ?I s l"
    using l ls line_index_sorted [of s]
    by (auto simp: line_end_of_def get_opt_Some split: option.splits dest: sorted_wrt_nth_less
        intro: less_imp_le)
  show "line_end_of ?I s l \<le> length s" "boundary s (line_end_of ?I s l)"
    using line_index_boundary [OF assms(1)]
    by (auto simp: line_end_of_def get_opt_Some split: option.splits)
qed

subsection \<open>Resolving a position never panics\<close>

lemma scan_columns_bound:
  "scan_columns t c off body = Some r \<Longrightarrow>
     off \<le> r \<and> r < off + length body \<and> \<not> is_cont (body ! (r - off))"
proof (induction t c off body rule: scan_columns.induct)
  case (2 target column offset ch cs)
  then show ?case
    by (auto simp: Suc_diff_le nth_Cons' Suc_le_eq split: if_splits)
qed simp

lemma slice_inside_boundary:
  assumes "slice s a b = Some body" "r < length body" "\<not> is_cont (body ! r)"
  shows "boundary s (a + r) \<and> a + r \<le> b"
  using assms by (auto simp: slice_def boundary_def split: if_splits)

lemma byte_offset_in_line:
  assumes u: "utf8 s" and ls: "get_opt (line_index_new s) l = Some ls" and l: "lc_line pos = Suc l"
  shows "\<exists>r. byte_offset (line_index_new s) s pos = Some r \<and> boundary s r
    \<and> ls \<le> r \<and> r \<le> line_end_of (line_index_new s) s l"
proof -
  let ?e = "line_end_of (line_index_new s) s l"
  note b = line_end_bounds [OF u ls]
  obtain body where t: "slice s ls ?e = Some body" using b by (simp add: slice_some)
  show ?thesis
  proof (cases "scan_columns (lc_column pos) 1 0 body")
    case None
    with t b l ls show ?thesis by (simp add: byte_offset_def Let_def)
  next
    case (Some r)
    then have "r < length body" "\<not> is_cont (body ! r)"
      using scan_columns_bound [OF Some] by auto
    with slice_inside_boundary [OF t] Some t l ls show ?thesis
      by (simp add: byte_offset_def Let_def)
  qed
qed

lemma byte_offset_total:
  assumes "utf8 s"
  shows "\<exists>r. byte_offset (line_index_new s) s pos = Some r \<and> boundary s r \<and> r \<le> length s"
proof (cases "lc_line pos")
  case 0
  then show ?thesis by (simp add: byte_offset_def)
next
  case (Suc l)
  show ?thesis
  proof (cases "get_opt (line_index_new s) l")
    case None
    with Suc show ?thesis by (simp add: byte_offset_def)
  next
    case (Some ls)
    with byte_offset_in_line [OF assms Some Suc] line_end_bounds(2) [OF assms Some]
    show ?thesis by (auto intro: order_trans)
  qed
qed

lemma byte_range_total:
  assumes "utf8 s"
  shows "\<exists>a b. byte_range sp s (line_index_new s) = Some (a, b)
    \<and> a \<le> b \<and> b \<le> length s \<and> boundary s a \<and> boundary s b"
proof -
  from byte_offset_total [OF assms, of "sp_start sp"] byte_offset_total [OF assms, of "sp_end sp"]
  obtain a b where "byte_offset (line_index_new s) s (sp_start sp) = Some a" "boundary s a" "a \<le> length s"
    "byte_offset (line_index_new s) s (sp_end sp) = Some b" "boundary s b" "b \<le> length s"
    by auto
  then show ?thesis by (auto simp: byte_range_def max_def)
qed

lemma replace_extract:
  assumes "utf8 s"
  obtains p x q where "s = p @ x @ q"
    "extract_indexed sp s (line_index_new s) = Some x"
    "\<And>r. replace_indexed sp s (line_index_new s) r = Some (p @ r @ q)"
    "byte_range sp s (line_index_new s) = Some (length p, length p + length x)"
proof -
  from byte_range_total [OF assms, of sp] obtain a b where ab:
    "byte_range sp s (line_index_new s) = Some (a, b)" "a \<le> b" "b \<le> length s" "boundary s a" "boundary s b"
    by auto
  let ?p = "take a s" let ?x = "take (b - a) (drop a s)" let ?q = "drop b s"
  have sl: "slice s 0 a = Some ?p" "slice s a b = Some ?x" "slice s b (length s) = Some ?q"
    using ab by (simp_all add: slice_def)
  show thesis
  proof (rule that [of ?p ?x ?q])
    show "s = ?p @ ?x @ ?q" by (rule slice_split [OF sl])
    show "extract_indexed sp s (line_index_new s) = Some ?x"
      using ab sl by (simp add: extract_indexed_def)
    show "\<And>r. replace_indexed sp s (line_index_new s) r = Some (?p @ r @ ?q)"
      using ab sl by (simp add: replace_indexed_def)
    show "byte_range sp s (line_index_new s) = Some (length ?p, length ?p + length ?x)"
      using ab by simp
  qed
qed

subsection \<open>Offsets grow with positions\<close>

definition pos_le :: "line_column \<Rightarrow> line_column \<Rightarrow> bool" where
  "pos_le p q \<longleftrightarrow> lc_line p < lc_line q \<or> (lc_line p = lc_line q \<and> lc_column p \<le> lc_column q)"

lemma scan_columns_mono:
  "t \<le> t' \<Longrightarrow> scan_columns t' c off body = Some r' \<Longrightarrow>
     \<exists>r. scan_columns t c off body = Some r \<and> r \<le> r'"
proof (induction t c off body rule: scan_columns.induct)
  case (2 target column offset ch cs)
  then show ?case
    by (auto split: if_splits dest: scan_columns_bound)
qed simp

lemma byte_offset_mono_line:
  assumes u: "utf8 s" and ln: "lc_line p = lc_line q" and c: "lc_column p \<le> lc_column q"
    and r: "byte_offset (line_index_new s) s p = Some a" "byte_offset (line_index_new s) s q = Some b"
  shows "a \<le> b"
proof (cases "lc_line q")
  case 0
  with ln r show ?thesis by (simp add: byte_offset_def)
next
  case (Suc l)
  show ?thesis
  proof (cases "get_opt (line_index_new s) l")
    case None
    with Suc ln r show ?thesis by (simp add: byte_offset_def)
  next
    case (Some ls)
    let ?e = "line_end_of (line_index_new s) s l"
    obtain body where t: "slice s ls ?e = Some body"
      using line_end_bounds [OF u Some] by (simp add: slice_some)
    have eq: "byte_offset (line_index_new s) s x =
        (case scan_columns (lc_column x) 1 0 body of Some off \<Rightarrow> Some (ls + off) | None \<Rightarrow> Some ?e)"
      if "lc_line x = Suc l" for x
      using that Some t by (simp add: byte_offset_def Let_def)
    have ple: "a \<le> ?e"
      using byte_offset_in_line [OF u Some, of p] Suc ln r by (auto)
    show ?thesis
    proof (cases "scan_columns (lc_column q) 1 0 body")
      case None
      with eq [of q] Suc r ple show ?thesis by simp
    next
      case s2: (Some r')
      with scan_columns_mono [OF c s2] eq [of p] eq [of q] Suc ln r show ?thesis by auto
    qed
  qed
qed

lemma byte_offset_mono:
  assumes u: "utf8 s" and le: "pos_le p q"
    and r: "byte_offset (line_index_new s) s p = Some a" "byte_offset (line_index_new s) s q = Some b"
  shows "a \<le> b"
proof (cases "lc_line p = lc_line q")
  case True
  with le show ?thesis by (intro byte_offset_mono_line [OF u True _ r]) (simp add: pos_le_def)
next
  case False
  with le have lt: "lc_line p < lc_line q" by (simp add: pos_le_def)
  let ?I = "line_index_new s"
  show ?thesis
  proof (cases "lc_line p")
    case 0
    with r show ?thesis by (simp add: byte_offset_def)
  next
    case (Suc l)
    obtain m where m: "lc_line q = Suc m" "l < m" using lt Suc by (cases "lc_line q") auto
    show ?thesis
    proof (cases "get_opt ?I m")
      case None
      with m r have "b = length s" by (simp add: byte_offset_def)
      with byte_offset_total [OF u, of p] r show ?thesis by auto
    next
      case (Some ms)
      then have mlen: "m < length ?I" "?I ! m = ms" by (auto simp: get_opt_Some)
      with m have "get_opt ?I l = Some (?I ! l)" by (simp add: get_opt_Some)
      note pl = byte_offset_in_line [OF u this Suc]
      have "?I ! Suc l \<le> ?I ! m"
        using m mlen sorted_wrt_nth_less [OF line_index_sorted [of s], of "Suc l" m]
        by (cases "Suc l = m") auto
      then have "line_end_of ?I s l \<le> ms"
        using m mlen by (simp add: line_end_of_def get_opt_def)
      with pl byte_offset_in_line [OF u Some m(1)] r show ?thesis by auto
    qed
  qed
qed

subsection \<open>Counting lines and columns\<close>

text \<open>
  The reference: the 1-based line and column of a byte offset, counted from the start of the body.
  Columns count characters, and a carriage return does not advance them.
\<close>

fun line_col_from :: "nat \<Rightarrow> nat \<Rightarrow> string \<Rightarrow> nat \<Rightarrow> line_column" where
  "line_col_from l c s 0 = \<lparr>lc_line = l, lc_column = c\<rparr>"
| "line_col_from l c [] (Suc i) = \<lparr>lc_line = l, lc_column = c\<rparr>"
| "line_col_from l c (x # xs) (Suc i) =
     (if x = newline then line_col_from (l + 1) 1 xs i
      else if is_cont x \<or> x = creturn then line_col_from l c xs i
      else line_col_from l (c + 1) xs i)"

definition line_col_of :: "string \<Rightarrow> nat \<Rightarrow> line_column" where
  "line_col_of s i = line_col_from 1 1 s i"

definition columns :: "string \<Rightarrow> nat" where
  "columns s = length (filter (\<lambda>x. \<not> is_cont x \<and> x \<noteq> creturn) s)"

lemma line_col_no_newline:
  "newline \<notin> set m \<Longrightarrow> line_col_from l c (m @ t) (length m) = \<lparr>lc_line = l, lc_column = c + columns m\<rparr>"
  by (induction m arbitrary: c) (auto simp: columns_def)

lemma length_newline_ends: "length (newline_ends i p) = length (filter (\<lambda>x. x = newline) p)"
  by (induction p arbitrary: i) auto

lemma line_col_step:
  "line_col_from l c (p @ newline # t) (Suc (length p + i))
    = line_col_from (l + 1 + length (newline_ends 0 p)) 1 t i"
  by (induction p arbitrary: l c) (auto simp: length_newline_ends)

lemma last_line_split:
  obtains (first) "newline \<notin> set s"
  | (later) p m where "s = p @ newline # m" "newline \<notin> set m"
  by (metis split_list_last)

lemma columns_Cons [simp]:
  "columns (x # m) = (if is_cont x \<or> x = creturn then columns m else Suc (columns m))"
  by (simp add: columns_def)

lemma columns_Nil [simp]: "columns [] = 0"
  by (simp add: columns_def)

lemma scan_to_target:
  assumes "creturn \<notin> set m" and "rest = [] \<or> \<not> is_cont (hd rest)"
  shows "scan_columns (c + columns m) c off (m @ rest)
    = (if rest = [] then None else Some (off + length m))"
  using assms(1)
proof (induction m arbitrary: c off)
  case Nil
  then show ?case using assms(2) by (cases rest) auto
next
  case (Cons x m)
  then show ?case
    using Cons.IH [of "Suc c" "Suc off"] Cons.IH [of c "Suc off"] by (cases "rest = []") auto
qed

lemma byte_offset_at:
  assumes u: "utf8 (p @ m @ t)" and p: "p = [] \<or> last p = newline"
    and m: "newline \<notin> set m" "creturn \<notin> set m"
    and bnd: "boundary (p @ m @ t) (length p + length m)"
  shows "byte_offset (line_index_new (p @ m @ t)) (p @ m @ t)
      \<lparr>lc_line = Suc (length (newline_ends 0 p)), lc_column = 1 + columns m\<rparr>
    = Some (length p + length m)"
proof -
  let ?s = "p @ m @ t" let ?I = "line_index_new ?s" let ?l = "length (newline_ends 0 p)"
  have nm: "newline_ends (length p) m = []"
    using m newline_ends_mem [of _ "length p" m] by (metis list.set_intros(1) neq_Nil_conv nth_mem)
  have I: "?I = (0 # newline_ends 0 p) @ newline_ends (length p + length m) t"
    using nm by (simp add: line_index_new_def newline_ends_append)
  have st: "(0 # newline_ends 0 p) ! ?l = length p"
  proof (cases "p = []")
    case False
    with p obtain p' where "p = p' @ [newline]" by (metis append_butlast_last_id)
    then show ?thesis by (simp add: newline_ends_append)
  qed simp
  have g: "get_opt ?I ?l = Some (length p)"
    unfolding I get_opt_Some nth_append using st by simp
  obtain e where e: "line_end_of ?I ?s ?l = e" "length p + length m \<le> e" "e \<le> length ?s"
  proof -
    have "length p + length m \<le> line_end_of ?I ?s ?l"
    proof (cases "newline_ends (length p + length m) t")
      case Nil
      then show ?thesis by (simp add: line_end_of_def I get_opt_def)
    next
      case (Cons a as)
      then have "a \<in> set (newline_ends (length p + length m) t)" by simp
      then have "length p + length m < a" by (auto simp: newline_ends_mem)
      then show ?thesis by (simp add: line_end_of_def I get_opt_def Cons nth_append)
    qed
    then show thesis using that line_end_bounds(2) [OF u g] by blast
  qed
  let ?rest = "take (e - (length p + length m)) t"
  have body: "slice ?s (length p) e = Some (m @ ?rest)"
    using line_end_bounds [OF u g] e by (simp add: slice_some)
  have rest: "?rest = [] \<or> \<not> is_cont (hd ?rest)"
  proof (cases "?rest = []")
    case False
    then have "t \<noteq> []" and h: "hd ?rest = hd t" by (auto simp: hd_take)
    with bnd have "\<not> is_cont (hd t) \<or> length p + length m = 0"
      by (auto simp: boundary_def nth_append hd_conv_nth)
    moreover have "\<not> is_cont (hd t)" if "length p + length m = 0"
    proof -
      obtain c t' where t: "t = c # t'" using \<open>t \<noteq> []\<close> by (cases t) auto
      with u that have "utf8_from 0 (c # t')" by (simp only: utf8_def) simp
      then show ?thesis using t by (simp only: list.sel utf8_head simp_thms)
    qed
    ultimately show ?thesis unfolding h by blast
  qed simp
  have sc: "scan_columns (1 + columns m) 1 0 (m @ ?rest) = (if ?rest = [] then None else Some (length m))"
    using scan_to_target [OF m(2) rest, of 1 0] by simp
  have emp: "e = length p + length m" if "?rest = []"
    using that e(2,3) by (cases t) auto
  have eq: "byte_offset ?I ?s \<lparr>lc_line = Suc ?l, lc_column = 1 + columns m\<rparr>
      = (case scan_columns (1 + columns m) 1 0 (m @ ?rest) of
           Some off \<Rightarrow> Some (length p + off) | None \<Rightarrow> Some e)"
    unfolding byte_offset_def Let_def by (simp only: line_column.simps diff_Suc_1 g option.case e(1) body) simp
  show ?thesis
  proof (cases "?rest = []")
    case True
    from emp [OF True] show ?thesis unfolding eq sc if_P [OF True] by simp
  next
    case False
    then show ?thesis unfolding eq sc by (simp only: if_False option.case)
  qed
qed

lemma byte_offset_line_col:
  assumes u: "utf8 s" and nocr: "creturn \<notin> set s" and i: "i \<le> length s" and b: "boundary s i"
  shows "byte_offset (line_index_new s) s (line_col_of s i) = Some i"
proof -
  define a where "a = take i s"
  define t where "t = drop i s"
  have s: "s = a @ t" and li: "i = length a" using i by (simp_all add: a_def t_def)
  have cr: "creturn \<notin> set a" using nocr s by simp
  show ?thesis
  proof (cases a rule: last_line_split)
    case first
    have "line_col_of s i = \<lparr>lc_line = 1, lc_column = 1 + columns a\<rparr>"
      unfolding line_col_of_def s li by (rule line_col_no_newline [OF first])
    then show ?thesis
      using byte_offset_at [of "[]" a t] u b first cr by (simp add: s li)
  next
    case (later p m)
    let ?p = "p @ [newline]"
    have s': "s = ?p @ m @ t" using later(1) s by simp
    have li': "i = Suc (length p + length m)" using later(1) li by simp
    have "line_col_from 1 1 (p @ newline # m @ t) (Suc (length p + length m))
        = line_col_from (1 + 1 + length (newline_ends 0 p)) 1 (m @ t) (length m)"
      by (rule line_col_step)
    also have "\<dots> = \<lparr>lc_line = 1 + 1 + length (newline_ends 0 p), lc_column = 1 + columns m\<rparr>"
      by (rule line_col_no_newline [OF later(2)])
    finally have "line_col_of s i = \<lparr>lc_line = Suc (length (newline_ends 0 ?p)), lc_column = 1 + columns m\<rparr>"
      by (simp add: line_col_of_def li' s' newline_ends_append)
    moreover have "byte_offset (line_index_new (?p @ m @ t)) (?p @ m @ t)
        \<lparr>lc_line = Suc (length (newline_ends 0 ?p)), lc_column = 1 + columns m\<rparr>
      = Some (length ?p + length m)"
    proof (rule byte_offset_at)
      show "utf8 (?p @ m @ t)" using u by (simp only: s')
      show "boundary (?p @ m @ t) (length ?p + length m)" using b by (simp add: s' li')
      show "creturn \<notin> set m" using cr later(1) by simp
    qed (use later in auto)
    ultimately show ?thesis by (simp only: s' li') simp
  qed
qed

subsection \<open>Properties\<close>

text \<open>C15: No span, however far outside the text, can make extraction or replacement panic: the span
  resolves to a range between character boundaries, the text is cut into what precedes it, the
  extracted text and what follows, and replacement exchanges exactly the middle part.\<close>

theorem span_cuts_text:
  assumes "utf8 s"
  shows "\<exists>p x q. s = p @ x @ q
    \<and> byte_range sp s (line_index_new s) = Some (length p, length p + length x)
    \<and> boundary s (length p) \<and> boundary s (length p + length x)
    \<and> extract_indexed sp s (line_index_new s) = Some x
    \<and> (\<forall>r. replace_indexed sp s (line_index_new s) r = Some (p @ r @ q))"
proof -
  obtain p x q where c: "s = p @ x @ q"
    "extract_indexed sp s (line_index_new s) = Some x"
    "\<And>r. replace_indexed sp s (line_index_new s) r = Some (p @ r @ q)"
    "byte_range sp s (line_index_new s) = Some (length p, length p + length x)"
    by (rule replace_extract [OF assms, of sp]) (rule that)
  then show ?thesis using byte_range_total [OF assms, of sp] by (intro exI conjI) auto
qed

lemma span_cuts_text_witness:
  "\<exists>p x q. ''ab'' @ [newline] @ ''cd'' = p @ x @ q
    \<and> byte_range (quad 1 2 2 9) (''ab'' @ [newline] @ ''cd'') (line_index_new (''ab'' @ [newline] @ ''cd''))
        = Some (length p, length p + length x)"
  using span_cuts_text [of "''ab'' @ [newline] @ ''cd''" "quad 1 2 2 9"]
  by (auto simp: utf8_def lead_len_def)

text \<open>A span whose end does not precede its start, as positions, resolves to an end that does not
  precede its start, as byte offsets: the debug assertion of \<open>byte_range\<close> never fires and the clamp
  never changes a range.\<close>

theorem ordered_span_resolves_in_order:
  assumes "utf8 s" "pos_le (sp_start sp) (sp_end sp)"
  shows "byte_range_assert sp s (line_index_new s)
    \<and> byte_range sp s (line_index_new s)
        = Some (the (byte_offset (line_index_new s) s (sp_start sp)),
                the (byte_offset (line_index_new s) s (sp_end sp)))"
proof -
  obtain a b where "byte_offset (line_index_new s) s (sp_start sp) = Some a"
    "byte_offset (line_index_new s) s (sp_end sp) = Some b"
    using byte_offset_total [OF assms(1)] by metis
  moreover from byte_offset_mono [OF assms this] have "a \<le> b" .
  ultimately show ?thesis by (simp add: byte_range_assert_def byte_range_def)
qed

lemma ordered_span_resolves_in_order_witness:
  "byte_range_assert (quad 1 2 2 9) (''ab'' @ [newline] @ ''cd'') (line_index_new (''ab'' @ [newline] @ ''cd''))"
  using ordered_span_resolves_in_order [of "''ab'' @ [newline] @ ''cd''" "quad 1 2 2 9"]
  by (auto simp: utf8_def lead_len_def pos_le_def quad_def)

text \<open>C16: Resolving the line and column of a character, counted from the start of the text, gives back
  the byte offset of that character, for every character of a text without carriage returns.\<close>

theorem offset_inverts_line_and_column:
  assumes "utf8 s" "creturn \<notin> set s" "i \<le> length s" "boundary s i"
  shows "byte_offset (line_index_new s) s (line_col_of s i) = Some i"
  by (rule byte_offset_line_col [OF assms])

lemma offset_inverts_line_and_column_witness:
  "byte_offset (line_index_new (''ab'' @ [newline] @ ''cd'')) (''ab'' @ [newline] @ ''cd'')
      (line_col_of (''ab'' @ [newline] @ ''cd'') 4) = Some 4"
  by (rule offset_inverts_line_and_column) (simp_all add: utf8_def lead_len_def boundary_def is_cont_def)

end
