(* ===== verification/Sources.thy ===== *)
theory Sources
  imports Paths Spans "HOL-Library.List_Lexorder" "HOL-Library.Char_ord" "HOL-Library.Product_Lexorder"
begin

text \<open>
  Packages (\<open>src/src/package.rs\<close>), the workspace and the choice of packages
  (\<open>src/src/workspace.rs\<close>), and source files (\<open>src/src/source.rs\<close>).  What \<open>cargo metadata\<close>
  reports is data given to the model (\<open>meta_package\<close>, the workspace root and the default
  members); the file system is read through the functions passed to the operations.
\<close>

subsection \<open>Packages\<close>

datatype target_kind = TBin | TProcMacro | TCDyLib | TDyLib | TLib | TRLib | TStaticLib | TOther string

record meta_target =
  mt_name :: string
  mt_kind :: "target_kind list"
  mt_src_path :: path

record meta_package =
  mp_name :: string
  mp_version :: string
  mp_manifest_path :: path
  mp_targets :: "meta_target list"

record package =
  pkg_name :: string
  pkg_version :: string
  pkg_relative_dir :: path
  pkg_top_sources :: "path list"

datatype package_selection = SelAll | SelExplicit "package list"

definition version_qualified_name :: "package \<Rightarrow> string" where
  "version_qualified_name p = pkg_name p @ ''@'' @ pkg_version p"

definition should_mutate_target :: "meta_target \<Rightarrow> bool" where
  "should_mutate_target t \<longleftrightarrow>
     list_ex (\<lambda>kd. kd \<in> set [TBin, TProcMacro, TCDyLib, TDyLib, TLib, TRLib, TStaticLib]) (mt_kind t)"

text \<open>\<open>Ord\<close> for paths compares components, the root first, then \<open>.\<close>, then \<open>..\<close>, then names.\<close>

definition component_key :: "string \<Rightarrow> nat \<times> string" where
  "component_key c = (if c = ''/'' then 0 else if c = ''.'' then 1 else if c = ''..'' then 2 else 3, c)"

definition path_key :: "path \<Rightarrow> (nat \<times> string) list" where
  "path_key p = map component_key (components p)"

text \<open>\<open>Vec::dedup\<close> on paths, which compares components.\<close>

fun dedup_paths :: "path list \<Rightarrow> path list" where
  "dedup_paths (x # y # zs) =
     (if path_eq x y then dedup_paths (x # zs) else x # dedup_paths (y # zs))"
| "dedup_paths xs = xs"

definition package_top_sources :: "path \<Rightarrow> meta_package \<Rightarrow> path list" where
  "package_top_sources root pm =
     dedup_paths (sort_key path_key
       (List.map_filter (\<lambda>t. path_strip_prefix root (mt_src_path t))
          (filter should_mutate_target (mp_targets pm))))"

definition from_cargo_metadata :: "meta_package \<Rightarrow> path \<Rightarrow> package option" where
  "from_cargo_metadata pm root =
     (case Option.bind (path_strip_prefix root (mp_manifest_path pm)) path_parent of
        None \<Rightarrow> None
      | Some dir \<Rightarrow> Some \<lparr>pkg_name = mp_name pm, pkg_version = mp_version pm,
                         pkg_relative_dir = dir, pkg_top_sources = package_top_sources root pm\<rparr>)"

record metadata =
  md_workspace_root :: path
  md_workspace_packages :: "meta_package list"
  md_default_packages :: "string list option"  \<comment> \<open>None where the query panics (old cargo)\<close>

definition packages_from_metadata :: "metadata \<Rightarrow> package list" where
  "packages_from_metadata md =
     List.map_filter (\<lambda>p. from_cargo_metadata p (md_workspace_root md))
       (sort_key mp_name (md_workspace_packages md))"

subsection \<open>The workspace\<close>

datatype package_filter = FilterAll | FilterExplicit "string list" | FilterAuto path

record workspace =
  ws_metadata :: metadata
  ws_packages :: "package list"

abbreviation ws_root :: "workspace \<Rightarrow> path" where
  "ws_root ws \<equiv> md_workspace_root (ws_metadata ws)"

datatype ws_error =
    NotADirectory path
  | Canonicalize path
  | NoCargoToml path
  | NoMatchingPackage path

definition workspace_open :: "metadata \<Rightarrow> workspace" where
  "workspace_open md = \<lparr>ws_metadata = md, ws_packages = packages_from_metadata md\<rparr>"

definition packages_by_name :: "workspace \<Rightarrow> string list \<Rightarrow> package list" where
  "packages_by_name ws names =
     List.map_filter (\<lambda>name. find (\<lambda>p. pkg_name p = name) (ws_packages ws)) (sort names)"

text \<open>
  \<open>locate_project\<close> walks up from a canonical directory; the components are passed last first, so
  that the parent is the tail.
\<close>

fun locate_up :: "(path \<Rightarrow> bool) \<Rightarrow> string list \<Rightarrow> path option" where
  "locate_up is_file [] = (if is_file (join_path [] ''Cargo.toml'') then Some [] else None)"
| "locate_up is_file (c # cs) =
     (let dir = path_of (rev (c # cs)) in
      if is_file (join_path dir ''Cargo.toml'') then Some dir
      else if c = ''/'' then None
      else locate_up is_file cs)"

definition locate_project ::
  "(path \<Rightarrow> bool) \<Rightarrow> (path \<Rightarrow> bool) \<Rightarrow> (path \<Rightarrow> path option) \<Rightarrow> path \<Rightarrow> (ws_error, path) rresult" where
  "locate_project is_dir is_file canonicalize p =
     (if \<not> is_dir p then Err (NotADirectory p)
      else (case canonicalize p of
              None \<Rightarrow> Err (Canonicalize p)
            | Some canonical \<Rightarrow>
                (case locate_up is_file (rev (components canonical)) of
                   None \<Rightarrow> Err (NoCargoToml canonical)
                 | Some dir \<Rightarrow> Ok dir)))"

definition default_packages :: "workspace \<Rightarrow> package_selection" where
  "default_packages ws =
     (case md_default_packages (ws_metadata ws) of
        Some names \<Rightarrow> SelExplicit (packages_by_name ws (sort names))
      | None \<Rightarrow> SelAll)"

definition filter_packages ::
  "(path \<Rightarrow> (ws_error, path) rresult) \<Rightarrow> workspace \<Rightarrow> package_filter
     \<Rightarrow> (ws_error, package_selection) rresult" where
  "filter_packages locate ws flt =
     (case flt of
        FilterAuto dir \<Rightarrow>
          rbind (locate dir) (\<lambda>package_dir.
            (case find (\<lambda>p. path_eq (join_path (ws_root ws) (pkg_relative_dir p)) package_dir)
                    (ws_packages ws) of
               Some p \<Rightarrow> Ok (SelExplicit [p])
             | None \<Rightarrow>
                 if path_eq package_dir (ws_root ws) then Ok (default_packages ws)
                 else Err (NoMatchingPackage package_dir)))
      | FilterAll \<Rightarrow> Ok SelAll
      | FilterExplicit names \<Rightarrow> Ok (SelExplicit (packages_by_name ws names)))"

definition expand_selection :: "workspace \<Rightarrow> package_selection \<Rightarrow> package list" where
  "expand_selection ws sel = (case sel of SelAll \<Rightarrow> ws_packages ws | SelExplicit ps \<Rightarrow> ps)"

subsection \<open>Source files\<close>

record source_file =
  sf_package :: package
  sf_tree_relative_path :: path
  sf_code :: string
  sf_is_top :: bool
  sf_line_index :: line_index
  sf_slash_path :: string

text \<open>\<open>text.replace("\r\n", "\n")\<close>: matches are found left to right and do not overlap.\<close>

fun replace_crlf :: "string \<Rightarrow> string" where
  "replace_crlf (a # b # cs) =
     (if a = creturn \<and> b = newline then newline # replace_crlf cs
      else a # replace_crlf (b # cs))"
| "replace_crlf cs = cs"

definition load ::
  "(path \<Rightarrow> ('e, string) rresult) \<Rightarrow> path \<Rightarrow> path \<Rightarrow> package \<Rightarrow> bool
     \<Rightarrow> ('e, source_file option) rresult" where
  "load read_to_string tree_path rel pkg is_top =
     (if 0 < ascent rel then Ok None
      else rbind (read_to_string (join_path tree_path rel)) (\<lambda>body.
        let code = (if creturn \<in> set body then replace_crlf body else body)
        in Ok (Some \<lparr>sf_package = pkg, sf_tree_relative_path = rel, sf_code = code,
                     sf_is_top = is_top, sf_line_index = line_index_new code,
                     sf_slash_path = to_slash_path rel\<rparr>)))"

definition format_source_location :: "source_file \<Rightarrow> line_column \<Rightarrow> string" where
  "format_source_location sf loc =
     sf_slash_path sf @ '':'' @ show_nat (lc_line loc) @ '':'' @ show_nat (lc_column loc)"

text \<open>What \<open>load\<close> makes of a source file, and all the later code relies on.\<close>

definition source_ok :: "source_file \<Rightarrow> bool" where
  "source_ok sf \<longleftrightarrow> utf8 (sf_code sf) \<and> sf_line_index sf = line_index_new (sf_code sf)
     \<and> sf_slash_path sf = to_slash_path (sf_tree_relative_path sf)
     \<and> ascent (sf_tree_relative_path sf) = 0"

subsection \<open>Loading\<close>

lemma replace_crlf_utf8: "utf8_from m s \<Longrightarrow> utf8_from m (replace_crlf s)"
proof (induction s arbitrary: m rule: replace_crlf.induct)
  case (1 a b cs)
  show ?case
  proof (cases "a = creturn \<and> b = newline")
    case True
    with "1.prems" have "m = 0" by (cases m) (auto simp: is_cont_def)
    with True "1.prems" have "utf8_from 0 cs" by (auto simp: lead_len_def)
    with True \<open>m = 0\<close> 1 show ?thesis by simp
  next
    case False
    have "utf8_from m (a # replace_crlf (b # cs))"
    proof (cases m)
      case 0
      with "1.prems" obtain j where "lead_len a = Some j" "utf8_from j (b # cs)"
        by (auto split: option.splits)
      with 0 False 1(2) show ?thesis by auto
    next
      case (Suc j)
      with "1.prems" False 1(2) show ?thesis by auto
    qed
    with False show ?thesis by (auto simp del: utf8_from.simps)
  qed
qed auto

lemma load_source_ok:
  assumes "load rd tree rel pkg is_top = Ok (Some sf)"
    and "\<And>p s. rd p = Ok s \<Longrightarrow> utf8 s"
  shows "source_ok sf"
  using assms ascent_nonneg [of rel]
  by (auto simp: load_def source_ok_def rbind_Ok_iff utf8_def replace_crlf_utf8 Let_def split: if_splits)

text \<open>No carriage return directly before a newline survives, unless two precede it.\<close>

fun has_crlf :: "string \<Rightarrow> bool" where
  "has_crlf (a # b # cs) = ((a = creturn \<and> b = newline) \<or> has_crlf (b # cs))"
| "has_crlf _ = False"

fun has_crcrlf :: "string \<Rightarrow> bool" where
  "has_crcrlf (a # b # c # ds) =
     ((a = creturn \<and> b = creturn \<and> c = newline) \<or> has_crcrlf (b # c # ds))"
| "has_crcrlf _ = False"

lemma has_crlf_Cons: "has_crlf (a # s) = ((a = creturn \<and> s \<noteq> [] \<and> hd s = newline) \<or> has_crlf s)"
  by (cases s) auto

lemma has_crcrlf_Cons: "has_crcrlf s \<Longrightarrow> has_crcrlf (a # s)"
  by (induction s rule: has_crcrlf.induct) auto

lemma replace_crlf_head:
  "replace_crlf (b # cs) \<noteq> [] \<and>
    (hd (replace_crlf (b # cs)) = newline \<longrightarrow> b = newline \<or> (b = creturn \<and> cs \<noteq> [] \<and> hd cs = newline))"
  by (cases cs) auto

lemma replace_crlf_normal: "\<not> has_crcrlf s \<Longrightarrow> \<not> has_crlf (replace_crlf s)"
proof (induction s rule: replace_crlf.induct)
  case (1 a b cs)
  show ?case
  proof (cases "a = creturn \<and> b = newline")
    case True
    moreover have "\<not> has_crcrlf cs" using 1(3) has_crcrlf_Cons by blast
    ultimately show ?thesis using 1(1) by (simp add: has_crlf_Cons)
  next
    case False
    have tl: "\<not> has_crcrlf (b # cs)" using 1(3) has_crcrlf_Cons by blast
    have "\<not> (a = creturn \<and> hd (replace_crlf (b # cs)) = newline)"
    proof
      assume a: "a = creturn \<and> hd (replace_crlf (b # cs)) = newline"
      with replace_crlf_head [of b cs] False have "b = creturn \<and> cs \<noteq> [] \<and> hd cs = newline" by auto
      with a 1(3) show False by (cases cs) auto
    qed
    with False 1(2) tl replace_crlf_head [of b cs] show ?thesis
      by (auto simp: has_crlf_Cons simp del: has_crlf.simps)
  qed
qed auto

lemma replace_crlf_id: "creturn \<notin> set b \<Longrightarrow> replace_crlf b = b"
  by (induction b rule: replace_crlf.induct) auto

subsection \<open>Finding the enclosing package\<close>

lemma locate_up_nearest:
  assumes "locate_up is_file cs = Some dir"
  shows "\<exists>front rest. cs = front @ rest \<and> dir = path_of (rev rest)
    \<and> is_file (join_path dir ''Cargo.toml'')
    \<and> (\<forall>f. strict_prefix f front \<longrightarrow> \<not> is_file (join_path (path_of (rev (drop (length f) cs))) ''Cargo.toml''))"
  using assms
proof (induction is_file cs rule: locate_up.induct)
  case (1 is_file)
  then show ?case by (auto simp: path_of_def split: if_splits)
next
  case (2 is_file c cs)
  let ?dir = "path_of (rev (c # cs))"
  show ?case
  proof (cases "is_file (join_path ?dir ''Cargo.toml'')")
    case True
    with 2 show ?thesis by (intro exI [of _ "[]"] exI [of _ "c # cs"]) auto
  next
    case False
    with 2(2) have "c \<noteq> ''/''" and up: "locate_up is_file cs = Some dir"
      by (auto simp: Let_def split: if_splits)
    from 2(1) [OF refl False \<open>c \<noteq> ''/''\<close> up] obtain front rest where *:
      "cs = front @ rest" "dir = path_of (rev rest)" "is_file (join_path dir ''Cargo.toml'')"
      "\<And>f. strict_prefix f front \<Longrightarrow> \<not> is_file (join_path (path_of (rev (drop (length f) cs))) ''Cargo.toml'')"
      by blast
    have "\<not> is_file (join_path (path_of (rev (drop (length f) (c # cs)))) ''Cargo.toml'')"
      if "strict_prefix f (c # front)" for f
    proof (cases f)
      case Nil
      with False show ?thesis by simp
    next
      case (Cons x f')
      with that *(4) [of f'] show ?thesis by (simp add: strict_prefix_def)
    qed
    with * show ?thesis by (intro exI [of _ "c # front"] exI [of _ rest]) auto
  qed
qed

subsection \<open>Properties\<close>

definition example_package :: package where
  "example_package =
     \<lparr>pkg_name = ''p'', pkg_version = ''0.1.0'', pkg_relative_dir = [], pkg_top_sources = [''src/lib.rs'']\<rparr>"

text \<open>Whatever \<open>load\<close> accepts is a well-formed source file inside the tree: its code is UTF-8
  with the index of that code, and it keeps no carriage return before a newline, unless the file had
  two of them in a row there.  A path that climbs out of the tree is left out without being read,
  and the error of reading is passed on.\<close>

theorem load_normalises:
  assumes "\<And>p s. rd p = Ok s \<Longrightarrow> utf8 s"
  shows "(load rd tree rel pkg is_top = Ok (Some sf) \<longrightarrow>
      source_ok sf \<and> sf_tree_relative_path sf = rel
      \<and> (\<exists>body. rd (join_path tree rel) = Ok body \<and> sf_code sf = replace_crlf body
            \<and> (\<not> has_crcrlf body \<longrightarrow> \<not> has_crlf (sf_code sf))))
    \<and> (0 < ascent rel \<longrightarrow> load rd tree rel pkg is_top = Ok None)
    \<and> (\<not> 0 < ascent rel \<and> rd (join_path tree rel) = Err e \<longrightarrow> load rd tree rel pkg is_top = Err e)"
proof -
  have code: "(if creturn \<in> set b then replace_crlf b else b) = replace_crlf b" for b
    using replace_crlf_id [of b] by auto
  show ?thesis
    using load_source_ok [of rd tree rel pkg is_top sf] assms
    by (auto simp: load_def rbind_Ok_iff Let_def code replace_crlf_normal split: if_splits)
qed

lemma load_normalises_witness:
  "load (\<lambda>p. Inr (''a'' @ [creturn, newline])) ''/t'' ''s.rs'' example_package True
     = (Inr (Some \<lparr>sf_package = example_package, sf_tree_relative_path = ''s.rs'', sf_code = ''a'' @ [newline],
         sf_is_top = True, sf_line_index = [0, 2], sf_slash_path = ''s.rs''\<rparr>) :: (unit, source_file option) rresult)
   \<and> source_ok \<lparr>sf_package = example_package, sf_tree_relative_path = ''s.rs'', sf_code = ''a'' @ [newline],
         sf_is_top = True, sf_line_index = [0, 2], sf_slash_path = ''s.rs''\<rparr>"
proof -
  let ?rd = "\<lambda>p. Inr (''a'' @ [creturn, newline]) :: (unit, string) rresult"
  have l: "load ?rd ''/t'' ''s.rs'' example_package True
     = Inr (Some \<lparr>sf_package = example_package, sf_tree_relative_path = ''s.rs'', sf_code = ''a'' @ [newline],
         sf_is_top = True, sf_line_index = [0, 2], sf_slash_path = ''s.rs''\<rparr>)"
    by (simp add: load_def ascent_def components_def is_absolute_def starts_with_def
        line_index_new_def to_slash_path_def)
  with load_normalises [of ?rd "''/t''" "''s.rs''" example_package True] show ?thesis
    by (auto simp: utf8_def lead_len_def)
qed

text \<open>The project found for a path is the nearest enclosing directory that holds a manifest: the
  walk starts at the canonical path, no directory passed on the way has one, and each failure is
  reported as what it is.\<close>

theorem locate_project_finds_nearest:
  "(locate_project is_dir is_file canon p = Ok dir \<longrightarrow>
      is_dir p \<and> (\<exists>c up rest. canon p = Some c \<and> components c = rev rest @ rev up
        \<and> dir = path_of (rev rest) \<and> is_file (join_path dir ''Cargo.toml'')
        \<and> (\<forall>f. strict_prefix f up \<longrightarrow>
              \<not> is_file (join_path (path_of (rev (drop (length f) (up @ rest)))) ''Cargo.toml''))))
    \<and> (\<not> is_dir p \<longrightarrow> locate_project is_dir is_file canon p = Err (NotADirectory p))
    \<and> (is_dir p \<and> canon p = None \<longrightarrow> locate_project is_dir is_file canon p = Err (Canonicalize p))
    \<and> (locate_project is_dir is_file canon p = Err (NoCargoToml c) \<longrightarrow>
        \<not> is_file (join_path (path_of (components c)) ''Cargo.toml''))"
proof -
  have none: "locate_up f (rev cs) = None \<Longrightarrow> \<not> f (join_path (path_of cs) ''Cargo.toml'')" for f cs
    by (cases cs rule: rev_cases) (auto simp: Let_def path_of_def split: if_splits)
  have "is_dir p \<and> (\<exists>c up rest. canon p = Some c \<and> components c = rev rest @ rev up
        \<and> dir = path_of (rev rest) \<and> is_file (join_path dir ''Cargo.toml'')
        \<and> (\<forall>f. strict_prefix f up \<longrightarrow>
              \<not> is_file (join_path (path_of (rev (drop (length f) (up @ rest)))) ''Cargo.toml'')))"
    if "locate_project is_dir is_file canon p = Ok dir"
  proof -
    from that obtain c where c: "is_dir p" "canon p = Some c"
      "locate_up is_file (rev (components c)) = Some dir"
      by (auto simp: locate_project_def split: if_splits option.splits)
    from locate_up_nearest [OF c(3)] obtain up rest where u: "rev (components c) = up @ rest"
      "dir = path_of (rev rest)" "is_file (join_path dir ''Cargo.toml'')"
      "\<forall>f. strict_prefix f up \<longrightarrow> \<not> is_file (join_path (path_of (rev (drop (length f) (rev (components c))))) ''Cargo.toml'')"
      by blast
    from u(1) have "components c = rev rest @ rev up" by (metis rev_append rev_rev_ident)
    with c u show ?thesis by (metis (no_types, lifting))
  qed
  with none show ?thesis
    by (auto simp: locate_project_def split: if_splits option.splits)
qed

lemma locate_project_finds_nearest_witness:
  "locate_project (\<lambda>_. True) (\<lambda>f. f = ''/w/Cargo.toml'') Some ''/w/src'' = Ok ''/w''
    \<and> ''/w/Cargo.toml'' = join_path ''/w'' ''Cargo.toml''"
proof -
  have l: "locate_project (\<lambda>_. True) (\<lambda>f. f = ''/w/Cargo.toml'') Some ''/w/src'' = Ok ''/w''"
    by (simp add: locate_project_def components_def is_absolute_def starts_with_def path_of_def
        join_path_def)
  with locate_project_finds_nearest [of "\<lambda>_. True" "\<lambda>f. f = ''/w/Cargo.toml''" Some "''/w/src''" "''/w''"]
  show ?thesis by auto
qed

end
