(* ===== verification/Mutants.thy ===== *)
theory Mutants
  imports Sources
begin

text \<open>
  Mutants (\<open>src/src/mutant.rs\<close>): their description and names, the mutated text and the window
  that is diffed, the renumbering of hunk headers, and \<open>clean_filename\<close> of
  \<open>src/src/output.rs\<close>, which builds log file names from them.  The lazily filled name caches are
  not modelled: they hold the value of the function that fills them.  Where the code calls
  \<open>expect\<close> or slices text, the model returns \<^term>\<open>None\<close> for the panic.
\<close>

subsection \<open>The data\<close>

datatype genre =
    FnValue | BinaryOperator | UnaryOperator | MatchArm | MatchArmGuard | IfCondition
  | WhileCondition | BoolLiteral | DeleteStatement | ReturnValue | StructField

datatype mutation_target = StructLiteralField (target_field: string) (target_struct: string)

datatype part_style = Plain | Yellow | BrightYellow | Magenta | BrightMagenta

record function_info =
  fi_name :: string
  fi_return_type :: string
  fi_span :: span

record mutant =
  mu_source_file :: source_file
  mu_function :: "function_info option"
  mu_span :: span
  mu_short_replaced :: "string option"
  mu_replacement :: string
  mu_genre :: genre
  mu_target :: "mutation_target option"
  mu_const_eval :: bool

definition new_discovered ::
  "source_file \<Rightarrow> function_info option \<Rightarrow> span \<Rightarrow> string option \<Rightarrow> string \<Rightarrow> genre
     \<Rightarrow> mutation_target option \<Rightarrow> bool \<Rightarrow> mutant" where
  "new_discovered sf f sp sr repl g t ce =
     \<lparr>mu_source_file = sf, mu_function = f, mu_span = sp, mu_short_replaced = sr,
      mu_replacement = repl, mu_genre = g, mu_target = t, mu_const_eval = ce\<rparr>"

text \<open>\<open>PartialEq for Mutant\<close>: where it is and what it changes, not whether it is const-evaluated.\<close>

definition mutant_eq :: "mutant \<Rightarrow> mutant \<Rightarrow> bool" where
  "mutant_eq a b \<longleftrightarrow>
     mu_source_file a = mu_source_file b \<and> mu_function a = mu_function b
     \<and> mu_span a = mu_span b \<and> mu_short_replaced a = mu_short_replaced b
     \<and> mu_replacement a = mu_replacement b \<and> mu_genre a = mu_genre b \<and> mu_target a = mu_target b"

definition DIFF_CONTEXT_LINES :: nat where "DIFF_CONTEXT_LINES = 8"

definition MUTATION_MARKER_COMMENT :: string where
  "MUTATION_MARKER_COMMENT = ''/* ~ changed by cargo-mutants ~ */''"

subsection \<open>Describing a mutant\<close>

text \<open>\<open>squash_lines\<close>: the loop's state is the text so far and whether it is inside indentation.\<close>

fun squash_loop :: "string \<Rightarrow> bool \<Rightarrow> string \<Rightarrow> string" where
  "squash_loop r in_indent [] = r"
| "squash_loop r in_indent (c # cs) =
     (if (c = CHR '' '' \<or> c = CHR 0x09 \<or> c = newline) \<and> in_indent then squash_loop r in_indent cs
      else if c = newline then squash_loop (if ends_with r '' '' then r else r @ '' '') True cs
      else squash_loop (r @ [c]) False cs)"

definition squash_lines :: "string \<Rightarrow> string" where
  "squash_lines s = (if newline \<in> set s then squash_loop [] False s else s)"

definition original_text :: "mutant \<Rightarrow> string option" where
  "original_text m =
     extract_indexed (mu_span m) (sf_code (mu_source_file m)) (sf_line_index (mu_source_file m))"

definition in_function_part :: "mutant \<Rightarrow> (part_style \<times> string) list" where
  "in_function_part m =
     (if mu_genre m = FnValue then []
      else (case mu_function m of
              None \<Rightarrow> []
            | Some f \<Rightarrow> [(Plain, '' in ''), (BrightMagenta, fi_name f)]))"

definition describe_parts :: "mutant \<Rightarrow> (part_style \<times> string) list option" where
  "describe_parts m =
     map_option (\<lambda>ps. ps @ in_function_part m)
       (case mu_genre m of
          FnValue \<Rightarrow>
            (case mu_function m of
               None \<Rightarrow> None
             | Some f \<Rightarrow> Some ([(Plain, ''replace ''), (BrightMagenta, fi_name f)]
                 @ (if fi_return_type f \<noteq> [] then [(Plain, '' ''), (Magenta, fi_return_type f)] else [])
                 @ [(Plain, '' with ''), (Yellow, mu_replacement m)]))
        | MatchArmGuard \<Rightarrow>
            map_option (\<lambda>original. [(Plain, ''replace match guard ''), (Yellow, squash_lines original),
                                 (Plain, '' with ''), (Yellow, mu_replacement m)]) (original_text m)
        | MatchArm \<Rightarrow>
            map_option (\<lambda>sr. [(Plain, ''delete match arm ''), (Yellow, squash_lines sr)])
              (mu_short_replaced m)
        | StructField \<Rightarrow>
            (case mu_target m of
               Some (StructLiteralField field strct) \<Rightarrow>
                 Some [(Plain, ''delete field ''), (Yellow, field), (Plain, '' from struct ''),
                       (Yellow, strct), (Plain, '' expression'')]
             | None \<Rightarrow> Some [(Plain, ''delete field from struct expression'')])
        | _ \<Rightarrow>
            map_option (\<lambda>original.
                (if mu_replacement m = [] then [(Plain, ''delete '')] else [(Plain, ''replace '')])
                @ [(Yellow, original)]
                @ (if mu_replacement m \<noteq> []
                   then [(Plain, '' with ''), (BrightYellow, mu_replacement m)] else []))
              (original_text m))"

definition describe_change :: "mutant \<Rightarrow> string option" where
  "describe_change m = map_option (\<lambda>ps. concat (map snd ps)) (describe_parts m)"

definition full_name :: "mutant \<Rightarrow> string option" where
  "full_name m = map_option (\<lambda>d. sf_slash_path (mu_source_file m) @ '':''
       @ show_nat (lc_line (sp_start (mu_span m))) @ '':''
       @ show_nat (lc_column (sp_start (mu_span m))) @ '': '' @ d) (describe_change m)"

definition write_name :: "mutant \<Rightarrow> bool \<Rightarrow> string \<Rightarrow> string option" where
  "write_name m show_line_col out =
     (if show_line_col then map_option (\<lambda>n. out @ n) (full_name m)
      else map_option (\<lambda>d. out @ sf_slash_path (mu_source_file m) @ '': '' @ d) (describe_change m))"

definition name_of :: "mutant \<Rightarrow> bool \<Rightarrow> string option" where
  "name_of m show_line_col = write_name m show_line_col []"

text \<open>The terminal library that turns a styled part into text is the parameter \<open>paint\<close>.\<close>

definition to_styled_string :: "(part_style \<Rightarrow> string \<Rightarrow> string) \<Rightarrow> mutant \<Rightarrow> bool \<Rightarrow> string option" where
  "to_styled_string paint m show_line_col =
     map_option (\<lambda>ps. concat (
         [sf_slash_path (mu_source_file m)]
         @ (if show_line_col
            then ['':'' @ show_nat (lc_line (sp_start (mu_span m))) @ '':''
                  @ show_nat (lc_column (sp_start (mu_span m)))] else [])
         @ ['': ''] @ map (\<lambda>(st, t). paint st t) ps)) (describe_parts m)"

subsection \<open>The mutated text and its diff\<close>

definition replacement_with_marker :: "mutant \<Rightarrow> string" where
  "replacement_with_marker m = mu_replacement m @ '' '' @ MUTATION_MARKER_COMMENT"

definition mutated_code :: "mutant \<Rightarrow> string option" where
  "mutated_code m =
     replace_indexed (mu_span m) (sf_code (mu_source_file m)) (sf_line_index (mu_source_file m))
       (replacement_with_marker m)"

text \<open>
  \<open>diff\<close>: the window of the file that is compared, with the number of the line it starts at.  The
  diff library itself is the parameter \<open>unified\<close>; \<^const>\<open>None\<close> in the window is the fall-back to
  the whole file.
\<close>

record diff_window =
  dw_lo :: nat
  dw_hi :: nat
  dw_first_line :: nat
  dw_old :: string
  dw_new :: string

definition first_diff_line :: "mutant \<Rightarrow> nat" where
  "first_diff_line m = max (lc_line (sp_start (mu_span m)) - DIFF_CONTEXT_LINES) 1"

definition window_lo :: "mutant \<Rightarrow> nat \<Rightarrow> nat option" where
  "window_lo m lo =
     (case line_start (sf_line_index (mu_source_file m)) (first_diff_line m) of
        Some win_lo \<Rightarrow> if win_lo \<le> lo then Some win_lo else None
      | None \<Rightarrow> None)"

definition window_hi :: "mutant \<Rightarrow> nat \<Rightarrow> nat" where
  "window_hi m hi =
     max (case line_start (sf_line_index (mu_source_file m))
                 (lc_line (sp_end (mu_span m)) + DIFF_CONTEXT_LINES + 1) of
            Some h \<Rightarrow> h | None \<Rightarrow> length (sf_code (mu_source_file m))) hi"

definition diff_window_of :: "mutant \<Rightarrow> diff_window option" where
  "diff_window_of m =
     (let orig = sf_code (mu_source_file m) in
      case byte_range (mu_span m) orig (sf_line_index (mu_source_file m)) of
        None \<Rightarrow> None
      | Some (lo, hi) \<Rightarrow>
          (case window_lo m lo of
             None \<Rightarrow> None
           | Some win_lo \<Rightarrow>
               let win_hi = window_hi m hi in
               (case (slice orig win_lo lo, slice orig hi win_hi, slice orig win_lo win_hi) of
                  (Some pre, Some post, Some old) \<Rightarrow>
                    Some \<lparr>dw_lo = win_lo, dw_hi = win_hi, dw_first_line = first_diff_line m,
                          dw_old = old, dw_new = pre @ replacement_with_marker m @ post\<rparr>
                | _ \<Rightarrow> None)))"

subsection \<open>Renumbering hunk headers\<close>

definition shift_hunk_range :: "string \<Rightarrow> nat \<Rightarrow> string option" where
  "shift_hunk_range rng offset =
     (let (start, cnt) = (case split_once CHR '','' rng of
                            Some (a, b) \<Rightarrow> (a, Some b) | None \<Rightarrow> (rng, None)) in
      case parse_usize start of
        None \<Rightarrow> None
      | Some st \<Rightarrow>
          let st' = (if st = 0 then 0 else st + offset) in
          Some (case cnt of Some c \<Rightarrow> show_nat st' @ '','' @ c | None \<Rightarrow> show_nat st'))"

definition renumber_hunk_header :: "string \<Rightarrow> nat \<Rightarrow> string option" where
  "renumber_hunk_header line offset =
     Option.bind (strip_prefix ''@@ -'' line) (\<lambda>rest.
     Option.bind (split_once_str '' +'' rest) (\<lambda>(old, rest').
     Option.bind (split_once_str '' @@'' rest') (\<lambda>(new, tail).
     Option.bind (shift_hunk_range old offset) (\<lambda>old'.
     Option.bind (shift_hunk_range new offset) (\<lambda>new'.
       Some (''@@ -'' @ old' @ '' +'' @ new' @ '' @@'' @ tail))))))"

definition renumber_hunks :: "string \<Rightarrow> nat \<Rightarrow> string" where
  "renumber_hunks diff offset =
     (if offset = 0 then diff
      else concat (map (\<lambda>line. case renumber_hunk_header line offset of
                                 Some h \<Rightarrow> h | None \<Rightarrow> line) (split_inclusive diff)))"

definition diff_of :: "(string \<Rightarrow> string \<Rightarrow> string) \<Rightarrow> mutant \<Rightarrow> string option" where
  "diff_of unified m =
     (case diff_window_of m of
        Some w \<Rightarrow> Some (renumber_hunks (unified (dw_old w) (dw_new w)) (dw_first_line w - 1))
      | None \<Rightarrow> map_option (unified (sf_code (mu_source_file m))) (mutated_code m))"

subsection \<open>Log file names\<close>

definition clean_filename :: "string \<Rightarrow> string" where
  "clean_filename s =
     map (\<lambda>c. if c \<in> set [CHR 0x5C, CHR '' '', CHR '':'', CHR ''<'', CHR ''>'', CHR ''?'',
                         CHR ''*'', CHR ''|'', CHR 0x22]
              then CHR ''_'' else c)
       (replace_char CHR ''/'' ''__'' s)"

definition log_file_name_base :: "mutant \<Rightarrow> string" where
  "log_file_name_base m =
     clean_filename (sf_slash_path (mu_source_file m))
     @ ''_line_'' @ show_nat (lc_line (sp_start (mu_span m)))
     @ ''_col_'' @ show_nat (lc_column (sp_start (mu_span m)))"

subsection \<open>Well-formed mutants\<close>

text \<open>What the discovery of mutants establishes and the descriptions rely on.\<close>

definition mutant_ok :: "mutant \<Rightarrow> bool" where
  "mutant_ok m \<longleftrightarrow> source_ok (mu_source_file m)
     \<and> (mu_genre m = FnValue \<longrightarrow> mu_function m \<noteq> None)
     \<and> (mu_genre m = MatchArm \<longrightarrow> mu_short_replaced m \<noteq> None)"

lemma original_text_total: "mutant_ok m \<Longrightarrow> \<exists>t. original_text m = Some t"
  unfolding mutant_ok_def source_ok_def original_text_def
  by (metis replace_extract)

lemma describe_parts_total:
  assumes "mutant_ok m"
  shows "\<exists>ps. describe_parts m = Some ps"
proof -
  obtain t where "original_text m = Some t" using original_text_total [OF assms] by blast
  with assms show ?thesis
    by (cases "mu_genre m") (auto simp: describe_parts_def mutant_ok_def split: option.splits mutation_target.splits)
qed

lemma styled_plain: "to_styled_string (\<lambda>st t. t) m slc = name_of m slc"
  by (cases "describe_parts m")
    (auto simp: to_styled_string_def name_of_def write_name_def full_name_def describe_change_def comp_def
      case_prod_beta')

lemma name_total: "mutant_ok m \<Longrightarrow> \<exists>n. name_of m slc = Some n"
  using describe_parts_total [of m]
  by (auto simp: name_of_def write_name_def full_name_def describe_change_def)

subsection \<open>Squashing lines\<close>

lemma squash_loop_no_newline: "newline \<notin> set r \<Longrightarrow> newline \<notin> set (squash_loop r i s)"
  by (induction r i s rule: squash_loop.induct) auto

lemma squash_lines_no_newline: "newline \<notin> set (squash_lines s)"
  by (simp add: squash_lines_def squash_loop_no_newline)

definition non_space :: "string \<Rightarrow> string" where
  "non_space s = filter (\<lambda>c. c \<noteq> CHR '' '' \<and> c \<noteq> CHR 0x09 \<and> c \<noteq> newline) s"

lemma squash_loop_keeps: "non_space (squash_loop r i s) = non_space r @ non_space s"
  by (induction r i s rule: squash_loop.induct) (auto simp: non_space_def)

lemma squash_lines_keeps: "non_space (squash_lines s) = non_space s"
  by (simp add: squash_lines_def squash_loop_keeps) (simp add: non_space_def)

subsection \<open>The window holds the change\<close>

lemma line_start_props:
  assumes "utf8 s" "line_start (line_index_new s) l = Some e"
  shows "boundary s e \<and> e \<le> length s"
  using assms line_index_boundary [OF assms(1), of e]
  by (auto simp: line_start_def get_opt_Some split: if_splits)

lemma diff_window_splices:
  assumes ok: "mutant_ok m" and w: "diff_window_of m = Some w"
  shows "sf_code (mu_source_file m)
        = take (dw_lo w) (sf_code (mu_source_file m)) @ dw_old w @ drop (dw_hi w) (sf_code (mu_source_file m))"
    and "mutated_code m
        = Some (take (dw_lo w) (sf_code (mu_source_file m)) @ dw_new w @ drop (dw_hi w) (sf_code (mu_source_file m)))"
proof -
  let ?s = "sf_code (mu_source_file m)"
  have u: "utf8 ?s" and I: "sf_line_index (mu_source_file m) = line_index_new ?s"
    using ok by (auto simp: mutant_ok_def source_ok_def)
  obtain p x q where sp: "?s = p @ x @ q"
    "\<And>r. replace_indexed (mu_span m) ?s (line_index_new ?s) r = Some (p @ r @ q)"
    "byte_range (mu_span m) ?s (line_index_new ?s) = Some (length p, length p + length x)"
    using replace_extract [OF u] by metis
  from w sp(3) I obtain pre post where
    wl: "window_lo m (length p) = Some (dw_lo w)"
    and wh: "dw_hi w = window_hi m (length p + length x)"
    and sl: "slice ?s (dw_lo w) (length p) = Some pre"
      "slice ?s (length p + length x) (dw_hi w) = Some post"
      "slice ?s (dw_lo w) (dw_hi w) = Some (dw_old w)"
    and nw: "dw_new w = pre @ replacement_with_marker m @ post"
    by (auto simp: diff_window_of_def Let_def split: option.splits)
  have le: "dw_lo w \<le> dw_hi w" "dw_hi w \<le> length ?s" using sl(3) by (auto simp: slice_def split: if_splits)
  have old: "dw_old w = take (dw_hi w - dw_lo w) (drop (dw_lo w) ?s)"
    using sl(3) by (auto simp: slice_def split: if_splits)
  show "?s = take (dw_lo w) ?s @ dw_old w @ drop (dw_hi w) ?s"
    unfolding old using le by (metis append_take_drop_id drop_drop le_add_diff_inverse2)
  have pre: "take (dw_lo w) ?s @ pre = p"
  proof -
    have "pre = take (length p - dw_lo w) (drop (dw_lo w) ?s)" "dw_lo w \<le> length p"
      using sl(1) by (auto simp: slice_def split: if_splits)
    then have "take (dw_lo w) ?s @ pre = take (length p) ?s"
      by (metis le_add_diff_inverse take_add)
    then show ?thesis by (simp add: sp(1))
  qed
  have post: "post @ drop (dw_hi w) ?s = q"
  proof -
    have b: "post = take (dw_hi w - (length p + length x)) (drop (length p + length x) ?s)"
      "length p + length x \<le> dw_hi w"
      using sl(2) by (auto simp: slice_def split: if_splits)
    then have "post @ drop (dw_hi w) ?s = drop (length p + length x) ?s"
      by (metis append_take_drop_id drop_drop le_add_diff_inverse2)
    then show ?thesis by (simp add: sp(1))
  qed
  show "mutated_code m = Some (take (dw_lo w) ?s @ dw_new w @ drop (dw_hi w) ?s)"
  proof -
    have a: "take (dw_lo w) ?s @ pre @ z = p @ z" for z using pre by (metis append.assoc)
    show ?thesis using sp(2) by (simp only: mutated_code_def I nw append.assoc a post)
  qed
qed

text \<open>
  A window exists for every span that starts on a line of the file and is in order: the fall-back to
  the whole file is only for inconsistent input.
\<close>

lemma line_start_before:
  assumes u: "utf8 s" and l: "1 \<le> l" "l \<le> lc_line p"
    and ls: "line_start (line_index_new s) l = Some e"
    and r: "byte_offset (line_index_new s) s p = Some a"
  shows "e \<le> a"
proof -
  have "byte_offset (line_index_new s) s \<lparr>lc_line = l, lc_column = 0\<rparr> = Some a'
    \<Longrightarrow> e \<le> a'" for a'
    using byte_offset_in_line [OF u, of "l - 1" e "\<lparr>lc_line = l, lc_column = 0\<rparr>"] ls l
    by (auto simp: line_start_def)
  moreover obtain a' where a': "byte_offset (line_index_new s) s \<lparr>lc_line = l, lc_column = 0\<rparr> = Some a'"
    using byte_offset_total [OF u] by blast
  moreover have "a' \<le> a"
    by (rule byte_offset_mono [OF u _ a' r]) (use l in \<open>auto simp: pos_le_def\<close>)
  ultimately show ?thesis by (meson order_trans)
qed

lemma diff_window_exists:
  assumes ok: "mutant_ok m"
    and line: "1 \<le> lc_line (sp_start (mu_span m))"
      "lc_line (sp_start (mu_span m)) \<le> length (sf_line_index (mu_source_file m))"
  shows "\<exists>w. diff_window_of m = Some w"
proof -
  let ?s = "sf_code (mu_source_file m)" let ?f = "first_diff_line m"
  have u: "utf8 ?s" and I: "sf_line_index (mu_source_file m) = line_index_new ?s"
    using ok by (auto simp: mutant_ok_def source_ok_def)
  obtain lo b where ab: "byte_offset (line_index_new ?s) ?s (sp_start (mu_span m)) = Some lo"
      "byte_offset (line_index_new ?s) ?s (sp_end (mu_span m)) = Some b"
    using byte_offset_total [OF u] by metis
  then have br: "byte_range (mu_span m) ?s (line_index_new ?s) = Some (lo, max b lo)"
    by (simp add: byte_range_def)
  with byte_range_total [OF u, of "mu_span m"]
  have bnd: "boundary ?s lo" "boundary ?s (max b lo)" "max b lo \<le> length ?s" by auto
  have f: "1 \<le> ?f" "?f \<le> lc_line (sp_start (mu_span m))"
    using line by (auto simp: first_diff_line_def)
  then obtain e where e: "line_start (line_index_new ?s) ?f = Some e"
    using line I by (auto simp: line_start_def get_opt_Some)
  have elo: "e \<le> lo" by (rule line_start_before [OF u f e ab(1)])
  note eb = line_start_props [OF u e]
  let ?h = "window_hi m (max b lo)"
  have h: "boundary ?s ?h \<and> ?h \<le> length ?s \<and> max b lo \<le> ?h"
    using bnd line_start_props [OF u] I
    by (auto simp: window_hi_def max_def split: option.splits)
  have "slice ?s e lo \<noteq> None" "slice ?s (max b lo) ?h \<noteq> None" "slice ?s e ?h \<noteq> None"
    using eb elo bnd h by (auto simp: slice_def)
  then show ?thesis
    using br e elo I by (auto simp: diff_window_of_def Let_def window_lo_def split: option.splits)
qed

subsection \<open>Hunk headers\<close>

lemma split_once_str_hit:
  assumes "\<And>i. i < length a \<Longrightarrow> \<not> starts_with (drop i (a @ p @ b)) p" "p \<noteq> []"
  shows "split_once_str p (a @ p @ b) = Some (a, b)"
  using assms(1)
proof (induction a)
  case Nil
  then show ?case by (subst split_once_str.simps) simp
next
  case (Cons c a)
  have "\<not> starts_with ((c # a) @ p @ b) p" using Cons.prems [of 0] by simp
  then have n: "strip_prefix p ((c # a) @ p @ b) = None"
    by (auto simp: strip_prefix_def starts_with_def)
  have "split_once_str p (a @ p @ b) = Some (a, b)"
    using Cons.prems [of "Suc _"] by (intro Cons.IH) auto
  with n show ?case by (subst split_once_str.simps) simp
qed

lemma split_once_str_first:
  assumes "hd p \<notin> set a" "p \<noteq> []"
  shows "split_once_str p (a @ p @ b) = Some (a, b)"
proof (rule split_once_str_hit [OF _ assms(2)])
  fix i assume i: "i < length a"
  then have "hd (drop i (a @ p @ b)) = a ! i" "drop i (a @ p @ b) \<noteq> []"
    by (simp_all add: hd_drop_conv_nth nth_append)
  moreover have "a ! i \<noteq> hd p" using assms(1) i by (metis nth_mem)
  ultimately show "\<not> starts_with (drop i (a @ p @ b)) p"
    using assms(2) by (metis hd_append2 append_take_drop_id starts_with_def)
qed

definition hunk_header :: "nat \<Rightarrow> nat \<Rightarrow> nat \<Rightarrow> nat \<Rightarrow> string \<Rightarrow> string" where
  "hunk_header a b c d tail =
     ''@@ -'' @ (show_nat a @ '','' @ show_nat b) @ '' +'' @ (show_nat c @ '','' @ show_nat d)
     @ '' @@'' @ tail"

lemma shift_hunk_range_show:
  "a < 2 ^ 64 \<Longrightarrow> shift_hunk_range (show_nat a @ '','' @ cnt) offset
    = Some (show_nat (if a = 0 then 0 else a + offset) @ '','' @ cnt)"
  by (simp add: shift_hunk_range_def)

lemma renumber_header:
  assumes "a < 2 ^ 64" "c < 2 ^ 64"
  shows "renumber_hunk_header (hunk_header a b c d tail) offset
    = Some (hunk_header (if a = 0 then 0 else a + offset) b (if c = 0 then 0 else c + offset) d tail)"
proof -
  have s: "CHR '' '' \<notin> set (show_nat x @ '','' @ show_nat y)" for x y by simp
  have 1: "split_once_str '' +'' ((show_nat a @ '','' @ show_nat b) @ '' +'' @ r)
      = Some (show_nat a @ '','' @ show_nat b, r)" for r
    by (rule split_once_str_first) (use s in auto)
  have 2: "split_once_str '' @@'' ((show_nat c @ '','' @ show_nat d) @ '' @@'' @ tail)
      = Some (show_nat c @ '','' @ show_nat d, tail)"
    by (rule split_once_str_first) (use s in auto)
  show ?thesis
    unfolding renumber_hunk_header_def hunk_header_def strip_prefix_append Option.bind.simps
      1 2 case_prod_conv shift_hunk_range_show [OF assms(1)] shift_hunk_range_show [OF assms(2)]
    by (rule refl)
qed

lemma renumber_not_header: "strip_prefix ''@@ -'' line = None \<Longrightarrow> renumber_hunk_header line offset = None"
  by (simp add: renumber_hunk_header_def)

subsection \<open>Properties\<close>

text \<open>A file of one function and a mutant of its return value, for the examples.\<close>

definition example_source :: source_file where
  "example_source =
     \<lparr>sf_package = example_package, sf_tree_relative_path = ''src/lib.rs'',
      sf_code = ''fn f() {'' @ [newline] @ ''1 }'', sf_is_top = True,
      sf_line_index = line_index_new (''fn f() {'' @ [newline] @ ''1 }''), sf_slash_path = ''src/lib.rs''\<rparr>"

definition example_mutant :: mutant where
  "example_mutant = new_discovered example_source
     (Some \<lparr>fi_name = ''f'', fi_return_type = [], fi_span = quad 1 1 2 4\<rparr>) (quad 2 1 2 2) None ''()'' FnValue None False"

lemma example_mutant_ok: "mutant_ok example_mutant"
  by (simp add: mutant_ok_def source_ok_def example_mutant_def new_discovered_def example_source_def
      utf8_def lead_len_def ascent_def components_def is_absolute_def starts_with_def to_slash_path_def)

lemma example_mutant_position:
  "lc_line (sp_start (mu_span example_mutant)) = 2"
  "length (sf_line_index (mu_source_file example_mutant)) = 2"
  by (simp_all add: example_mutant_def new_discovered_def example_source_def quad_def line_index_new_def)

lemma mutant_names_agree_example:
  "full_name example_mutant = Some ''src/lib.rs:2:1: replace f with ()''"
  by (simp add: full_name_def describe_change_def describe_parts_def in_function_part_def
      example_mutant_def new_discovered_def example_source_def quad_def show_nat_eval)

text \<open>Every mutant that discovery builds can be described: the description is the concatenation of
  the unstyled parts, the full name is the location followed by it, and the styled text without
  styles is the name.\<close>

theorem mutant_names_agree:
  assumes "mutant_ok m"
  shows "\<exists>d. describe_change m = Some d
    \<and> name_of m True = Some (format_source_location (mu_source_file m) (sp_start (mu_span m)) @ '': '' @ d)
    \<and> name_of m False = Some (sf_slash_path (mu_source_file m) @ '': '' @ d)
    \<and> (\<forall>b. to_styled_string (\<lambda>st t. t) m b = name_of m b)"
proof -
  obtain ps where "describe_parts m = Some ps" using describe_parts_total [OF assms] by blast
  then show ?thesis
    by (auto simp: styled_plain)
      (auto simp: describe_change_def name_of_def write_name_def full_name_def format_source_location_def)
qed

lemma mutant_names_agree_witness:
  "describe_change example_mutant = Some ''replace f with ()''
    \<and> name_of example_mutant True = Some ''src/lib.rs:2:1: replace f with ()''"
proof -
  have d: "describe_change example_mutant = Some ''replace f with ()''"
    by (simp add: describe_change_def describe_parts_def in_function_part_def example_mutant_def new_discovered_def)
  have f: "format_source_location (mu_source_file example_mutant) (sp_start (mu_span example_mutant))
      = ''src/lib.rs:2:1''"
    by (simp add: format_source_location_def example_mutant_def new_discovered_def example_source_def
        quad_def show_nat_eval)
  show ?thesis using mutant_names_agree [OF example_mutant_ok] d f by auto
qed

text \<open>Squashing a multi-line text gives one line and loses nothing but white space.\<close>

theorem squash_lines_one_line:
  "newline \<notin> set (squash_lines s) \<and> non_space (squash_lines s) = non_space s
    \<and> (newline \<notin> set s \<longrightarrow> squash_lines s = s)"
  by (simp add: squash_lines_no_newline squash_lines_keeps) (simp add: squash_lines_def)

lemma squash_lines_one_line_witness:
  "non_space (squash_lines (''a'' @ [newline] @ ''  b'')) = ''ab''"
  using squash_lines_one_line [of "''a'' @ [newline] @ ''  b''"] by (simp add: non_space_def)



text \<open>Renumbering moves both starting lines of a hunk header by the offset, a zero start staying
  zero, and leaves the counts, the tail and every line that is no header as they are.\<close>

theorem renumber_moves_headers:
  assumes "a < 2 ^ 64" "c < 2 ^ 64"
  shows "renumber_hunk_header (hunk_header a b c d tail) offset
      = Some (hunk_header (if a = 0 then 0 else a + offset) b (if c = 0 then 0 else c + offset) d tail)
    \<and> (strip_prefix ''@@ -'' line = None \<longrightarrow> renumber_hunk_header line offset = None)
    \<and> renumber_hunks diff 0 = diff"
  using renumber_header [OF assms] renumber_not_header by (simp add: renumber_hunks_def)

lemma renumber_moves_headers_witness:
  "renumber_hunk_header (hunk_header 1 3 0 0 []) 7 = Some (hunk_header 8 3 0 0 [])"
  using renumber_moves_headers [of 1 0 3 0 "[]" 7] by simp

end
