(* ===== verification/Outcomes.thy ===== *)
theory Outcomes
  imports Mutants
begin

text \<open>
  Scenarios and their outcomes: \<open>src/src/scenario.rs\<close>, \<open>src/src/outcome.rs\<close>,
  \<open>src/src/exit_code.rs\<close> and the \<open>Exit\<close> status of \<open>src/src/process.rs\<close>: how the results of the
  phases of a scenario become a summary, how the lab counts summaries, and which exit code the
  program ends with.
\<close>

subsection \<open>How a process ended\<close>

datatype exit_status = ExitSuccess | ExitFailure int | ExitTimeout | ExitSignalled int | ExitOther

definition is_success :: "exit_status \<Rightarrow> bool" where
  "is_success e \<longleftrightarrow> e = ExitSuccess"

definition is_timeout :: "exit_status \<Rightarrow> bool" where
  "is_timeout e \<longleftrightarrow> e = ExitTimeout"

definition is_failure :: "exit_status \<Rightarrow> bool" where
  "is_failure e \<longleftrightarrow> (case e of ExitFailure _ \<Rightarrow> True | _ \<Rightarrow> False)"

text \<open>\<open>From<ExitStatus> for Exit\<close> on Unix: the exit code if there is one, else the signal.\<close>

definition exit_from_status :: "int option \<Rightarrow> int option \<Rightarrow> exit_status" where
  "exit_from_status code signal =
     (case code of
        Some c \<Rightarrow> if c = 0 then ExitSuccess else ExitFailure c
      | None \<Rightarrow> (case signal of Some sg \<Rightarrow> ExitSignalled sg | None \<Rightarrow> ExitOther))"

lemmas exit_simps [simp] = is_success_def is_timeout_def is_failure_def

subsection \<open>Phases and scenarios\<close>

datatype phase = Check | Build | Test

definition phase_name :: "phase \<Rightarrow> string" where
  "phase_name p = (case p of Check \<Rightarrow> ''check'' | Build \<Rightarrow> ''build'' | Test \<Rightarrow> ''test'')"

datatype scenario = Baseline | MutantScenario mutant

definition is_mutant :: "scenario \<Rightarrow> bool" where
  "is_mutant s = (case s of MutantScenario _ \<Rightarrow> True | Baseline \<Rightarrow> False)"

definition scenario_mutant :: "scenario \<Rightarrow> mutant option" where
  "scenario_mutant s = (case s of Baseline \<Rightarrow> None | MutantScenario m \<Rightarrow> Some m)"

definition show_scenario :: "scenario \<Rightarrow> string option" where
  "show_scenario s = (case s of Baseline \<Rightarrow> Some ''baseline'' | MutantScenario m \<Rightarrow> name_of m True)"

text \<open>A \<open>Duration\<close> is a number of nanoseconds.\<close>

type_synonym duration = nat

record phase_result =
  pr_phase :: phase
  pr_duration :: duration
  pr_status :: exit_status
  pr_argv :: "string list"

definition pr_is_success :: "phase_result \<Rightarrow> bool" where
  "pr_is_success pr = is_success (pr_status pr)"

datatype skip_reason = SkipEquivalent | SkipUncovered

record scenario_outcome =
  so_output_dir :: path
  so_log_path :: path
  so_diff_path :: "path option"
  so_scenario :: scenario
  so_phase_results :: "phase_result list"
  so_skip_reason :: "skip_reason option"

definition new_outcome :: "path \<Rightarrow> path \<Rightarrow> path option \<Rightarrow> scenario \<Rightarrow> scenario_outcome" where
  "new_outcome dir log diff s =
     \<lparr>so_output_dir = dir, so_log_path = log, so_diff_path = diff, so_scenario = s,
      so_phase_results = [], so_skip_reason = None\<rparr>"

definition set_skip_reason :: "skip_reason \<Rightarrow> scenario_outcome \<Rightarrow> scenario_outcome" where
  "set_skip_reason r o' = o'\<lparr>so_skip_reason := Some r\<rparr>"

definition add_phase_result :: "phase_result \<Rightarrow> scenario_outcome \<Rightarrow> scenario_outcome" where
  "add_phase_result pr o' = o'\<lparr>so_phase_results := so_phase_results o' @ [pr]\<rparr>"

definition last_phase :: "scenario_outcome \<Rightarrow> phase option" where
  "last_phase o' = map_option pr_phase (last_opt (so_phase_results o'))"

definition last_phase_result :: "scenario_outcome \<Rightarrow> exit_status option" where
  "last_phase_result o' = map_option pr_status (last_opt (so_phase_results o'))"

definition phase_result_of :: "scenario_outcome \<Rightarrow> phase \<Rightarrow> phase_result option" where
  "phase_result_of o' p = find (\<lambda>pr. pr_phase pr = p) (so_phase_results o')"

text \<open>\<open>Option::is_some_and\<close>.\<close>

definition is_some_and :: "'a option \<Rightarrow> ('a \<Rightarrow> bool) \<Rightarrow> bool" where
  "is_some_and x P = (case x of None \<Rightarrow> False | Some a \<Rightarrow> P a)"

definition success :: "scenario_outcome \<Rightarrow> bool" where
  "success o' = is_some_and (last_phase_result o') is_success"

definition should_show_logs :: "scenario_outcome \<Rightarrow> bool" where
  "should_show_logs o' \<longleftrightarrow> \<not> is_mutant (so_scenario o') \<and> \<not> success o'"

definition has_timeout :: "scenario_outcome \<Rightarrow> bool" where
  "has_timeout o' = list_ex (\<lambda>pr. is_timeout (pr_status pr)) (so_phase_results o')"

definition check_or_build_failed :: "scenario_outcome \<Rightarrow> bool" where
  "check_or_build_failed o' =
     list_ex (\<lambda>pr. pr_phase pr \<noteq> Test \<and> is_failure (pr_status pr)) (so_phase_results o')"

definition mutant_caught :: "scenario_outcome \<Rightarrow> bool" where
  "mutant_caught o' \<longleftrightarrow> is_mutant (so_scenario o') \<and> last_phase o' = Some Test
     \<and> is_some_and (last_phase_result o') is_failure"

definition mutant_missed :: "scenario_outcome \<Rightarrow> bool" where
  "mutant_missed o' \<longleftrightarrow> is_mutant (so_scenario o') \<and> last_phase o' = Some Test
     \<and> is_some_and (last_phase_result o') is_success"

datatype summary_outcome =
    Success | CaughtMutant | MissedMutant | Unviable | Failure | Timeout | Equivalent | Uncovered

definition summary :: "scenario_outcome \<Rightarrow> summary_outcome" where
  "summary o' =
     (case so_skip_reason o' of
        Some SkipEquivalent \<Rightarrow> Equivalent
      | Some SkipUncovered \<Rightarrow> Uncovered
      | None \<Rightarrow>
          (case so_scenario o' of
             Baseline \<Rightarrow>
               if has_timeout o' then Timeout
               else if success o' then Success
               else Failure
           | MutantScenario _ \<Rightarrow>
               if check_or_build_failed o' then Unviable
               else if has_timeout o' then Timeout
               else if mutant_caught o' then CaughtMutant
               else if mutant_missed o' then MissedMutant
               else if success o' then Success
               else Failure))"

subsection \<open>The whole lab\<close>

record lab_outcome =
  lo_outcomes :: "scenario_outcome list"
  lo_total_mutants :: nat
  lo_missed :: nat
  lo_caught :: nat
  lo_timeout :: nat
  lo_unviable :: nat
  lo_success :: nat
  lo_equivalent :: nat
  lo_uncovered :: nat
  lo_end_time :: "nat option"

definition new_lab_outcome :: lab_outcome where
  "new_lab_outcome =
     \<lparr>lo_outcomes = [], lo_total_mutants = 0, lo_missed = 0, lo_caught = 0, lo_timeout = 0,
      lo_unviable = 0, lo_success = 0, lo_equivalent = 0, lo_uncovered = 0, lo_end_time = None\<rparr>"

definition count_summary :: "summary_outcome \<Rightarrow> lab_outcome \<Rightarrow> lab_outcome" where
  "count_summary s lo =
     (case s of
        CaughtMutant \<Rightarrow> lo\<lparr>lo_caught := lo_caught lo + 1\<rparr>
      | MissedMutant \<Rightarrow> lo\<lparr>lo_missed := lo_missed lo + 1\<rparr>
      | Timeout \<Rightarrow> lo\<lparr>lo_timeout := lo_timeout lo + 1\<rparr>
      | Unviable \<Rightarrow> lo\<lparr>lo_unviable := lo_unviable lo + 1\<rparr>
      | Success \<Rightarrow> lo\<lparr>lo_success := lo_success lo + 1\<rparr>
      | Equivalent \<Rightarrow> lo\<lparr>lo_equivalent := lo_equivalent lo + 1\<rparr>
      | Uncovered \<Rightarrow> lo\<lparr>lo_uncovered := lo_uncovered lo + 1\<rparr>
      | Failure \<Rightarrow> lo)"

definition add_outcome :: "scenario_outcome \<Rightarrow> lab_outcome \<Rightarrow> lab_outcome" where
  "add_outcome o' lo =
     (let lo' = (if is_mutant (so_scenario o')
                 then count_summary (summary o') (lo\<lparr>lo_total_mutants := lo_total_mutants lo + 1\<rparr>)
                 else lo)
      in lo'\<lparr>lo_outcomes := lo_outcomes lo' @ [o']\<rparr>)"

datatype exit_code =
    ECSuccess | ECUsage | ECFoundProblems | ECTimeout | ECBaselineFailed
  | ECFilterDiffMismatch | ECFilterDiffInvalid | ECSoftware

definition exit_code_value :: "exit_code \<Rightarrow> nat" where
  "exit_code_value c =
     (case c of ECSuccess \<Rightarrow> 0 | ECUsage \<Rightarrow> 1 | ECFoundProblems \<Rightarrow> 2 | ECTimeout \<Rightarrow> 3
      | ECBaselineFailed \<Rightarrow> 4 | ECFilterDiffMismatch \<Rightarrow> 5 | ECFilterDiffInvalid \<Rightarrow> 6 | ECSoftware \<Rightarrow> 70)"

definition lab_exit_code :: "lab_outcome \<Rightarrow> exit_code" where
  "lab_exit_code lo =
     (if list_ex (\<lambda>o'. \<not> is_mutant (so_scenario o') \<and> \<not> success o') (lo_outcomes lo) then ECBaselineFailed
      else if 0 < lo_timeout lo then ECTimeout
      else if 0 < lo_missed lo \<or> 0 < lo_uncovered lo then ECFoundProblems
      else ECSuccess)"

subsection \<open>Classification\<close>

lemma is_some_and_simps [simp]: "is_some_and None P = False" "is_some_and (Some a) P = P a"
  by (simp_all add: is_some_and_def)

lemma is_mutant_simps [simp]: "\<not> is_mutant Baseline" "is_mutant (MutantScenario m)"
  by (simp_all add: is_mutant_def)

text \<open>
  The shape every run of a scenario leaves: its phases ran in the order \<open>ps\<close>, and each but the
  last succeeded.
\<close>

definition phases_ran :: "phase list \<Rightarrow> phase_result list \<Rightarrow> bool" where
  "phases_ran ps rs \<longleftrightarrow> prefix (map pr_phase rs) ps \<and> list_all pr_is_success (butlast rs)"

lemma classify_build_test:
  assumes "phases_ran [Build, Test] rs" "rs \<noteq> []"
  shows "(\<exists>b. rs = [b] \<and> pr_phase b = Build) \<or>
    (\<exists>b t. rs = [b, t] \<and> pr_phase b = Build \<and> pr_status b = ExitSuccess \<and> pr_phase t = Test)"
proof -
  have "length rs \<le> 2" using assms by (auto simp: phases_ran_def dest: prefix_length_le)
  with assms(2) consider b where "rs = [b]" | b t where "rs = [b, t]"
    by (cases rs; cases "tl rs"; cases "tl (tl rs)") auto
  then show ?thesis using assms by cases (auto simp: phases_ran_def pr_is_success_def)
qed

lemma summary_mutant_table:
  assumes sk: "so_skip_reason o' = None" and mu: "is_mutant (so_scenario o')"
    and ran: "phases_ran [Build, Test] (so_phase_results o')"
    and ne: "so_phase_results o' \<noteq> []"
  shows "summary o' =
    (let r = last (so_phase_results o') in
     case pr_status r of
       ExitTimeout \<Rightarrow> Timeout
     | ExitFailure _ \<Rightarrow> if pr_phase r = Test then CaughtMutant else Unviable
     | ExitSuccess \<Rightarrow> if pr_phase r = Test then MissedMutant else Success
     | _ \<Rightarrow> Failure)"
proof -
  obtain m where m: "so_scenario o' = MutantScenario m"
    using mu by (cases "so_scenario o'") auto
  from classify_build_test [OF ran ne] show ?thesis
    by (elim disjE exE conjE)
      (auto simp: summary_def sk m has_timeout_def check_or_build_failed_def mutant_caught_def
        mutant_missed_def success_def last_phase_def last_phase_result_def last_opt_def Let_def
        split: exit_status.splits)
qed

text \<open>With \<open>--check\<close> there is only the check phase.\<close>

lemma summary_check_table:
  assumes "so_skip_reason o' = None" "is_mutant (so_scenario o')"
    and "so_phase_results o' = [r]" "pr_phase r = Check"
  shows "summary o' =
    (case pr_status r of ExitTimeout \<Rightarrow> Timeout | ExitFailure _ \<Rightarrow> Unviable
     | ExitSuccess \<Rightarrow> Success | _ \<Rightarrow> Failure)"
proof -
  obtain m where "so_scenario o' = MutantScenario m"
    using assms(2) by (cases "so_scenario o'") auto
  with assms show ?thesis
    by (auto simp: summary_def has_timeout_def check_or_build_failed_def mutant_caught_def
        mutant_missed_def success_def last_phase_def last_phase_result_def last_opt_def
        split: exit_status.splits)
qed

lemma summary_table:
  assumes "so_skip_reason o' = None" "is_mutant (so_scenario o')"
    and "phases_ran [Build, Test] (so_phase_results o') \<or> phases_ran [Check] (so_phase_results o')"
    and "so_phase_results o' \<noteq> []"
  shows "summary o' =
    (let r = last (so_phase_results o') in
     case pr_status r of
       ExitTimeout \<Rightarrow> Timeout
     | ExitFailure _ \<Rightarrow> if pr_phase r = Test then CaughtMutant else Unviable
     | ExitSuccess \<Rightarrow> if pr_phase r = Test then MissedMutant else Success
     | _ \<Rightarrow> Failure)"
proof (cases "phases_ran [Build, Test] (so_phase_results o')")
  case True
  show ?thesis by (rule summary_mutant_table [OF assms(1,2) True assms(4)])
next
  case False
  with assms(3,4) obtain r where "so_phase_results o' = [r]" "pr_phase r = Check"
    by (cases "so_phase_results o'") (auto simp: phases_ran_def)
  with summary_check_table [OF assms(1,2)] show ?thesis
    by (auto simp: Let_def split: exit_status.splits)
qed

subsection \<open>Counting\<close>

definition n_summary :: "summary_outcome \<Rightarrow> scenario_outcome list \<Rightarrow> nat" where
  "n_summary s os = length (filter (\<lambda>o'. is_mutant (so_scenario o') \<and> summary o' = s) os)"

definition lab_inv :: "lab_outcome \<Rightarrow> bool" where
  "lab_inv lo \<longleftrightarrow>
     lo_total_mutants lo = length (filter (\<lambda>o'. is_mutant (so_scenario o')) (lo_outcomes lo))
     \<and> lo_missed lo = n_summary MissedMutant (lo_outcomes lo)
     \<and> lo_caught lo = n_summary CaughtMutant (lo_outcomes lo)
     \<and> lo_timeout lo = n_summary Timeout (lo_outcomes lo)
     \<and> lo_unviable lo = n_summary Unviable (lo_outcomes lo)
     \<and> lo_success lo = n_summary Success (lo_outcomes lo)
     \<and> lo_equivalent lo = n_summary Equivalent (lo_outcomes lo)
     \<and> lo_uncovered lo = n_summary Uncovered (lo_outcomes lo)"

lemma lab_inv_new: "lab_inv new_lab_outcome"
  by (simp add: lab_inv_def new_lab_outcome_def n_summary_def)

lemma lab_inv_add: "lab_inv lo \<Longrightarrow> lab_inv (add_outcome o' lo)"
  by (cases "summary o'")
    (auto simp: lab_inv_def add_outcome_def count_summary_def n_summary_def Let_def)

lemma add_outcome_outcomes [frame_simps]: "lo_outcomes (add_outcome o' lo) = lo_outcomes lo @ [o']"
  by (cases "summary o'") (auto simp: add_outcome_def count_summary_def Let_def)

lemma lab_inv_fold: "lab_inv (fold add_outcome os new_lab_outcome)"
proof -
  have "lab_inv lo \<Longrightarrow> lab_inv (fold add_outcome os lo)" for lo
    by (induction os arbitrary: lo) (auto intro: lab_inv_add)
  then show ?thesis using lab_inv_new by blast
qed

lemma outcomes_fold: "lo_outcomes (fold add_outcome os lo) = lo_outcomes lo @ os"
  by (induction os arbitrary: lo) (auto simp: frame_simps)

lemma total_by_summary:
  "length (filter (\<lambda>o'. is_mutant (so_scenario o')) os)
    = n_summary MissedMutant os + n_summary CaughtMutant os + n_summary Timeout os
      + n_summary Unviable os + n_summary Success os + n_summary Equivalent os
      + n_summary Uncovered os + n_summary Failure os"
proof (induction os)
  case (Cons a os)
  then show ?case by (cases "summary a") (auto simp: n_summary_def)
qed (simp add: n_summary_def)

lemma n_summary_pos: "0 < n_summary s os \<longleftrightarrow> (\<exists>o'\<in>set os. is_mutant (so_scenario o') \<and> summary o' = s)"
  by (auto simp: n_summary_def filter_empty_conv)

lemma lab_exit_code_spec:
  assumes "lab_inv lo"
  shows "lab_exit_code lo =
    (if \<exists>o'\<in>set (lo_outcomes lo). so_scenario o' = Baseline \<and> \<not> success o' then ECBaselineFailed
     else if \<exists>o'\<in>set (lo_outcomes lo). is_mutant (so_scenario o') \<and> summary o' = Timeout then ECTimeout
     else if \<exists>o'\<in>set (lo_outcomes lo). is_mutant (so_scenario o')
               \<and> summary o' \<in> {MissedMutant, Uncovered} then ECFoundProblems
     else ECSuccess)"
proof -
  have b: "(\<not> is_mutant s) = (s = Baseline)" for s by (cases s) auto
  have base: "list_ex (\<lambda>o'. \<not> is_mutant (so_scenario o') \<and> \<not> success o') (lo_outcomes lo)
    \<longleftrightarrow> (\<exists>o'\<in>set (lo_outcomes lo). so_scenario o' = Baseline \<and> \<not> success o')"
    by (simp add: list_ex_iff b)
  show ?thesis
    using assms unfolding lab_exit_code_def base by (auto simp: lab_inv_def n_summary_pos)
qed

subsection \<open>Properties\<close>

definition example_run :: "phase_result list \<Rightarrow> scenario_outcome" where
  "example_run rs = (new_outcome ''mutants.out'' ''log'' None (MutantScenario example_mutant))
     \<lparr>so_phase_results := rs\<rparr>"

definition example_phase :: "phase \<Rightarrow> exit_status \<Rightarrow> phase_result" where
  "example_phase p st = \<lparr>pr_phase = p, pr_duration = 1, pr_status = st, pr_argv = [''cargo'']\<rparr>"

text \<open>C11: The summary of a mutant that was built and tested, or only checked, as a table of its last
  phase: a failing test catches it, a passing one misses it, a failing build or check makes it
  unviable, a timeout of any phase is a timeout.\<close>

theorem summary_of_mutant_run:
  assumes "so_skip_reason o' = None" "is_mutant (so_scenario o')"
    and "phases_ran [Build, Test] (so_phase_results o') \<or> phases_ran [Check] (so_phase_results o')"
    and "so_phase_results o' \<noteq> []"
  shows "summary o' =
    (let r = last (so_phase_results o') in
     case pr_status r of
       ExitTimeout \<Rightarrow> Timeout
     | ExitFailure _ \<Rightarrow> if pr_phase r = Test then CaughtMutant else Unviable
     | ExitSuccess \<Rightarrow> if pr_phase r = Test then MissedMutant else Success
     | _ \<Rightarrow> Failure)"
  by (rule summary_table [OF assms])

lemma summary_of_mutant_run_witness:
  "summary (example_run [example_phase Build ExitSuccess, example_phase Test (ExitFailure 101)]) = CaughtMutant
    \<and> summary (example_run [example_phase Check (ExitFailure 101)]) = Unviable"
proof -
  let ?a = "example_run [example_phase Build ExitSuccess, example_phase Test (ExitFailure 101)]"
  let ?b = "example_run [example_phase Check (ExitFailure 101)]"
  show ?thesis
    using summary_of_mutant_run [of ?a] summary_of_mutant_run [of ?b]
    by (simp add: example_run_def example_phase_def new_outcome_def phases_ran_def pr_is_success_def)
qed


text \<open>C10: The exit code depends only on the outcomes: a baseline that did not pass wins, then any
  mutant that timed out, then any that was missed or is not covered; otherwise it is zero.  In
  particular a mutant whose test died from a signal does not show in it.\<close>

theorem exit_code_reflects_outcomes:
  "exit_code_value (lab_exit_code (fold add_outcome os new_lab_outcome)) =
    (if \<exists>o'\<in>set os. so_scenario o' = Baseline \<and> \<not> success o' then 4
     else if \<exists>o'\<in>set os. is_mutant (so_scenario o') \<and> summary o' = Timeout then 3
     else if \<exists>o'\<in>set os. is_mutant (so_scenario o') \<and> summary o' \<in> {MissedMutant, Uncovered} then 2
     else 0)"
proof -
  have "lo_outcomes (fold add_outcome os new_lab_outcome) = os"
    using outcomes_fold [of os new_lab_outcome] by (simp add: new_lab_outcome_def)
  then show ?thesis
    by (simp add: lab_exit_code_spec [OF lab_inv_fold] exit_code_value_def)
qed

lemma exit_code_reflects_outcomes_witness:
  "exit_code_value (lab_exit_code (fold add_outcome
      [example_run [example_phase Build ExitSuccess, example_phase Test (ExitSignalled 9)]] new_lab_outcome)) = 0"
  unfolding exit_code_reflects_outcomes
  by (simp add: example_run_def example_phase_def new_outcome_def summary_def check_or_build_failed_def
      has_timeout_def mutant_caught_def mutant_missed_def success_def last_phase_def last_phase_result_def
      last_opt_def)

end
