(* ===== verification/InDiff.thy ===== *)
theory InDiff
  imports Outcomes
begin

text \<open>
  Filtering mutants by a diff (\<open>src/src/in_diff.rs\<close>).  Parsing the text of a diff is the work of
  another library: \<open>parse\<close> gives its patches, or the message of a parse error.  \<open>dbg\<close> is the
  \<open>Debug\<close> form of a string, used in one message only.  The assertions of debug builds are not
  part of the functions; that they hold is proved.
\<close>

subsection \<open>Patches\<close>

datatype diff_line = DContext string | DInsert string | DDelete string

record hunk =
  hk_new_start :: nat
  hk_new_end :: nat
  hk_lines :: "diff_line list"

record patch =
  pt_modified :: "string option"
  pt_hunks :: "hunk list"

datatype diff_filter_error =
    EmptyDiff | MismatchedDiff string | NoMutants | NoSourceFiles | InvalidDiff string | FileUnreadable string

definition error_exit_code :: "diff_filter_error \<Rightarrow> exit_code" where
  "error_exit_code e =
     (case e of
        EmptyDiff \<Rightarrow> ECSuccess | NoSourceFiles \<Rightarrow> ECSuccess | NoMutants \<Rightarrow> ECSuccess
      | MismatchedDiff _ \<Rightarrow> ECFilterDiffMismatch
      | FileUnreadable _ \<Rightarrow> ECFilterDiffInvalid | InvalidDiff _ \<Rightarrow> ECFilterDiffInvalid)"

definition show_error :: "diff_filter_error \<Rightarrow> string" where
  "show_error e =
     (case e of
        EmptyDiff \<Rightarrow> ''Diff file is empty''
      | NoSourceFiles \<Rightarrow> ''Diff changes no Rust source files''
      | NoMutants \<Rightarrow> ''No mutants to filter''
      | MismatchedDiff msg \<Rightarrow> msg
      | InvalidDiff msg \<Rightarrow> ''Failed to parse diff: '' @ msg
      | FileUnreadable msg \<Rightarrow> ''Failed to read diff file: '' @ msg)"

definition strip_patch_path :: "string \<Rightarrow> path" where
  "strip_patch_path p = unwrap_or (path_strip_prefix ''b'' p) p"

subsection \<open>Changed lines\<close>

text \<open>The loop over the lines of a hunk: the number of the next line of the new file, whether the
  line before was deleted, and the lines found so far.\<close>

fun affected_hunk :: "nat \<Rightarrow> bool \<Rightarrow> nat list \<Rightarrow> diff_line list \<Rightarrow> nat list" where
  "affected_hunk lineno prev_removed acc [] = acc"
| "affected_hunk lineno prev_removed acc (DDelete t # ls) =
     affected_hunk lineno True
       (if 1 < lineno \<and> last_opt acc \<noteq> Some (lineno - 1) then acc @ [lineno - 1] else acc) ls"
| "affected_hunk lineno prev_removed acc (DContext t # ls) =
     affected_hunk (lineno + 1) False (if prev_removed then acc @ [lineno] else acc) ls"
| "affected_hunk lineno prev_removed acc (DInsert t # ls) =
     (let acc1 = (if prev_removed then acc @ [lineno] else acc) in
      affected_hunk (lineno + 1) False (if last_opt acc1 \<noteq> Some lineno then acc1 @ [lineno] else acc1) ls)"

definition affected_lines :: "patch \<Rightarrow> nat list" where
  "affected_lines p = fold (\<lambda>h acc. affected_hunk (hk_new_start h) False acc (hk_lines h)) (pt_hunks p) []"

fun partial_hunk :: "nat \<Rightarrow> diff_line list \<Rightarrow> (nat \<times> string) list" where
  "partial_hunk lineno [] = []"
| "partial_hunk lineno (DContext t # ls) = (lineno, t) # partial_hunk (lineno + 1) ls"
| "partial_hunk lineno (DInsert t # ls) = (lineno, t) # partial_hunk (lineno + 1) ls"
| "partial_hunk lineno (DDelete t # ls) = partial_hunk lineno ls"

definition partial_new_file :: "patch \<Rightarrow> (nat \<times> string) list" where
  "partial_new_file p = concat (map (\<lambda>h. partial_hunk (hk_new_start h) (hk_lines h)) (pt_hunks p))"

subsection \<open>Checking the new text\<close>

text \<open>\<open>lines.get(lineno - 1)\<close>: subtracting one from zero wraps to an index past the end.\<close>

definition source_line :: "string list \<Rightarrow> nat \<Rightarrow> string" where
  "source_line ls lineno = (if lineno = 0 then [] else unwrap_or (get_opt ls (lineno - 1)) [])"

text \<open>The first mutant of a path gives the source file of the path.\<close>

definition source_by_name :: "mutant list \<Rightarrow> path \<Rightarrow> source_file option" where
  "source_by_name ms p =
     map_option mu_source_file (find (\<lambda>m. path_eq p (sf_tree_relative_path (mu_source_file m))) ms)"

definition mismatch_message :: "(string \<Rightarrow> string) \<Rightarrow> path \<Rightarrow> nat \<Rightarrow> string \<Rightarrow> string \<Rightarrow> string" where
  "mismatch_message dbg p lineno diff_content source_content =
     ''Diff content doesn't match source file: '' @ p @ '' line '' @ show_nat lineno @ [newline]
     @ ''diff has:   '' @ dbg diff_content @ [newline]
     @ ''source has: '' @ dbg source_content @ [newline]
     @ ''The diff might be out of date with this source tree.'' @ [newline]"

fun check_content ::
  "(string \<Rightarrow> string) \<Rightarrow> path \<Rightarrow> string list \<Rightarrow> (nat \<times> string) list \<Rightarrow> (string, unit) rresult" where
  "check_content dbg p ls [] = Ok ()"
| "check_content dbg p ls ((lineno, t) # r) =
     (if t \<noteq> source_line ls lineno then Err (mismatch_message dbg p lineno t (source_line ls lineno))
      else check_content dbg p ls r)"

fun check_diff_new_text_matches ::
  "(string \<Rightarrow> string) \<Rightarrow> patch list \<Rightarrow> mutant list \<Rightarrow> (string, unit) rresult" where
  "check_diff_new_text_matches dbg [] ms = Ok ()"
| "check_diff_new_text_matches dbg (d # ds) ms =
     (case pt_modified d of
        None \<Rightarrow> check_diff_new_text_matches dbg ds ms
      | Some p \<Rightarrow>
          (case source_by_name ms (strip_patch_path p) of
             None \<Rightarrow> check_diff_new_text_matches dbg ds ms
           | Some sf \<Rightarrow>
               rbind (check_content dbg (strip_patch_path p) (lines (sf_code sf)) (partial_new_file d))
                 (\<lambda>_. check_diff_new_text_matches dbg ds ms)))"

subsection \<open>The filter\<close>

definition patch_path :: "patch \<Rightarrow> path" where
  "patch_path d = strip_patch_path (unwrap_or (pt_modified d) [])"

definition changes_rust :: "patch \<Rightarrow> bool" where
  "changes_rust d \<longleftrightarrow> \<not> path_eq (patch_path d) ''/dev/null'' \<and> extension (patch_path d) = Some ''rs''"

definition lines_changed_by_path :: "patch list \<Rightarrow> (path \<times> nat list) list" where
  "lines_changed_by_path ds =
     fold (\<lambda>d r. if changes_rust d then extend_lines (patch_path d) (affected_lines d) r else r) ds []"

text \<open>\<open>slice::binary_search\<close> of the standard library, which halves the length of what is left.\<close>

fun bsearch_loop :: "nat list \<Rightarrow> nat \<Rightarrow> nat \<Rightarrow> nat \<Rightarrow> nat" where
  "bsearch_loop xs x base sz =
     (if sz \<le> 1 then base
      else bsearch_loop xs x (if x < xs ! (base + sz div 2) then base else base + sz div 2) (sz - sz div 2))"

declare bsearch_loop.simps [simp del]

definition binary_search_is_ok :: "nat list \<Rightarrow> nat \<Rightarrow> bool" where
  "binary_search_is_ok xs x \<longleftrightarrow> xs \<noteq> [] \<and> xs ! bsearch_loop xs x 0 (length xs) = x"

definition span_lines :: "mutant \<Rightarrow> nat list" where
  "span_lines m = [lc_line (sp_start (mu_span m)) ..< Suc (lc_line (sp_end (mu_span m)))]"

definition mutant_matches :: "(path \<times> nat list) list \<Rightarrow> mutant \<Rightarrow> bool" where
  "mutant_matches changed m =
     (case path_lookup (sf_tree_relative_path (mu_source_file m)) changed of
        None \<Rightarrow> False
      | Some ls \<Rightarrow> list_ex (binary_search_is_ok ls) (span_lines m))"

definition diff_filter ::
  "(string \<Rightarrow> (string, patch list) rresult) \<Rightarrow> (string \<Rightarrow> string) \<Rightarrow> mutant list \<Rightarrow> string
     \<Rightarrow> (diff_filter_error, mutant list) rresult" where
  "diff_filter parse dbg ms diff_text =
     (case parse diff_text of
        Err e \<Rightarrow> Err (InvalidDiff e)
      | Ok ds \<Rightarrow>
          if ds = [] then Err EmptyDiff
          else (case check_diff_new_text_matches dbg ds ms of
                  Err e \<Rightarrow> Err (MismatchedDiff e)
                | Ok _ \<Rightarrow>
                    let matched = filter (mutant_matches (lines_changed_by_path ds)) ms in
                    if matched = []
                    then Err (if list_ex changes_rust ds then NoMutants else NoSourceFiles)
                    else Ok matched))"

text \<open>\<open>diff_filter_file\<close>: \<open>contents\<close> is what opening and reading the file gives, decoded.\<close>

definition diff_filter_file ::
  "(string \<Rightarrow> (string, patch list) rresult) \<Rightarrow> (string \<Rightarrow> string) \<Rightarrow> mutant list \<Rightarrow> (string, string) rresult
     \<Rightarrow> (diff_filter_error, mutant list) rresult" where
  "diff_filter_file parse dbg ms contents =
     (case contents of Err e \<Rightarrow> Err (FileUnreadable e) | Ok t \<Rightarrow> diff_filter parse dbg ms t)"

subsection \<open>What the loop over a hunk finds\<close>

definition is_delete :: "diff_line \<Rightarrow> bool" where
  "is_delete l = (case l of DDelete _ \<Rightarrow> True | _ \<Rightarrow> False)"

definition is_insert :: "diff_line \<Rightarrow> bool" where
  "is_insert l = (case l of DInsert _ \<Rightarrow> True | _ \<Rightarrow> False)"

lemma diff_line_kinds [simp]:
  "is_delete (DDelete t)" "\<not> is_delete (DContext t)" "\<not> is_delete (DInsert t)"
  "is_insert (DInsert t)" "\<not> is_insert (DContext t)" "\<not> is_insert (DDelete t)"
  by (simp_all add: is_delete_def is_insert_def)

text \<open>The number in the new file of the line at an index of a hunk that starts at \<open>n\<close>.\<close>

definition new_pos :: "nat \<Rightarrow> diff_line list \<Rightarrow> nat \<Rightarrow> nat" where
  "new_pos n ls i = n + length (filter (\<lambda>l. \<not> is_delete l) (take i ls))"

lemma new_pos_simps [simp]:
  "new_pos n ls 0 = n"
  "new_pos n (DDelete t # ls) (Suc i) = new_pos n ls i"
  "new_pos n (DContext t # ls) (Suc i) = new_pos (Suc n) ls i"
  "new_pos n (DInsert t # ls) (Suc i) = new_pos (Suc n) ls i"
  by (simp_all add: new_pos_def)

text \<open>Line \<open>l\<close> of the new file was inserted, or is next to a deletion.\<close>

definition touched_after :: "bool \<Rightarrow> nat \<Rightarrow> diff_line list \<Rightarrow> nat \<Rightarrow> bool" where
  "touched_after prev n ls l \<longleftrightarrow>
     (\<exists>i<length ls. (is_insert (ls ! i) \<and> l = new_pos n ls i)
        \<or> (is_delete (ls ! i) \<and> 1 < new_pos n ls i \<and> Suc l = new_pos n ls i)
        \<or> (\<not> is_delete (ls ! i) \<and> l = new_pos n ls i \<and> (if i = 0 then prev else is_delete (ls ! (i - 1)))))"

lemma touched_after_Nil [simp]: "\<not> touched_after prev n [] l"
  by (simp add: touched_after_def)

lemma touched_after_Cons:
  "touched_after prev n (x # ls) l \<longleftrightarrow>
     (is_insert x \<and> l = n) \<or> (is_delete x \<and> 1 < n \<and> Suc l = n) \<or> (\<not> is_delete x \<and> l = n \<and> prev)
     \<or> touched_after (is_delete x) (if is_delete x then n else Suc n) ls l"
proof -
  have e: "new_pos n (x # ls) (Suc i) = new_pos (if is_delete x then n else Suc n) ls i" for i
    by (cases x) simp_all
  have d: "is_delete ((x # ls) ! i) = (if i = 0 then is_delete x else is_delete (ls ! (i - 1)))" for i
    by (cases i) simp_all
  show ?thesis
    unfolding touched_after_def length_Cons Ex_less_Suc2
    by (simp only: e d nth_Cons_0 nth_Cons_Suc new_pos_simps(1) diff_Suc_1 if_True nat.simps simp_thms
        if_False refl) blast
qed

lemma affected_hunk_set:
  "set (affected_hunk n prev acc ls) = set acc \<union> {l. touched_after prev n ls l}"
proof (induction n prev acc ls rule: affected_hunk.induct)
  case (2 n prev acc t ls)
  then show ?case by (auto simp: touched_after_Cons dest: last_opt_Some)
next
  case (4 n prev acc t ls)
  then show ?case by (auto simp: touched_after_Cons Let_def dest: last_opt_Some split: if_splits)
qed (auto simp: touched_after_Cons)

text \<open>The assertions of the loop hold, and the lines come out in order.\<close>

definition new_end :: "nat \<Rightarrow> diff_line list \<Rightarrow> nat" where
  "new_end n ls = n + length (filter (\<lambda>l. \<not> is_delete l) ls)"

lemma new_end_simps [simp]:
  "new_end n [] = n" "new_end n (DDelete t # ls) = new_end n ls"
  "new_end n (DContext t # ls) = new_end (Suc n) ls" "new_end n (DInsert t # ls) = new_end (Suc n) ls"
  by (simp_all add: new_end_def)

definition sorted_below :: "nat list \<Rightarrow> nat \<Rightarrow> bool" where
  "sorted_below xs n \<longleftrightarrow> sorted_wrt (<) xs \<and> (\<forall>x\<in>set xs. x < n)"

lemma sorted_below_snoc: "sorted_below xs n \<Longrightarrow> sorted_below (xs @ [n]) (Suc n)"
  by (auto simp: sorted_below_def sorted_wrt_append less_Suc_eq)

lemma sorted_below_mono: "sorted_below xs n \<Longrightarrow> n \<le> k \<Longrightarrow> sorted_below xs k"
  by (auto simp: sorted_below_def)

lemma last_opt_snoc_iff: "last_opt xs = Some x \<longleftrightarrow> (\<exists>ys. xs = ys @ [x])"
  by (cases xs rule: rev_cases) (auto simp: last_opt_def)

lemma sorted_below_not_last:
  "sorted_below xs (Suc n) \<Longrightarrow> last_opt xs \<noteq> Some n \<Longrightarrow> sorted_below xs n"
proof (cases xs rule: rev_cases)
  case (snoc ys y)
  assume "sorted_below xs (Suc n)" "last_opt xs \<noteq> Some n"
  then show ?thesis using snoc by (fastforce simp: sorted_below_def sorted_wrt_append less_Suc_eq)
qed (simp add: sorted_below_def)

lemma sorted_below_push:
  "sorted_below xs (Suc n) \<Longrightarrow> sorted_below (if last_opt xs \<noteq> Some n then xs @ [n] else xs) (Suc n)"
  by (simp add: sorted_below_snoc sorted_below_not_last)

lemma affected_hunk_sorted:
  "sorted_below acc n \<Longrightarrow> sorted_below (affected_hunk n prev acc ls) (new_end n ls)"
proof (induction n prev acc ls rule: affected_hunk.induct)
  case (2 n prev acc t ls)
  have "sorted_below (if 1 < n \<and> last_opt acc \<noteq> Some (n - 1) then acc @ [n - 1] else acc) n"
    using 2(2) sorted_below_push [of acc "n - 1"] by (auto split: if_splits)
  from 2(1) [OF this] show ?case by simp
next
  case (3 n prev acc t ls)
  have "sorted_below (if prev then acc @ [n] else acc) (Suc n)"
    using 3(2) sorted_below_snoc sorted_below_mono [of acc n "Suc n"] by simp
  with 3(1) show ?case by simp
next
  case (4 n prev acc t ls)
  have "sorted_below (if prev then acc @ [n] else acc) (Suc n)"
    using 4(2) sorted_below_snoc sorted_below_mono [of acc n "Suc n"] by simp
  from 4(1) [OF refl] sorted_below_push [OF this] show ?case by (simp add: Let_def)
qed simp

text \<open>A patch as the parser gives it: hunks in order that do not overlap.\<close>

fun hunks_ok :: "nat \<Rightarrow> hunk list \<Rightarrow> bool" where
  "hunks_ok lo [] \<longleftrightarrow> True"
| "hunks_ok lo (h # hs) \<longleftrightarrow>
     lo \<le> hk_new_start h \<and> hk_new_end h = new_end (hk_new_start h) (hk_lines h) \<and> hunks_ok (hk_new_end h) hs"

definition touched :: "patch \<Rightarrow> nat \<Rightarrow> bool" where
  "touched p l \<longleftrightarrow> (\<exists>h\<in>set (pt_hunks p). touched_after False (hk_new_start h) (hk_lines h) l)"

lemma affected_fold:
  "set (fold (\<lambda>h acc. affected_hunk (hk_new_start h) False acc (hk_lines h)) hs acc)
    = set acc \<union> {l. \<exists>h\<in>set hs. touched_after False (hk_new_start h) (hk_lines h) l}"
  by (induction hs arbitrary: acc) (auto simp: affected_hunk_set)

lemma affected_fold_sorted:
  "sorted_below acc lo \<Longrightarrow> hunks_ok lo hs \<Longrightarrow>
    sorted_wrt (<) (fold (\<lambda>h acc. affected_hunk (hk_new_start h) False acc (hk_lines h)) hs acc)"
proof (induction hs arbitrary: acc lo)
  case (Cons h hs)
  then have "sorted_below acc (hk_new_start h)" using sorted_below_mono by auto
  note b = affected_hunk_sorted [OF this, of False "hk_lines h"]
  show ?case using Cons.IH [OF b] Cons.prems(2) by auto
qed (simp add: sorted_below_def)

lemma affected_lines_iff: "l \<in> set (affected_lines p) \<longleftrightarrow> touched p l"
  by (simp add: affected_lines_def affected_fold touched_def)

lemma affected_lines_sorted: "hunks_ok 0 (pt_hunks p) \<Longrightarrow> sorted_wrt (<) (affected_lines p)"
  unfolding affected_lines_def by (rule affected_fold_sorted [of _ 0]) (simp add: sorted_below_def)

subsection \<open>The check and the search\<close>

lemma partial_hunk_iff:
  "(k, t) \<in> set (partial_hunk n ls) \<longleftrightarrow> (\<exists>i<length ls. ls ! i \<in> {DContext t, DInsert t} \<and> k = new_pos n ls i)"
proof (induction n ls arbitrary: k t rule: partial_hunk.induct)
  case (2 n x ls)
  then show ?case by (auto simp: Ex_less_Suc2)
next
  case (3 n x ls)
  then show ?case by (auto simp: Ex_less_Suc2)
next
  case (4 n x ls)
  then show ?case by (auto simp: Ex_less_Suc2)
qed simp

lemma check_content_Ok: "check_content dbg p ls r = Ok () \<longleftrightarrow> (\<forall>(k, t)\<in>set r. t = source_line ls k)"
  by (induction dbg p ls r rule: check_content.induct) auto

lemma check_Ok:
  "check_diff_new_text_matches dbg ds ms = Ok () \<longleftrightarrow>
    (\<forall>d\<in>set ds. \<forall>p sf. pt_modified d = Some p \<longrightarrow> source_by_name ms (strip_patch_path p) = Some sf \<longrightarrow>
      (\<forall>(k, t)\<in>set (partial_new_file d). t = source_line (lines (sf_code sf)) k))"
  by (induction dbg ds ms rule: check_diff_new_text_matches.induct)
    (auto simp: rbind_Ok_iff check_content_Ok split: option.splits)

declare check_diff_new_text_matches.simps(2) [simp del]

lemma bsearch_loop_finds:
  assumes "sorted_wrt (<) xs" "base \<le> i" "i < base + sz" "base + sz \<le> length xs"
  shows "bsearch_loop xs (xs ! i) base sz = i"
  using assms(2-)
proof (induction sz arbitrary: base rule: less_induct)
  case (less sz)
  show ?case
  proof (cases "sz \<le> 1")
    case True
    with less show ?thesis by (subst bsearch_loop.simps) simp
  next
    case False
    let ?mid = "base + sz div 2"
    have mid: "?mid < length xs" "sz div 2 \<le> sz - sz div 2" "1 \<le> sz div 2" using less(4) False by auto
    have cmp: "xs ! i < xs ! ?mid \<longleftrightarrow> i < ?mid"
    proof
      show "i < ?mid \<Longrightarrow> xs ! i < xs ! ?mid" using assms(1) mid(1) by (simp add: sorted_wrt_nth_less)
      show "xs ! i < xs ! ?mid \<Longrightarrow> i < ?mid"
        using assms(1) less(3,4) sorted_wrt_nth_less [of "(<)" xs ?mid i]
        by (cases i ?mid rule: linorder_cases) auto
    qed
    show ?thesis
    proof (cases "i < ?mid")
      case True
      with less(1) [of "sz - sz div 2"] cmp less(2-) mid False show ?thesis by (subst bsearch_loop.simps) simp
    next
      case ge: False
      with less(1) [of "sz - sz div 2"] cmp less(2-) mid False show ?thesis by (subst bsearch_loop.simps) simp
    qed
  qed
qed

lemma bsearch_loop_bound: "0 < sz \<Longrightarrow> bsearch_loop xs x base sz < base + sz"
proof (induction xs x base sz rule: bsearch_loop.induct)
  case (1 xs x base sz)
  show ?case
  proof (cases "sz \<le> 1")
    case True
    with 1 show ?thesis by (subst bsearch_loop.simps) simp
  next
    case False
    with 1(1) [OF False] show ?thesis by (subst bsearch_loop.simps) (auto split: if_splits)
  qed
qed

lemma binary_search_sorted:
  assumes "sorted_wrt (<) xs"
  shows "binary_search_is_ok xs x \<longleftrightarrow> x \<in> set xs"
proof
  assume "binary_search_is_ok xs x"
  then show "x \<in> set xs"
    using bsearch_loop_bound [of "length xs" xs x 0] nth_mem [of "bsearch_loop xs x 0 (length xs)" xs]
    by (auto simp: binary_search_is_ok_def)
next
  assume "x \<in> set xs"
  then obtain i where "i < length xs" "x = xs ! i" by (auto simp: in_set_conv_nth)
  with bsearch_loop_finds [OF assms, of 0 i "length xs"] show "binary_search_is_ok xs x"
    by (auto simp: binary_search_is_ok_def)
qed

subsection \<open>The map of changed lines\<close>

definition patches_of :: "path \<Rightarrow> patch list \<Rightarrow> patch list" where
  "patches_of p ds = filter (\<lambda>d. changes_rust d \<and> path_eq p (patch_path d)) ds"

lemma path_lookup_cong: "path_eq p q \<Longrightarrow> path_lookup p r = path_lookup q r"
  by (induction p r rule: path_lookup.induct) (auto simp: path_eq_def)

lemma lines_changed_fold:
  "path_lookup p (fold (\<lambda>d r. if changes_rust d then extend_lines (patch_path d) (affected_lines d) r else r) ds r)
    = (if patches_of p ds = [] then path_lookup p r
       else Some (unwrap_or (path_lookup p r) [] @ concat (map affected_lines (patches_of p ds))))"
proof (induction ds arbitrary: r)
  case (Cons d ds)
  show ?case
  proof (cases "changes_rust d \<and> path_eq p (patch_path d)")
    case True
    then have "path_lookup p (extend_lines (patch_path d) (affected_lines d) r)
        = Some (unwrap_or (path_lookup p r) [] @ affected_lines d)"
      by (simp add: path_lookup_extend path_lookup_cong [of p "patch_path d"] unwrap_or_def)
    with True Cons show ?thesis by (simp add: patches_of_def)
  next
    case False
    with Cons show ?thesis by (auto simp: patches_of_def path_lookup_extend)
  qed
qed (simp add: patches_of_def)

lemma lines_changed_lookup:
  "path_lookup p (lines_changed_by_path ds)
    = (if patches_of p ds = [] then None else Some (concat (map affected_lines (patches_of p ds))))"
  by (simp add: lines_changed_by_path_def lines_changed_fold)

text \<open>Each Rust file is changed by at most one patch.\<close>

definition one_patch_per_file :: "patch list \<Rightarrow> bool" where
  "one_patch_per_file ds \<longleftrightarrow>
     sorted_wrt (\<lambda>d e. \<not> (changes_rust d \<and> changes_rust e \<and> path_eq (patch_path d) (patch_path e))) ds"

lemma patches_of_one:
  assumes "one_patch_per_file ds"
  shows "patches_of p ds = [] \<or> (\<exists>d. patches_of p ds = [d])"
  using assms
proof (induction ds)
  case (Cons d ds)
  show ?case
  proof (cases "changes_rust d \<and> path_eq p (patch_path d)")
    case True
    with Cons.prems have "patches_of p ds = []"
      by (auto simp: one_patch_per_file_def patches_of_def filter_empty_conv path_eq_def)
    with True show ?thesis by (simp add: patches_of_def)
  next
    case False
    then have "patches_of p (d # ds) = patches_of p ds" by (auto simp: patches_of_def)
    moreover have "one_patch_per_file ds" using Cons.prems by (simp add: one_patch_per_file_def)
    ultimately show ?thesis using Cons.IH by simp
  qed
qed (simp add: patches_of_def)

lemma mutant_matches_iff:
  assumes "one_patch_per_file ds" "\<forall>d\<in>set ds. hunks_ok 0 (pt_hunks d)"
  shows "mutant_matches (lines_changed_by_path ds) m \<longleftrightarrow>
    (\<exists>d\<in>set ds. changes_rust d \<and> path_eq (sf_tree_relative_path (mu_source_file m)) (patch_path d)
      \<and> (\<exists>l\<in>set (span_lines m). touched d l))"
proof -
  let ?p = "sf_tree_relative_path (mu_source_file m)"
  have mem: "d \<in> set (patches_of ?p ds) \<longleftrightarrow> d \<in> set ds \<and> changes_rust d \<and> path_eq ?p (patch_path d)" for d
    by (auto simp: patches_of_def)
  from patches_of_one [OF assms(1), of ?p] consider "patches_of ?p ds = []"
    | d where "patches_of ?p ds = [d]" by blast
  then show ?thesis
  proof cases
    case 1
    with mem show ?thesis by (auto simp: mutant_matches_def lines_changed_lookup)
  next
    case (2 d)
    then have d: "d \<in> set ds" "\<And>e. e \<in> set ds \<and> changes_rust e \<and> path_eq ?p (patch_path e) \<longleftrightarrow> e = d"
      using mem by force+
    have "mutant_matches (lines_changed_by_path ds) m
        \<longleftrightarrow> (\<exists>l\<in>set (span_lines m). binary_search_is_ok (affected_lines d) l)"
      using 2 by (auto simp: mutant_matches_def lines_changed_lookup list_ex_iff)
    also have "\<dots> \<longleftrightarrow> (\<exists>l\<in>set (span_lines m). touched d l)"
      using assms(2) d(1) affected_lines_sorted binary_search_sorted affected_lines_iff by blast
    finally show ?thesis using d(2) by metis
  qed
qed

subsection \<open>Properties\<close>

definition insert_patch :: "string \<Rightarrow> nat \<Rightarrow> string \<Rightarrow> patch" where
  "insert_patch file n t =
     \<lparr>pt_modified = Some (''b/'' @ file),
      pt_hunks = [\<lparr>hk_new_start = n, hk_new_end = n + 1, hk_lines = [DInsert t]\<rparr>]\<rparr>"

lemma insert_patch_path:
  "patch_path (insert_patch ''src/lib.rs'' n t) = ''src/lib.rs''" "changes_rust (insert_patch ''src/lib.rs'' n t)"
  by (simp_all add: patch_path_def insert_patch_def strip_patch_path_def path_strip_prefix_def components_def
      is_absolute_def starts_with_def strip_prefix_def path_of_def changes_rust_def path_eq_def extension_def
      file_name_def last_opt_def rsplit_dot_def)

lemma insert_patch_simps [simp]:
  "affected_lines (insert_patch f n t) = [n]" "hunks_ok 0 (pt_hunks (insert_patch f n t))"
  "partial_new_file (insert_patch f n t) = [(n, t)]"
  by (simp_all add: affected_lines_def insert_patch_def partial_new_file_def)

lemma example_span_lines [simp]: "span_lines example_mutant = [2]"
  by (simp add: span_lines_def example_mutant_def new_discovered_def quad_def)

lemma example_source_of: "source_by_name [example_mutant] p = Some sf \<Longrightarrow> sf = example_source"
  by (auto simp: source_by_name_def example_mutant_def new_discovered_def split: if_splits)

lemma example_source_lines:
  "source_line (lines (sf_code example_source)) 1 = ''fn f() {''"
  "source_line (lines (sf_code example_source)) 2 = ''1 }''"
  by (simp_all add: source_line_def get_opt_def example_source_def lines_def strip_line_end_def)

lemma example_check:
  assumes "d2 = insert_patch ''src/lib.rs'' 1 ''fn f() {''"
  shows "check_diff_new_text_matches dbg [insert_patch ''src/lib.rs'' 2 ''1 }''] [example_mutant] = Ok ()"
    "check_diff_new_text_matches dbg [insert_patch ''src/lib.rs'' 2 ''1 }'', d2] [example_mutant] = Ok ()"
  by (auto simp: check_Ok assms example_source_lines dest!: example_source_of simp del: One_nat_def)

text \<open>For a patch whose hunks are in order, the changed lines come out strictly sorted, as the binary
  search needs and the assertions of debug builds require.  A line of the new file counts as changed
  exactly if it was inserted, follows a deleted line, or precedes one.\<close>

theorem affected_lines_are_touched:
  "(hunks_ok 0 (pt_hunks p) \<longrightarrow> sorted_wrt (<) (affected_lines p))
    \<and> (l \<in> set (affected_lines p) \<longleftrightarrow>
        (\<exists>h\<in>set (pt_hunks p). \<exists>i<length (hk_lines h).
          let x = hk_lines h ! i; n = new_pos (hk_new_start h) (hk_lines h) i in
          (is_insert x \<and> l = n) \<or> (is_delete x \<and> 1 < n \<and> Suc l = n)
          \<or> (\<not> is_delete x \<and> l = n \<and> 0 < i \<and> is_delete (hk_lines h ! (i - 1)))))"
proof
  show "hunks_ok 0 (pt_hunks p) \<longrightarrow> sorted_wrt (<) (affected_lines p)" using affected_lines_sorted by blast
  have prev: "(if i = 0 then False else is_delete (xs ! (i - 1))) \<longleftrightarrow> 0 < i \<and> is_delete (xs ! (i - 1))" for i xs
    by simp
  show "l \<in> set (affected_lines p) \<longleftrightarrow>
        (\<exists>h\<in>set (pt_hunks p). \<exists>i<length (hk_lines h).
          let x = hk_lines h ! i; n = new_pos (hk_new_start h) (hk_lines h) i in
          (is_insert x \<and> l = n) \<or> (is_delete x \<and> 1 < n \<and> Suc l = n)
          \<or> (\<not> is_delete x \<and> l = n \<and> 0 < i \<and> is_delete (hk_lines h ! (i - 1))))"
    unfolding affected_lines_iff touched_def touched_after_def Let_def prev by (rule refl)
qed

lemma affected_lines_are_touched_witness:
  "sorted_wrt (<) (affected_lines (insert_patch ''src/lib.rs'' 2 ''1 }''))
    \<and> 2 \<in> set (affected_lines (insert_patch ''src/lib.rs'' 2 ''1 }''))"
  using affected_lines_are_touched [of "insert_patch ''src/lib.rs'' 2 ''1 }''" 2] by simp



text \<open>A diff is accepted exactly if every inserted or context line of every patch to a file that has
  mutants is the line of that number in the source; otherwise the exit code says so.\<close>

theorem stale_diff_refused:
  assumes "parse diff_text = Ok ds" "ds \<noteq> []"
  shows "(\<exists>e. diff_filter parse dbg ms diff_text = Err e \<and> error_exit_code e = ECFilterDiffMismatch) \<longleftrightarrow>
    (\<exists>d\<in>set ds. \<exists>p sf. pt_modified d = Some p \<and> source_by_name ms (strip_patch_path p) = Some sf \<and>
      (\<exists>h\<in>set (pt_hunks d). \<exists>i<length (hk_lines h). \<exists>t. hk_lines h ! i \<in> {DContext t, DInsert t}
        \<and> t \<noteq> source_line (lines (sf_code sf)) (new_pos (hk_new_start h) (hk_lines h) i)))"
proof -
  have part: "(k, t) \<in> set (partial_new_file d) \<longleftrightarrow> (\<exists>h\<in>set (pt_hunks d). \<exists>i<length (hk_lines h).
      hk_lines h ! i \<in> {DContext t, DInsert t} \<and> k = new_pos (hk_new_start h) (hk_lines h) i)" for k t d
    by (auto simp: partial_new_file_def partial_hunk_iff)
  have "(\<exists>e. diff_filter parse dbg ms diff_text = Err e \<and> error_exit_code e = ECFilterDiffMismatch)
      \<longleftrightarrow> check_diff_new_text_matches dbg ds ms \<noteq> Ok ()"
    using assms by (auto simp: diff_filter_def error_exit_code_def Let_def split: sum.splits if_splits)
  also have "\<dots> \<longleftrightarrow> (\<exists>d\<in>set ds. \<exists>p sf. pt_modified d = Some p \<and> source_by_name ms (strip_patch_path p) = Some sf \<and>
      (\<exists>(k, t)\<in>set (partial_new_file d). t \<noteq> source_line (lines (sf_code sf)) k))"
    unfolding check_Ok by blast
  finally show ?thesis unfolding Bex_def split_paired_Ex case_prod_conv part by blast
qed

lemma stale_diff_refused_witness:
  "\<exists>e. diff_filter (\<lambda>_. Ok [insert_patch ''src/lib.rs'' 1 ''x'']) (\<lambda>s. s) [example_mutant] [] = Err e
    \<and> error_exit_code e = ECFilterDiffMismatch"
proof -
  let ?d = "insert_patch ''src/lib.rs'' 1 ''x''"
  have s: "source_by_name [example_mutant] (strip_patch_path ''b/src/lib.rs'') = Some example_source"
    using insert_patch_path(1) [of 1 "''x''"]
    by (simp add: source_by_name_def patch_path_def insert_patch_def example_mutant_def new_discovered_def
        example_source_def)
  have "source_line (lines (sf_code example_source)) 1 = ''fn f() {''"
    by (simp add: source_line_def get_opt_def example_source_def lines_def strip_line_end_def)
  with s show ?thesis
    using stale_diff_refused [of "\<lambda>_. Ok [?d]" "[]" "[?d]" "\<lambda>s. s" "[example_mutant]"]
    by (auto simp: insert_patch_def)
qed

text \<open>If a diff holds two patches to one file, their lines are put after each other unsorted, and the
  binary search may miss one: the second patch below hides the mutant that the first one changes.\<close>

theorem second_patch_hides_mutant:
  "let d1 = insert_patch ''src/lib.rs'' 2 ''1 }''; d2 = insert_patch ''src/lib.rs'' 1 ''fn f() {'' in
    touched d1 2 \<and> span_lines example_mutant = [2]
    \<and> diff_filter (\<lambda>_. Ok [d1]) dbg [example_mutant] text = Ok [example_mutant]
    \<and> diff_filter (\<lambda>_. Ok [d1, d2]) dbg [example_mutant] text = Err NoMutants"
proof -
  let ?d1 = "insert_patch ''src/lib.rs'' 2 ''1 }''"
  define d2 where "d2 = insert_patch ''src/lib.rs'' 1 ''fn f() {''"
  have p: "sf_tree_relative_path (mu_source_file example_mutant) = ''src/lib.rs''"
    by (simp add: example_mutant_def new_discovered_def example_source_def)
  have d2: "affected_lines d2 = [1]" "patch_path d2 = ''src/lib.rs''" "changes_rust d2"
    using insert_patch_path [of 1] by (simp_all add: d2_def)
  have l: "path_lookup ''src/lib.rs'' (lines_changed_by_path [?d1]) = Some [2]"
    "path_lookup ''src/lib.rs'' (lines_changed_by_path [?d1, d2]) = Some [2, 1]"
    by (simp_all add: lines_changed_lookup patches_of_def insert_patch_path d2)
  have b: "binary_search_is_ok [2] 2" "\<not> binary_search_is_ok [2, Suc 0] 2"
    by (simp_all add: binary_search_is_ok_def bsearch_loop.simps)
  have "touched ?d1 2" using affected_lines_iff [of 2 ?d1] by simp
  then show ?thesis unfolding Let_def d2_def [symmetric]
    using b by (simp add: diff_filter_def Let_def example_check [OF d2_def] mutant_matches_def p l insert_patch_path)
qed

end
