(* ===== verification/Pretty.thy ===== *)
theory Pretty
  imports Prelude
begin

text \<open>
  Printing token streams (\<open>src/src/pretty.rs\<close>).  A token stream is a list of token trees, as
  \<open>proc_macro2\<close> has them; the text of an identifier or a literal is what its \<open>to_string\<close> gives.
\<close>

subsection \<open>Token streams\<close>

datatype delimiter = Brace | Bracket | Parenthesis | NoDelimiter

datatype token_tree =
    Punct char
  | Ident string
  | Literal string
  | Group delimiter "token_tree list"

type_synonym token_stream = "token_tree list"

subsection \<open>The printer\<close>

definition open_text :: "delimiter \<Rightarrow> string" where
  "open_text d = (case d of Brace \<Rightarrow> ''{'' | Bracket \<Rightarrow> ''['' | Parenthesis \<Rightarrow> ''('' | NoDelimiter \<Rightarrow> '''')"

definition close_text :: "delimiter \<Rightarrow> string" where
  "close_text d = (case d of Brace \<Rightarrow> ''}'' | Bracket \<Rightarrow> '']'' | Parenthesis \<Rightarrow> '')'' | NoDelimiter \<Rightarrow> '''')"

text \<open>A space before a punctuation character, given the text emitted so far.\<close>

definition punct_before :: "char \<Rightarrow> string \<Rightarrow> string" where
  "punct_before pc emitted =
     (if pc = CHR ''|'' \<and> emitted \<noteq> [] \<and> \<not> ends_with emitted '' '' \<and> \<not> ends_with emitted ''|''
      then '' '' else [])"

text \<open>A space after it, given the text with it and whether more tokens follow.\<close>

definition punct_after :: "char \<Rightarrow> string \<Rightarrow> token_tree list \<Rightarrow> string" where
  "punct_after pc emitted ts =
     (if ts \<noteq> [] \<and> (ends_with emitted ''->'' \<or> pc = CHR '','' \<or> pc = CHR '';'') then '' '' else [])"

definition word_before :: "string \<Rightarrow> string" where
  "word_before emitted =
     (if ends_with emitted ''='' \<or> ends_with emitted ''=>'' \<or> ends_with emitted ''|'' then '' '' else [])"

definition word_after :: "token_tree list \<Rightarrow> string" where
  "word_after ts =
     (case ts of
        [] \<Rightarrow> []
      | Ident _ # _ \<Rightarrow> '' ''
      | Literal _ # _ \<Rightarrow> '' ''
      | Punct p # _ \<Rightarrow> if p \<in> set '',;<>:.!'' then [] else '' ''
      | Group _ _ # _ \<Rightarrow> [])"

text \<open>\<open>write_pretty\<close>: the buffer \<open>b\<close> and where in it this stream's text starts.\<close>

fun write_loop :: "nat \<Rightarrow> string \<Rightarrow> token_tree list \<Rightarrow> string" where
  "write_loop start b [] = b"
| "write_loop start b (Punct pc # ts) =
     (let b1 = b @ punct_before pc (drop start b) @ [pc] in
      write_loop start (b1 @ punct_after pc (drop start b1) ts) ts)"
| "write_loop start b (Ident w # ts) =
     write_loop start (b @ word_before (drop start b) @ w @ word_after ts) ts"
| "write_loop start b (Literal w # ts) =
     write_loop start (b @ word_before (drop start b) @ w @ word_after ts) ts"
| "write_loop start b (Group d ss # ts) =
     (let b1 = b @ open_text d in
      write_loop start (write_loop (length b1) b1 ss @ close_text d) ts)"

definition write_pretty :: "token_stream \<Rightarrow> string \<Rightarrow> string" where
  "write_pretty ts b = write_loop (length b) b ts"

definition to_pretty_string :: "token_stream \<Rightarrow> string" where
  "to_pretty_string ts = write_pretty ts []"

subsection \<open>The buffer\<close>

lemma write_loop_shift: "write_loop (length a + start) (a @ b) ts = a @ write_loop start b ts"
proof (induction start b ts arbitrary: a rule: write_loop.induct)
  case (5 start b d ss ts)
  have "write_loop (length (a @ b @ open_text d)) (a @ b @ open_text d) ss
      = a @ write_loop (length (b @ open_text d)) (b @ open_text d) ss"
    using 5(1) [of "b @ open_text d" a] by simp
  then show ?case using 5(2) [of "b @ open_text d" a] by (simp add: Let_def)
next
  case (2 start b pc ts)
  then show ?case by (simp add: Let_def)
qed simp_all

lemma write_pretty_append: "write_pretty ts (a @ b) = a @ write_pretty ts b"
  using write_loop_shift [of a "length b" b ts] by (simp add: write_pretty_def)

lemma write_pretty_shift: "write_pretty ts b = b @ to_pretty_string ts"
  using write_pretty_append [of ts b "[]"] by (simp add: to_pretty_string_def)

text \<open>Printing seen from the text emitted so far, without the buffer.\<close>

lemma write_loop_0:
  "write_loop 0 b (Group d ss # ts) = write_loop 0 (b @ open_text d @ to_pretty_string ss @ close_text d) ts"
  using write_pretty_shift [of ss "b @ open_text d"] by (simp add: Let_def write_pretty_def)

subsection \<open>What is printed\<close>

fun tokens_text :: "token_tree list \<Rightarrow> string" where
  "tokens_text [] = []"
| "tokens_text (Punct c # ts) = c # tokens_text ts"
| "tokens_text (Ident w # ts) = w @ tokens_text ts"
| "tokens_text (Literal w # ts) = w @ tokens_text ts"
| "tokens_text (Group d ss # ts) = open_text d @ tokens_text ss @ close_text d @ tokens_text ts"

definition no_spaces :: "string \<Rightarrow> string" where
  "no_spaces s = filter (\<lambda>c. c \<noteq> CHR '' '') s"

definition one_char :: "char \<Rightarrow> string" where
  "one_char c = (if c = CHR '' '' then [] else [c])"

lemma no_spaces_simps [simp]:
  "no_spaces [] = []" "no_spaces (a @ b) = no_spaces a @ no_spaces b"
  "no_spaces (c # s) = one_char c @ no_spaces s" "one_char CHR '' '' = []"
  by (simp_all add: no_spaces_def one_char_def)

lemma no_spaces_hints [simp]:
  "no_spaces (punct_before pc e) = []" "no_spaces (punct_after pc e ts) = []"
  "no_spaces (word_before e) = []" "no_spaces (word_after ts) = []"
  by (simp_all add: punct_before_def punct_after_def word_before_def word_after_def
      split: list.splits token_tree.splits)

lemma no_spaces_loop: "no_spaces (write_loop start b ts) = no_spaces b @ no_spaces (tokens_text ts)"
  by (induction start b ts rule: write_loop.induct)
    (simp_all add: Let_def)

text \<open>A stream whose words are words and whose groups without delimiters are not empty.\<close>

fun solid :: "token_tree list \<Rightarrow> bool" where
  "solid [] \<longleftrightarrow> True"
| "solid (Punct c # ts) \<longleftrightarrow> c \<noteq> CHR '' '' \<and> solid ts"
| "solid (Ident w # ts) \<longleftrightarrow> w \<noteq> [] \<and> \<not> ends_with w '' '' \<and> solid ts"
| "solid (Literal w # ts) \<longleftrightarrow> w \<noteq> [] \<and> \<not> ends_with w '' '' \<and> solid ts"
| "solid (Group d ss # ts) \<longleftrightarrow> (d = NoDelimiter \<longrightarrow> ss \<noteq> []) \<and> solid ss \<and> solid ts"

lemma ends_with_append_nonempty: "w \<noteq> [] \<Longrightarrow> ends_with (a @ w) [c] \<longleftrightarrow> ends_with w [c]"
  by (cases w rule: rev_cases) (simp_all flip: append_assoc)

definition tight :: "string \<Rightarrow> bool" where
  "tight s \<longleftrightarrow> s \<noteq> [] \<and> \<not> ends_with s '' ''"

lemma tight_append [simp]: "tight w \<Longrightarrow> tight (a @ w)"
  by (auto simp: tight_def ends_with_append_nonempty)

lemma tight_Cons [simp]: "tight w \<Longrightarrow> tight (c # w)"
  using tight_append [of w "[c]"] by simp

lemma close_text_tight: "d \<noteq> NoDelimiter \<Longrightarrow> tight (close_text d)"
  by (cases d) (simp_all add: close_text_def tight_def ends_with_def)

lemma loop_tight:
  "solid ts \<Longrightarrow> (ts \<noteq> [] \<or> tight (drop start b)) \<Longrightarrow> start \<le> length b \<Longrightarrow>
    start \<le> length (write_loop start b ts) \<and> tight (drop start (write_loop start b ts))"
proof (induction start b ts rule: write_loop.induct)
  case (2 start b pc ts)
  have "tight [pc]" using 2(2) by (simp add: tight_def ends_with_def)
  then have "ts \<noteq> [] \<or> tight (drop start (b @ punct_before pc (drop start b) @ [pc] @ punct_after pc e ts))" for e
    using 2(4) by (cases "ts = []") (simp_all add: punct_after_def)
  with 2 show ?case by (simp add: Let_def)
next
  case (3 start b w ts)
  have "tight w" using 3(2) by (simp add: tight_def)
  then have "ts \<noteq> [] \<or> tight (drop start (b @ word_before (drop start b) @ w @ word_after ts))"
    using 3(4) by (cases "ts = []") (simp_all add: word_after_def)
  with 3 show ?case by simp
next
  case (4 start b w ts)
  have "tight w" using 4(2) by (simp add: tight_def)
  then have "ts \<noteq> [] \<or> tight (drop start (b @ word_before (drop start b) @ w @ word_after ts))"
    using 4(4) by (cases "ts = []") (simp_all add: word_after_def)
  with 4 show ?case by simp
next
  case (5 start b d ss ts)
  let ?b1 = "b @ open_text d"
  have w: "write_loop (length ?b1) ?b1 ss = ?b1 @ to_pretty_string ss"
    using write_pretty_shift [of ss ?b1] by (simp add: write_pretty_def)
  have "tight (to_pretty_string ss @ close_text d)"
  proof (cases "d = NoDelimiter")
    case True
    with 5(3) 5(1) [OF refl] w show ?thesis by (simp add: close_text_def)
  qed (simp add: close_text_tight)
  then have "tight (drop start (write_loop (length ?b1) ?b1 ss @ close_text d))"
    using 5(5) w by simp
  with 5(2) [OF refl] 5(3,5) w show ?case by (simp add: Let_def)
qed simp

lemma pretty_tight: "solid ts \<Longrightarrow> ts \<noteq> [] \<Longrightarrow> tight (to_pretty_string ts)"
  using loop_tight [of ts 0 "[]"] by (simp add: to_pretty_string_def write_pretty_def)

subsection \<open>Properties\<close>

text \<open>C23: Printing appends to the buffer without looking at what was in it, adds nothing but spaces to the
  text of the tokens, and for streams whose undelimited groups are not empty never ends with a
  space, as the assertion of debug builds requires.\<close>

theorem pretty_adds_only_spaces:
  "write_pretty ts b = b @ to_pretty_string ts
    \<and> no_spaces (to_pretty_string ts) = no_spaces (tokens_text ts)
    \<and> (solid ts \<longrightarrow> \<not> ends_with (to_pretty_string ts) '' '')"
proof (intro conjI impI)
  show "write_pretty ts b = b @ to_pretty_string ts" by (rule write_pretty_shift)
  show "no_spaces (to_pretty_string ts) = no_spaces (tokens_text ts)"
    by (simp add: to_pretty_string_def write_pretty_def no_spaces_loop)
  assume "solid ts"
  then show "\<not> ends_with (to_pretty_string ts) '' ''"
    using pretty_tight [of ts] by (cases "ts = []") (auto simp: tight_def to_pretty_string_def write_pretty_def)
qed

lemma pretty_adds_only_spaces_witness:
  "to_pretty_string [Ident ''a'', Punct CHR ''|'', Ident ''b'', Punct CHR '','', Group Parenthesis [Literal ''1'']]
      = ''a | b, (1)''
    \<and> \<not> ends_with (to_pretty_string [Ident ''a'', Punct CHR ''|'', Ident ''b'', Punct CHR '','',
          Group Parenthesis [Literal ''1'']]) '' ''"
proof -
  let ?ts = "[Ident ''a'', Punct CHR ''|'', Ident ''b'', Punct CHR '','', Group Parenthesis [Literal ''1'']]"
  have "to_pretty_string ?ts = ''a | b, (1)''"
    by (simp add: to_pretty_string_def write_pretty_def punct_before_def punct_after_def word_before_def
        word_after_def ends_with_def open_text_def close_text_def)
  moreover have "solid ?ts" by (simp add: ends_with_def)
  ultimately show ?thesis using pretty_adds_only_spaces [of ?ts "[]"] by blast
qed

end
