(* ===== verification/Syntax.thy ===== *)
theory Syntax
  imports Pretty Sources
begin

text \<open>
  The syntax trees that the parser hands to the visitor.  Parsing is the work of \<open>syn\<close>; here are
  the parts of its trees that the program looks at.  A type (\<open>syn::Type\<close>) has the constructors
  that \<open>fnvalue.rs\<close> tells apart.  Everything else is a \<open>node\<close>: what kind of item, statement or
  expression it is, with the fields that \<open>visit.rs\<close> reads, and below it the nodes that \<open>syn\<close>'s
  default traversal of it visits, in that order (the order of the fields).  The number of a node
  is its identity, which the code takes from its address.  Attributes are not among the nodes
  below, since the visitor never enters them.
\<close>

subsection \<open>Types\<close>

datatype syn_type =
    TypePath syn_path
  | TypeArray syn_type token_stream
  | TypeSlice syn_type
  | TypeReference bool syn_type  \<comment> \<open>whether it is mutable\<close>
  | TypeTuple "syn_type list"
  | TypeImplTrait "type_bound list"
  | TypeTraitObject
  | TypeNever
  | TypeOther
and syn_path = SynPath bool "path_segment list"  \<comment> \<open>whether it starts with a double colon\<close>
and path_segment = Segment string path_arguments
and path_arguments = NoArguments | AngleBracketed "generic_argument list" | ParenthesizedArguments
and generic_argument =
    ArgType syn_type
  | ArgLifetime
  | ArgAssocType string syn_type
  | ArgOther
and type_bound = BoundTrait syn_path | BoundOther

datatype return_type = ReturnDefault | ReturnType syn_type

fun segments :: "syn_path \<Rightarrow> path_segment list" where
  "segments (SynPath c ss) = ss"

fun seg_ident :: "path_segment \<Rightarrow> string" where
  "seg_ident (Segment s as) = s"

fun seg_arguments :: "path_segment \<Rightarrow> path_arguments" where
  "seg_arguments (Segment s as) = as"

text \<open>\<open>Path::get_ident\<close> of \<open>syn\<close> is an argument of what uses it; this is what its documentation says:
  one segment, no leading colon, no arguments.\<close>

definition documented_get_ident :: "syn_path \<Rightarrow> string option" where
  "documented_get_ident p =
     (case p of SynPath False [Segment s NoArguments] \<Rightarrow> Some s | _ \<Rightarrow> None)"

subsection \<open>Attributes\<close>

text \<open>What parsing a string literal in an argument list gives: the error, or the value and whether
  something follows.\<close>

datatype lit_args = NoLiteral string | LitArg string bool

text \<open>One entry of \<open>#[cfg(..)]\<close> or \<open>#[cfg_attr(..)]\<close> as \<open>parse_nested_meta\<close> sees it: its path, the path as
  an identifier if it is one, what taking an argument list in parentheses gives (the error if
  there is none), and whether anything else stands before the next comma.\<close>

record nested_meta =
  nm_path :: "string list"
  nm_ident :: "string option"
  nm_span :: span
  nm_parens :: "(string, lit_args) rresult"
  nm_trailing :: bool

record attribute =
  at_path :: "string list"
  at_span :: span
  at_args :: lit_args
  at_nested :: "nested_meta list"
  at_nested_ok :: bool  \<comment> \<open>whether the list of entries is there and ends well\<close>
  at_path_value :: "string option"  \<comment> \<open>the value of \<open>#[path = "..."]\<close>, if it is such an attribute\<close>

subsection \<open>Nodes\<close>

record signature =
  sg_ident :: string
  sg_unsafe :: bool
  sg_const :: bool
  sg_output :: return_type
  sg_output_tokens :: token_stream

datatype bin_op =
    OpEq | OpNe | OpAnd | OpOr | OpLt | OpGt | OpLe | OpGe
  | OpAdd | OpAddAssign | OpSub | OpSubAssign | OpMul | OpMulAssign | OpDiv | OpDivAssign
  | OpRem | OpRemAssign | OpShl | OpShlAssign | OpShr | OpShrAssign
  | OpBitAnd | OpBitAndAssign | OpBitOr | OpBitOrAssign | OpBitXor | OpBitXorAssign | OpOtherBin

datatype un_op = OpNot | OpNeg | OpDeref | OpOtherUn

text \<open>Comments tell which of the nodes below the code refers to by name.\<close>

datatype node_kind =
    KFile
  | KItemFn signature  \<comment> \<open>the last is the block\<close>
  | KImplItemFn signature  \<comment> \<open>the last is the block\<close>
  | KTraitItemFn signature bool  \<comment> \<open>whether there is a default, then the last is the block\<close>
  | KItemConst | KItemStatic | KImplItemConst | KTraitItemConst
  | KItemEnum string "(string \<times> bool) list"  \<comment> \<open>the variants, and which are unit variants\<close>
  | KItemMod string bool  \<comment> \<open>the name without \<open>r#\<close>, and whether there is content in braces\<close>
  | KItemImpl token_stream "(string list \<times> token_stream) option"  \<comment> \<open>the type, and the trait\<close>
  | KItemTrait string
  | KTypeArray
  | KGenericArgument bool  \<comment> \<open>whether it is a const argument\<close>
  | KPattern bool "string option"  \<comment> \<open>whether it is \<open>_\<close>, and the identifier if it is just that\<close>
  | KArm bool  \<comment> \<open>the pattern, the guard if there is one, the body\<close>
  | KFieldValue "string option" "span option"  \<comment> \<open>the name of a named field, and the comma after it\<close>
  | KBlock  \<comment> \<open>the statements\<close>
  | KStmtExpr "span option"  \<comment> \<open>the expression; the semicolon\<close>
  | KStmtLocal  \<comment> \<open>the pattern is the first\<close>
  | KCall  \<comment> \<open>the function, then the arguments\<close>
  | KMethodCall string  \<comment> \<open>the receiver is the first\<close>
  | KAssign  \<comment> \<open>left, right\<close>
  | KPath "string list" "string option"  \<comment> \<open>the identifiers of its segments, and \<open>get_ident\<close>\<close>
  | KField | KIndex | KParen  \<comment> \<open>the base is the first\<close>
  | KBinary bin_op span
  | KUnary un_op span  \<comment> \<open>the operand is the first\<close>
  | KIf  \<comment> \<open>condition, then branch, else branch\<close>
  | KWhile  \<comment> \<open>the condition is the first\<close>
  | KLet
  | KMatch  \<comment> \<open>the scrutinee, then the arms\<close>
  | KLit "bool option"  \<comment> \<open>the value of a boolean literal\<close>
  | KStruct token_stream bool  \<comment> \<open>the path, and whether there is a base expression\<close>
  | KClosure | KAsync
  | KReturn bool  \<comment> \<open>whether there is an expression, then it is the first\<close>
  | KBreak | KContinue
  | KExprOther
  | KOther

datatype node = Node (nd_id: nat) (nd_kind: node_kind) (nd_attrs: "attribute list") (nd_span: span)
  (nd_tokens: token_stream) (nd_kids: "node list")

definition is_expr :: "node \<Rightarrow> bool" where
  "is_expr n \<longleftrightarrow>
     (case nd_kind n of
        KCall \<Rightarrow> True | KMethodCall _ \<Rightarrow> True | KAssign \<Rightarrow> True | KPath _ _ \<Rightarrow> True | KField \<Rightarrow> True
      | KIndex \<Rightarrow> True | KParen \<Rightarrow> True | KBinary _ _ \<Rightarrow> True | KUnary _ _ \<Rightarrow> True | KIf \<Rightarrow> True
      | KWhile \<Rightarrow> True | KLet \<Rightarrow> True | KMatch \<Rightarrow> True | KLit _ \<Rightarrow> True | KStruct _ _ \<Rightarrow> True
      | KClosure \<Rightarrow> True | KAsync \<Rightarrow> True | KReturn _ \<Rightarrow> True | KBreak \<Rightarrow> True | KContinue \<Rightarrow> True
      | KExprOther \<Rightarrow> True | _ \<Rightarrow> False)"

definition is_block :: "node \<Rightarrow> bool" where
  "is_block n \<longleftrightarrow> nd_kind n = KBlock"

text \<open>A node and all nodes below it.\<close>

fun subnodes :: "node \<Rightarrow> node list" and subnodes_list :: "node list \<Rightarrow> node list" where
  "subnodes (Node i k as sp ts kids) = Node i k as sp ts kids # subnodes_list kids"
| "subnodes_list [] = []"
| "subnodes_list (n # ns) = subnodes n @ subnodes_list ns"

lemma subnodes_list_concat: "subnodes_list ns = concat (map subnodes ns)"
  by (induction ns) simp_all

lemma subnodes_self [simp]: "n \<in> set (subnodes n)"
  by (cases n) simp

lemma subnodes_trans:
  "m \<in> set (subnodes n) \<Longrightarrow> set (subnodes m) \<subseteq> set (subnodes n)"
  "m \<in> set (subnodes_list ns) \<Longrightarrow> set (subnodes m) \<subseteq> set (subnodes_list ns)"
  by (induction n and ns rule: subnodes_subnodes_list.induct) auto


lemma nd_kids_subnodes: "set (nd_kids n) \<subseteq> set (subnodes n)"
  by (cases n) (auto simp: subnodes_list_concat)

end
