(* ===== verification/Attributes.thy ===== *)
theory Attributes
  imports Syntax
begin

text \<open>
  What the visitor reads from attributes (the second half of \<open>src/src/visit.rs\<close>): whether a node is
  excluded, the patterns of \<open>mutants::exclude_re\<close>, and the path of a module.
\<close>

subsection \<open>Paths\<close>

definition path_is :: "string list \<Rightarrow> string list \<Rightarrow> bool" where
  "path_is p idents \<longleftrightarrow> p = idents"

definition path_ends_with :: "string list \<Rightarrow> string \<Rightarrow> bool" where
  "path_ends_with p ident \<longleftrightarrow> last_opt p = Some ident"

subsection \<open>Nested entries\<close>

text \<open>\<open>parse_nested_meta\<close>: the closure sees each entry in turn and may fail, or take the arguments in
  parentheses; what it leaves before the comma is an error.\<close>

datatype taken = Failed | LeftAlone | TookParens

fun run_nested :: "(nested_meta \<Rightarrow> 's \<Rightarrow> 's \<times> taken) \<Rightarrow> nested_meta list \<Rightarrow> bool \<Rightarrow> 's \<Rightarrow> 's \<times> bool" where
  "run_nested f [] ends_well s = (s, ends_well)"
| "run_nested f (m # ms) ends_well s =
     (case f m s of (s1, t) \<Rightarrow>
        if t = Failed \<or> nm_trailing m \<or> (is_ok (nm_parens m) \<and> t = LeftAlone) then (s1, False)
        else run_nested f ms ends_well s1)"

definition nested :: "attribute \<Rightarrow> (nested_meta \<Rightarrow> 's \<Rightarrow> 's \<times> taken) \<Rightarrow> 's \<Rightarrow> 's \<times> bool" where
  "nested a f s = run_nested f (at_nested a) (at_nested_ok a) s"

subsection \<open>Excluding attributes\<close>

definition attr_is_cfg_test :: "attribute \<Rightarrow> bool" where
  "attr_is_cfg_test a =
     (if \<not> path_is (at_path a) [''cfg''] then False
      else (case nested a (\<lambda>m contains_test. (contains_test \<or> nm_ident m = Some ''test'', LeftAlone)) False of
              (contains_test, ok) \<Rightarrow> if ok then contains_test else False))"

definition attr_is_test :: "attribute \<Rightarrow> bool" where
  "attr_is_test a \<longleftrightarrow> path_ends_with (at_path a) ''test''"

definition attr_is_mutants_skip :: "attribute \<Rightarrow> bool" where
  "attr_is_mutants_skip a =
     (if path_is (at_path a) [''mutants'', ''skip''] then True
      else if \<not> path_is (at_path a) [''cfg_attr''] then False
      else (case nested a (\<lambda>m skip. (skip \<or> path_is (nm_path m) [''mutants'', ''skip''], LeftAlone)) False of
              (skip, ok) \<Rightarrow> if ok then skip else False))"

definition attrs_excluded :: "attribute list \<Rightarrow> bool" where
  "attrs_excluded as = list_ex (\<lambda>a. attr_is_cfg_test a \<or> attr_is_test a \<or> attr_is_mutants_skip a) as"

subsection \<open>Patterns\<close>

definition one_literal :: "lit_args \<Rightarrow> (string, string) rresult" where
  "one_literal args =
     (case args of
        NoLiteral e \<Rightarrow> Err e
      | LitArg v another \<Rightarrow>
          if another then Err ''expected exactly one string literal argument to #[mutants::exclude_re]'' else Ok v)"

definition parse_exclude_re_args :: "attribute \<Rightarrow> (string, string) rresult" where
  "parse_exclude_re_args a = one_literal (at_args a)"

text \<open>The closure: the patterns so far and the first malformed entry.\<close>

definition exclude_re_meta ::
  "nested_meta \<Rightarrow> string list \<times> (span \<times> string) option \<Rightarrow> (string list \<times> (span \<times> string) option) \<times> taken" where
  "exclude_re_meta m s =
     (case s of (patterns, malformed) \<Rightarrow>
        if \<not> path_is (nm_path m) [''mutants'', ''exclude_re''] then (s, LeftAlone)
        else (case rbind (nm_parens m) one_literal of
                Ok pattern \<Rightarrow> ((patterns @ [pattern], malformed), TookParens)
              | Err e \<Rightarrow>
                  ((patterns, opt_or malformed
                      (Some (nm_span m, ''malformed #[mutants::exclude_re(...)] inside cfg_attr: '' @ e))), Failed)))"

definition collect_exclude_re_from_cfg_attr ::
  "attribute \<Rightarrow> string list \<Rightarrow> (span \<times> string, string list) rresult" where
  "collect_exclude_re_from_cfg_attr a patterns =
     (case nested a exclude_re_meta (patterns, None) of
        ((patterns1, Some e), _) \<Rightarrow> Err e
      | ((patterns1, None), _) \<Rightarrow> Ok patterns1)"

fun exclude_re_loop :: "attribute list \<Rightarrow> string list \<Rightarrow> (span \<times> string, string list) rresult" where
  "exclude_re_loop [] patterns = Ok patterns"
| "exclude_re_loop (a # as) patterns =
     (if path_is (at_path a) [''mutants'', ''exclude_re''] then
        (case parse_exclude_re_args a of
           Err e \<Rightarrow> Err (at_span a, ''malformed #[mutants::exclude_re(...)] attribute: '' @ e)
         | Ok pattern \<Rightarrow> exclude_re_loop as (patterns @ [pattern]))
      else if path_is (at_path a) [''cfg_attr''] then
        rbind (collect_exclude_re_from_cfg_attr a patterns) (exclude_re_loop as)
      else exclude_re_loop as patterns)"

definition attrs_exclude_re_patterns :: "attribute list \<Rightarrow> (span \<times> string, string list) rresult" where
  "attrs_exclude_re_patterns as = exclude_re_loop as []"

subsection \<open>The path of a module\<close>

fun find_path_attribute :: "attribute list \<Rightarrow> (string, path option) rresult" where
  "find_path_attribute [] = Ok None"
| "find_path_attribute (a # as) =
     (case at_path_value a of
        None \<Rightarrow> find_path_attribute as
      | Some p \<Rightarrow> if starts_with p ''/'' then Err p else Ok (Some p))"

subsection \<open>Nested conditions\<close>

text \<open>An entry with arguments of its own, as in \<open>#[cfg(all(test, unix))]\<close>, makes the attribute one that is not
  recognised, although it holds \<open>test\<close>.\<close>

lemma nested_condition_not_recognised:
  assumes "at_path a = [''cfg'']" "m \<in> set (at_nested a)" "is_ok (nm_parens m)"
  shows "\<not> attr_is_cfg_test a"
proof -
  have "\<not> snd (run_nested (\<lambda>m t. (t \<or> P m, LeftAlone)) ms e s)" if "m \<in> set ms" for ms e P and s :: bool
    using that assms(3) by (induction ms arbitrary: s) auto
  from this [OF assms(2)] show ?thesis
    by (auto simp: attr_is_cfg_test_def nested_def split_beta)
qed

end
