(* ===== verification/ControlFlow.thy ===== *)
theory ControlFlow
  imports Syntax
begin

text \<open>
  Whether \<open>return\<close>, \<open>break\<close> or \<open>continue\<close> occurs in a subtree (\<open>ControlFlowMemo\<close> in
  \<open>src/src/visit.rs\<close>), with the answers for expressions and for blocks remembered by the identity of
  the node.  The reference is the plain traversal without memory.
\<close>

subsection \<open>The plain traversal\<close>

definition or2 :: "bool \<times> bool \<Rightarrow> bool \<times> bool \<Rightarrow> bool \<times> bool" where
  "or2 a b = (fst a \<or> fst b, snd a \<or> snd b)"

definition leaf_flags :: "node_kind \<Rightarrow> (bool \<times> bool) option" where
  "leaf_flags k =
     (case k of
        KReturn _ \<Rightarrow> Some (True, False) | KBreak \<Rightarrow> Some (False, True) | KContinue \<Rightarrow> Some (False, True)
      | _ \<Rightarrow> None)"

fun flow :: "node \<Rightarrow> bool \<times> bool" and flow_list :: "node list \<Rightarrow> bool \<times> bool" where
  "flow (Node i k as sp ts kids) = (case leaf_flags k of Some f \<Rightarrow> f | None \<Rightarrow> flow_list kids)"
| "flow_list [] = (False, False)"
| "flow_list (n # ns) = or2 (flow n) (flow_list ns)"

subsection \<open>The traversal with memory\<close>

record flow_memo =
  cm_returns :: bool
  cm_loop_exits :: bool
  cm_exprs :: "nat \<Rightarrow> (bool \<times> bool) option"
  cm_blocks :: "nat \<Rightarrow> (bool \<times> bool) option"

definition empty_memo :: flow_memo where
  "empty_memo = \<lparr>cm_returns = False, cm_loop_exits = False, cm_exprs = (\<lambda>_. None), cm_blocks = (\<lambda>_. None)\<rparr>"

definition flags :: "flow_memo \<Rightarrow> bool \<times> bool" where
  "flags s = (cm_returns s, cm_loop_exits s)"

definition set_flags :: "bool \<times> bool \<Rightarrow> flow_memo \<Rightarrow> flow_memo" where
  "set_flags f s = s\<lparr>cm_returns := fst f, cm_loop_exits := snd f\<rparr>"

text \<open>\<open>query_expr\<close> and \<open>query_block\<close>, which differ in the map they use.\<close>

definition query ::
  "(bool \<times> bool) option \<Rightarrow> (bool \<times> bool \<Rightarrow> flow_memo \<Rightarrow> flow_memo) \<Rightarrow> (flow_memo \<Rightarrow> flow_memo)
     \<Rightarrow> flow_memo \<Rightarrow> flow_memo \<times> (bool \<times> bool)" where
  "query cached store walk s =
     (let (s1, mine) =
        (case cached of
           Some mine \<Rightarrow> (s, mine)
         | None \<Rightarrow>
             let outer = flags s;
                 s2 = walk (set_flags (False, False) s);
                 mine = flags s2
             in (set_flags outer (store mine s2), mine))
      in (set_flags (or2 (flags s1) mine) s1, mine))"

definition store_expr :: "nat \<Rightarrow> bool \<times> bool \<Rightarrow> flow_memo \<Rightarrow> flow_memo" where
  "store_expr i mine s = s\<lparr>cm_exprs := (cm_exprs s)(i \<mapsto> mine)\<rparr>"

definition store_block :: "nat \<Rightarrow> bool \<times> bool \<Rightarrow> flow_memo \<Rightarrow> flow_memo" where
  "store_block i mine s = s\<lparr>cm_blocks := (cm_blocks s)(i \<mapsto> mine)\<rparr>"

text \<open>The visitor: returns and loop exits are leaves.\<close>

fun flow_visit :: "node \<Rightarrow> flow_memo \<Rightarrow> flow_memo" and flow_visit_list :: "node list \<Rightarrow> flow_memo \<Rightarrow> flow_memo" where
  "flow_visit (Node i k as sp ts kids) s =
     (let walk = (\<lambda>s. case leaf_flags k of
                       Some f \<Rightarrow> set_flags (or2 (flags s) f) s
                     | None \<Rightarrow> flow_visit_list kids s)
      in if is_expr (Node i k as sp ts kids) then fst (query (cm_exprs s i) (store_expr i) walk s)
         else if is_block (Node i k as sp ts kids) then fst (query (cm_blocks s i) (store_block i) walk s)
         else walk s)"
| "flow_visit_list [] s = s"
| "flow_visit_list (n # ns) s = flow_visit_list ns (flow_visit n s)"

definition walk_node :: "node \<Rightarrow> flow_memo \<Rightarrow> flow_memo" where
  "walk_node n s =
     (case leaf_flags (nd_kind n) of
        Some f \<Rightarrow> set_flags (or2 (flags s) f) s
      | None \<Rightarrow> flow_visit_list (nd_kids n) s)"

definition query_expr :: "node \<Rightarrow> flow_memo \<Rightarrow> flow_memo \<times> (bool \<times> bool)" where
  "query_expr n s = query (cm_exprs s (nd_id n)) (store_expr (nd_id n)) (walk_node n) s"

definition query_block :: "node \<Rightarrow> flow_memo \<Rightarrow> flow_memo \<times> (bool \<times> bool)" where
  "query_block n s = query (cm_blocks s (nd_id n)) (store_block (nd_id n)) (walk_node n) s"

definition contains_control_flow :: "node \<Rightarrow> flow_memo \<Rightarrow> flow_memo \<times> bool" where
  "contains_control_flow e s =
     (case query_expr e s of (s1, returns, loop_exits) \<Rightarrow> (s1, returns \<or> loop_exits))"

definition block_contains_loop_exit :: "node \<Rightarrow> flow_memo \<Rightarrow> flow_memo \<times> bool" where
  "block_contains_loop_exit b s = (case query_block b s of (s1, r) \<Rightarrow> (s1, snd r))"

subsection \<open>Memory that agrees with the plain traversal\<close>

text \<open>No two expressions of the tree have the same identity, and no two blocks.\<close>

definition unique_ids :: "node \<Rightarrow> bool" where
  "unique_ids root \<longleftrightarrow>
     (\<forall>m\<in>set (subnodes root). \<forall>n\<in>set (subnodes root). nd_id m = nd_id n \<longrightarrow>
        ((is_expr m \<and> is_expr n) \<or> (is_block m \<and> is_block n)) \<longrightarrow> m = n)"

definition memo_ok :: "node \<Rightarrow> flow_memo \<Rightarrow> bool" where
  "memo_ok root s \<longleftrightarrow>
     (\<forall>n\<in>set (subnodes root). \<forall>v.
        (is_expr n \<longrightarrow> cm_exprs s (nd_id n) = Some v \<longrightarrow> v = flow n)
        \<and> (is_block n \<longrightarrow> cm_blocks s (nd_id n) = Some v \<longrightarrow> v = flow n))"

lemma memo_ok_empty [simp]: "memo_ok root empty_memo"
  by (simp add: memo_ok_def empty_memo_def)

lemma memo_ok_set_flags [simp]: "memo_ok root (set_flags f s) \<longleftrightarrow> memo_ok root s"
  by (simp add: memo_ok_def set_flags_def)

lemma flags_simps [simp]:
  "flags (set_flags f s) = f" "flags (store_expr i v s) = flags s" "flags (store_block i v s) = flags s"
  by (simp_all add: flags_def set_flags_def store_expr_def store_block_def)

lemma or2_simps [simp]: "or2 (False, False) f = f" "or2 f (False, False) = f" "or2 (or2 a b) c = or2 a (or2 b c)"
  by (simp_all add: or2_def)

lemma memo_ok_store:
  assumes "unique_ids root" "n \<in> set (subnodes root)" "memo_ok root s"
  shows "is_expr n \<Longrightarrow> memo_ok root (store_expr (nd_id n) (flow n) s)"
    "is_block n \<Longrightarrow> memo_ok root (store_block (nd_id n) (flow n) s)"
  using assms by (fastforce simp: memo_ok_def unique_ids_def store_expr_def store_block_def)+

text \<open>A walk that adds the flags of a node to those seen, and keeps the memory right.\<close>

definition adds_flow :: "node \<Rightarrow> (flow_memo \<Rightarrow> flow_memo) \<Rightarrow> bool \<times> bool \<Rightarrow> bool" where
  "adds_flow root walk f \<longleftrightarrow>
     (\<forall>s. memo_ok root s \<longrightarrow> memo_ok root (walk s) \<and> flags (walk s) = or2 (flags s) f)"

lemma query_adds_flow:
  assumes "memo_ok root s" "adds_flow root walk f" "cached \<noteq> None \<Longrightarrow> cached = Some f"
    and "\<And>s. memo_ok root s \<Longrightarrow> memo_ok root (store f s)" "\<And>s. flags (store f s) = flags s"
  shows "memo_ok root (fst (query cached store walk s))
    \<and> flags (fst (query cached store walk s)) = or2 (flags s) f \<and> snd (query cached store walk s) = f"
proof (cases cached)
  case None
  have "memo_ok root (walk (set_flags (False, False) s))" "flags (walk (set_flags (False, False) s)) = f"
    using assms(1,2) by (simp_all add: adds_flow_def)
  with None assms(4,5) show ?thesis by (simp add: query_def Let_def)
next
  case (Some mine)
  with assms(1,3) show ?thesis by (simp add: query_def)
qed

lemma flow_visit_adds:
  assumes "unique_ids root"
  shows "n \<in> set (subnodes root) \<Longrightarrow> adds_flow root (flow_visit n) (flow n)"
    and "set (subnodes_list ns) \<subseteq> set (subnodes root) \<Longrightarrow> adds_flow root (flow_visit_list ns) (flow_list ns)"
proof (induction n and ns rule: flow_flow_list.induct)
  case (1 i k as sp ts kids)
  let ?n = "Node i k as sp ts kids"
  let ?walk = "\<lambda>s. case leaf_flags k of Some f \<Rightarrow> set_flags (or2 (flags s) f) s | None \<Rightarrow> flow_visit_list kids s"
  have kids: "set (subnodes_list kids) \<subseteq> set (subnodes root)"
    using subnodes_trans(1) [OF 1(2)] by auto
  have walk: "adds_flow root ?walk (flow ?n)"
    using 1(1) [OF _ kids] by (cases "leaf_flags k") (auto simp: adds_flow_def)
  note store = memo_ok_store [OF assms 1(2)]
  have cached: "is_expr ?n \<Longrightarrow> cm_exprs s i \<noteq> None \<Longrightarrow> cm_exprs s i = Some (flow ?n)"
    "is_block ?n \<Longrightarrow> cm_blocks s i \<noteq> None \<Longrightarrow> cm_blocks s i = Some (flow ?n)" if "memo_ok root s" for s
    using that 1(2) by (force simp: memo_ok_def)+
  show ?case unfolding adds_flow_def
  proof (intro allI impI)
    fix s assume ok: "memo_ok root s"
    show "memo_ok root (flow_visit ?n s) \<and> flags (flow_visit ?n s) = or2 (flags s) (flow ?n)"
      using query_adds_flow [OF ok walk cached(1) [OF ok], of "store_expr i"]
        query_adds_flow [OF ok walk cached(2) [OF ok], of "store_block i"] store walk ok
      by (auto simp: Let_def adds_flow_def simp del: flow.simps)
  qed
next
  case (3 n ns)
  from "3.prems" have "n \<in> set (subnodes root)" using subnodes_self [of n] by (simp del: subnodes_self) blast
  with 3 have "adds_flow root (flow_visit n) (flow n)" "adds_flow root (flow_visit_list ns) (flow_list ns)"
    by simp_all
  then show ?case by (simp add: adds_flow_def)
qed (simp add: adds_flow_def)

lemma walk_node_adds:
  assumes "unique_ids root" "n \<in> set (subnodes root)"
  shows "adds_flow root (walk_node n) (flow n)"
proof (cases n)
  case (Node i k as sp ts kids)
  have "set (subnodes_list kids) \<subseteq> set (subnodes root)"
    using subnodes_trans(1) [OF assms(2)] Node by auto
  from flow_visit_adds(2) [OF assms(1) this] show ?thesis
    by (cases "leaf_flags k") (auto simp: Node walk_node_def adds_flow_def)
qed

lemma query_expr_flow:
  assumes "unique_ids root" "e \<in> set (subnodes root)" "is_expr e" "memo_ok root s"
  shows "memo_ok root (fst (query_expr e s)) \<and> snd (query_expr e s) = flow e"
proof -
  have "cm_exprs s (nd_id e) \<noteq> None \<Longrightarrow> cm_exprs s (nd_id e) = Some (flow e)"
    using assms by (auto simp: memo_ok_def)
  from query_adds_flow [OF assms(4) walk_node_adds [OF assms(1,2)] this, of "store_expr (nd_id e)"]
  show ?thesis using memo_ok_store(1) [OF assms(1,2)] assms(3) by (simp add: query_expr_def)
qed

lemma query_block_flow:
  assumes "unique_ids root" "b \<in> set (subnodes root)" "is_block b" "memo_ok root s"
  shows "memo_ok root (fst (query_block b s)) \<and> snd (query_block b s) = flow b"
proof -
  have "cm_blocks s (nd_id b) \<noteq> None \<Longrightarrow> cm_blocks s (nd_id b) = Some (flow b)"
    using assms by (auto simp: memo_ok_def)
  from query_adds_flow [OF assms(4) walk_node_adds [OF assms(1,2)] this, of "store_block (nd_id b)"]
  show ?thesis using memo_ok_store(2) [OF assms(1,2)] assms(3) by (simp add: query_block_def)
qed

text \<open>A \<open>return\<close>, \<open>break\<close> or \<open>continue\<close> that the plain traversal can reach: not below another of
  them.\<close>

fun reaches :: "(node_kind \<Rightarrow> bool) \<Rightarrow> node \<Rightarrow> bool" and reaches_list :: "(node_kind \<Rightarrow> bool) \<Rightarrow> node list \<Rightarrow> bool" where
  "reaches P (Node i k as sp ts kids) = (if leaf_flags k \<noteq> None then P k else reaches_list P kids)"
| "reaches_list P [] = False"
| "reaches_list P (n # ns) = (reaches P n \<or> reaches_list P ns)"

definition is_return :: "node_kind \<Rightarrow> bool" where
  "is_return k \<longleftrightarrow> (case k of KReturn _ \<Rightarrow> True | _ \<Rightarrow> False)"

definition is_loop_exit :: "node_kind \<Rightarrow> bool" where
  "is_loop_exit k \<longleftrightarrow> (case k of KBreak \<Rightarrow> True | KContinue \<Rightarrow> True | _ \<Rightarrow> False)"

lemma flow_reaches:
  "flow n = (reaches is_return n, reaches is_loop_exit n)"
  "flow_list ns = (reaches_list is_return ns, reaches_list is_loop_exit ns)"
proof (induction n and ns rule: flow_flow_list.induct)
  case (1 i k as sp ts kids)
  then show ?case
    by (cases k) (simp_all add: leaf_flags_def is_return_def is_loop_exit_def)
qed (simp_all add: or2_def)

lemma contains_control_flow_right:
  assumes "unique_ids root" "memo_ok root s" "e \<in> set (subnodes root)" "is_expr e"
  shows "snd (contains_control_flow e s) = (reaches is_return e \<or> reaches is_loop_exit e)"
    "memo_ok root (fst (contains_control_flow e s))"
  using query_expr_flow [OF assms(1,3,4,2)]
  by (simp_all add: contains_control_flow_def flow_reaches split_beta)

lemma block_contains_loop_exit_right:
  assumes "unique_ids root" "memo_ok root s" "b \<in> set (subnodes root)" "is_block b"
  shows "snd (block_contains_loop_exit b s) = reaches is_loop_exit b"
    "memo_ok root (fst (block_contains_loop_exit b s))"
  using query_block_flow [OF assms(1,3,4,2)]
  by (simp_all add: block_contains_loop_exit_def flow_reaches split_beta)

text \<open>C27: The questions that the visitor asks about control flow have the same answers with the memory
  as with a fresh traversal of the node: whatever was asked before, in whatever order, an expression
  is said to contain control flow exactly when a \<open>return\<close>, \<open>break\<close> or \<open>continue\<close> can be reached in it,
  a block to contain a loop exit exactly when a \<open>break\<close> or \<open>continue\<close> can, and the memory stays right
  for every node of the file.  It takes that no two expressions of the file, and no two blocks, have
  the same identity.\<close>

theorem control_flow_memo_is_plain:
  assumes "unique_ids root" "memo_ok root s"
  shows "(\<forall>e \<in> set (subnodes root). is_expr e \<longrightarrow>
      snd (contains_control_flow e s) = (reaches is_return e \<or> reaches is_loop_exit e)
      \<and> memo_ok root (fst (contains_control_flow e s)))
    \<and> (\<forall>b \<in> set (subnodes root). is_block b \<longrightarrow>
      snd (block_contains_loop_exit b s) = reaches is_loop_exit b
      \<and> memo_ok root (fst (block_contains_loop_exit b s)))"
  by (simp add: contains_control_flow_right [OF assms] block_contains_loop_exit_right [OF assms])

subsection \<open>An example\<close>

definition example_span :: span where
  "example_span = quad 1 1 1 1"

definition plain_node :: "nat \<Rightarrow> node_kind \<Rightarrow> node list \<Rightarrow> node" where
  "plain_node i k kids = Node i k [] example_span [] kids"

text \<open>\<open>{ f(break); return 0; }\<close>\<close>

definition example_call :: node where
  "example_call = plain_node 2 KCall [plain_node 3 (KPath [''f''] (Some ''f'')) [], plain_node 4 KBreak []]"

definition example_block :: node where
  "example_block =
     plain_node 0 KBlock
       [plain_node 1 (KStmtExpr (Some example_span)) [example_call],
        plain_node 5 (KStmtExpr (Some example_span)) [plain_node 6 (KReturn True) [plain_node 7 (KLit None) []]]]"

lemma control_flow_memo_is_plain_witness:
  "snd (contains_control_flow example_call (fst (block_contains_loop_exit example_block empty_memo)))
   \<and> snd (block_contains_loop_exit example_block empty_memo)"
proof -
  have ids: "unique_ids example_block"
    by (simp add: unique_ids_def example_block_def example_call_def plain_node_def is_expr_def is_block_def)
  have mem: "example_call \<in> set (subnodes example_block)" "is_expr example_call" "is_block example_block"
    by (simp_all add: example_block_def example_call_def plain_node_def is_expr_def is_block_def)
  have "reaches is_loop_exit example_call" "reaches is_loop_exit example_block"
    by (simp_all add: example_block_def example_call_def plain_node_def leaf_flags_def is_loop_exit_def)
  moreover have "memo_ok example_block (fst (block_contains_loop_exit example_block empty_memo))"
    "snd (block_contains_loop_exit example_block empty_memo) = reaches is_loop_exit example_block"
    using control_flow_memo_is_plain [OF ids memo_ok_empty] mem(3) subnodes_self by blast+
  ultimately show ?thesis
    using control_flow_memo_is_plain [OF ids, of "fst (block_contains_loop_exit example_block empty_memo)"]
      mem(1,2) by simp
qed

end
