(* ===== verification/FnValue.thy ===== *)
theory FnValue
  imports Syntax
begin

text \<open>
  Values to replace a function body with, from its return type (\<open>src/src/fnvalue.rs\<close>).  A
  replacement is the token stream that \<open>quote!\<close> builds.  \<open>gi\<close> is \<open>Path::get_ident\<close> of \<open>syn\<close>.
\<close>

subsection \<open>Token streams that quote! builds\<close>

definition colons :: token_stream where
  "colons = [Punct CHR '':'', Punct CHR '':'']"

definition path2 :: "string \<Rightarrow> string \<Rightarrow> token_stream" where
  "path2 a b = Ident a # colons @ [Ident b]"

definition parens :: "token_stream \<Rightarrow> token_tree" where
  "parens ts = Group Parenthesis ts"

definition brackets :: "token_stream \<Rightarrow> token_tree" where
  "brackets ts = Group Bracket ts"

definition call :: "token_stream \<Rightarrow> token_stream \<Rightarrow> token_stream" where
  "call f as = f @ [parens as]"

definition method_call :: "token_stream \<Rightarrow> string \<Rightarrow> token_stream" where
  "method_call r m = r @ [Punct CHR ''.'', Ident m, parens []]"

definition str_lit :: "string \<Rightarrow> token_tree" where
  "str_lit s = Literal ([CHR 0x22] @ s @ [CHR 0x22])"

definition char_lit :: "string \<Rightarrow> token_tree" where
  "char_lit s = Literal ([CHR 0x27] @ s @ [CHR 0x27])"

definition vec_of :: "token_stream \<Rightarrow> token_stream" where
  "vec_of ts = [Ident ''vec'', Punct CHR ''!'', brackets ts]"

definition default_value :: token_stream where
  "default_value = call (path2 ''Default'' ''default'') []"

definition minus_one :: token_stream where
  "minus_one = [Punct CHR ''-'', Literal ''1'']"

definition nonzero :: "token_stream \<Rightarrow> token_stream" where
  "nonzero v = method_call (method_call v ''try_into'') ''unwrap''"

definition std_iter :: "string \<Rightarrow> token_stream" where
  "std_iter f = colons @ Ident ''std'' # colons @ path2 ''iter'' f"

subsection \<open>Enums of the file\<close>

type_synonym enum_index = "string \<Rightarrow> string list option"

fun add_items :: "node list \<Rightarrow> enum_index \<Rightarrow> enum_index" where
  "add_items [] index = index"
| "add_items (Node i k as sp ts kids # items) index =
     add_items items
       (case k of
          KItemEnum name variants \<Rightarrow>
            (let unit_variants = map fst (filter snd variants) in
             if unit_variants \<noteq> [] then index(name \<mapsto> unit_variants) else index)
        | KItemMod _ content \<Rightarrow> if content then add_items kids index else index
        | _ \<Rightarrow> index)"

definition enums_from_file :: "node \<Rightarrow> enum_index" where
  "enums_from_file file = add_items (nd_kids file) (\<lambda>_. None)"

definition last_segment :: "syn_path \<Rightarrow> path_segment option" where
  "last_segment p = last_opt (segments p)"

definition last_ident :: "syn_path \<Rightarrow> string option" where
  "last_ident p = map_option seg_ident (last_segment p)"

definition unit_variants :: "enum_index \<Rightarrow> syn_path \<Rightarrow> (string \<times> string list) option" where
  "unit_variants enums p =
     (case last_ident p of
        None \<Rightarrow> None
      | Some i \<Rightarrow> map_option (\<lambda>vs. (i, vs)) (enums i))"

subsection \<open>Recognising types\<close>

definition type_path_ends_with :: "syn_path \<Rightarrow> string \<Rightarrow> bool" where
  "type_path_ends_with p i \<longleftrightarrow> last_ident p = Some i"

definition path_ident_in :: "syn_path \<Rightarrow> string list \<Rightarrow> string option" where
  "path_ident_in p names =
     (case last_ident p of None \<Rightarrow> None | Some i \<Rightarrow> if i \<in> set names then Some i else None)"

text \<open>The arguments in angle brackets of the last segment.\<close>

definition last_args :: "syn_path \<Rightarrow> generic_argument list option" where
  "last_args p =
     (case last_segment p of
        None \<Rightarrow> None
      | Some s \<Rightarrow> (case seg_arguments s of AngleBracketed as \<Rightarrow> Some as | _ \<Rightarrow> None))"

definition arg_type :: "generic_argument \<Rightarrow> syn_type option" where
  "arg_type a = (case a of ArgType t \<Rightarrow> Some t | _ \<Rightarrow> None)"

fun first_type_arg :: "generic_argument list \<Rightarrow> syn_type option" where
  "first_type_arg [] = None"
| "first_type_arg (ArgType t # as) = Some t"
| "first_type_arg (ArgLifetime # as) = first_type_arg as"
| "first_type_arg (_ # as) = None"

definition match_first_type_arg :: "syn_path \<Rightarrow> string \<Rightarrow> syn_type option" where
  "match_first_type_arg p expected =
     (if type_path_ends_with p expected
      then (case last_args p of None \<Rightarrow> None | Some as \<Rightarrow> first_type_arg as) else None)"

definition match_nth_type_arg :: "syn_path \<Rightarrow> string \<Rightarrow> nat \<Rightarrow> syn_type option" where
  "match_nth_type_arg p expected index =
     (if type_path_ends_with p expected
      then (case last_args p of None \<Rightarrow> None | Some as \<Rightarrow> get_opt (List.map_filter arg_type as) index)
      else None)"

definition single_type_arg :: "generic_argument list \<Rightarrow> syn_type option" where
  "single_type_arg as = (case as of [ArgType t] \<Rightarrow> Some t | _ \<Rightarrow> None)"

definition known_one_arg :: "string list \<Rightarrow> syn_path \<Rightarrow> (string \<times> syn_type) option" where
  "known_one_arg names p =
     (case (path_ident_in p names, last_args p) of
        (Some i, Some as) \<Rightarrow> map_option (\<lambda>t. (i, t)) (single_type_arg as)
      | _ \<Rightarrow> None)"

definition known_container :: "syn_path \<Rightarrow> (string \<times> syn_type) option" where
  "known_container p = known_one_arg [''Box'', ''Cell'', ''RefCell'', ''Arc'', ''Rc'', ''Mutex''] p"

definition known_collection :: "syn_path \<Rightarrow> (string \<times> syn_type) option" where
  "known_collection p =
     known_one_arg [''BinaryHeap'', ''BTreeSet'', ''HashSet'', ''LinkedList'', ''VecDeque''] p"

definition known_map :: "syn_path \<Rightarrow> (string \<times> syn_type \<times> syn_type) option" where
  "known_map p =
     (case (path_ident_in p [''BTreeMap'', ''HashMap''], last_args p) of
        (Some i, Some [ArgType k, ArgType v]) \<Rightarrow> Some (i, k, v)
      | _ \<Rightarrow> None)"

definition maybe_collection_or_container :: "syn_path \<Rightarrow> (string \<times> syn_type) option" where
  "maybe_collection_or_container p =
     (case (last_ident p, last_args p) of
        (Some i, Some as) \<Rightarrow> (case List.map_filter arg_type as of [t] \<Rightarrow> Some (i, t) | _ \<Rightarrow> None)
      | _ \<Rightarrow> None)"

fun match_impl_iterator :: "type_bound list \<Rightarrow> syn_type option" where
  "match_impl_iterator [] = None"
| "match_impl_iterator (BoundTrait p # bs) =
     (case (last_ident p, last_args p) of
        (Some i, Some (ArgAssocType a t # _)) \<Rightarrow>
          if i = ''Iterator'' \<and> a = ''Item'' then Some t else match_impl_iterator bs
      | _ \<Rightarrow> match_impl_iterator bs)"
| "match_impl_iterator (BoundOther # bs) = match_impl_iterator bs"

type_synonym get_ident = "syn_path \<Rightarrow> string option"

definition ident_in :: "get_ident \<Rightarrow> syn_path \<Rightarrow> string list \<Rightarrow> bool" where
  "ident_in gi p names \<longleftrightarrow> (case gi p of None \<Rightarrow> False | Some i \<Rightarrow> i \<in> set names)"

definition path_is_float :: "get_ident \<Rightarrow> syn_path \<Rightarrow> bool" where
  "path_is_float gi p \<longleftrightarrow> ident_in gi p [''f32'', ''f64'']"

definition path_is_unsigned :: "get_ident \<Rightarrow> syn_path \<Rightarrow> bool" where
  "path_is_unsigned gi p \<longleftrightarrow> ident_in gi p [''u8'', ''u16'', ''u32'', ''u64'', ''u128'', ''usize'']"

definition path_is_signed :: "get_ident \<Rightarrow> syn_path \<Rightarrow> bool" where
  "path_is_signed gi p \<longleftrightarrow> ident_in gi p [''i8'', ''i16'', ''i32'', ''i64'', ''i128'', ''isize'']"

definition path_is_nonzero_signed :: "syn_path \<Rightarrow> bool" where
  "path_is_nonzero_signed p \<longleftrightarrow>
     path_ident_in p [''NonZeroIsize'', ''NonZeroI8'', ''NonZeroI16'', ''NonZeroI32'', ''NonZeroI64'', ''NonZeroI128'']
       \<noteq> None"

definition path_is_nonzero_unsigned :: "syn_path \<Rightarrow> bool" where
  "path_is_nonzero_unsigned p \<longleftrightarrow>
     path_ident_in p [''NonZeroUsize'', ''NonZeroU8'', ''NonZeroU16'', ''NonZeroU32'', ''NonZeroU64'', ''NonZeroU128'']
       \<noteq> None"

definition path_is_cmp_ordering :: "syn_path \<Rightarrow> bool" where
  "path_is_cmp_ordering p \<longleftrightarrow>
     type_path_ends_with p ''Ordering'' \<and> ''atomic'' \<notin> set (map seg_ident (segments p))"

definition is_simply_constructible :: "get_ident \<Rightarrow> syn_type \<Rightarrow> bool" where
  "is_simply_constructible gi t \<longleftrightarrow>
     (case t of
        TypePath p \<Rightarrow> ident_in gi p [''bool'', ''String'', ''str'', ''char''] \<or> path_is_unsigned gi p
          \<or> path_is_signed gi p \<or> path_is_float gi p
      | TypeReference m (TypePath p) \<Rightarrow> gi p = Some ''str''
      | _ \<Rightarrow> False)"

subsection \<open>Replacements\<close>

text \<open>The types without arguments, in the order of the tests, up to the first one with arguments.\<close>

definition plain_replacements :: "get_ident \<Rightarrow> syn_path \<Rightarrow> token_stream list option" where
  "plain_replacements gi p =
     (if gi p = Some ''bool'' then Some [[Ident ''true''], [Ident ''false'']]
      else if gi p = Some ''String''
        then Some [call (path2 ''String'' ''new'') [], method_call [str_lit ''xyzzy''] ''into'']
      else if gi p = Some ''str'' then Some [[str_lit ''''], [str_lit ''xyzzy'']]
      else if gi p = Some ''char'' then Some [[char_lit [CHR 0x5C, CHR ''0'']], [char_lit ''x'']]
      else case path_ident_in p [''PathBuf'', ''Utf8PathBuf''] of
        Some i \<Rightarrow> Some [call (path2 i ''new'') [], call (path2 i ''from'') [str_lit ''xyzzy'']]
      | None \<Rightarrow>
        if type_path_ends_with p ''OsString''
          then Some [call (path2 ''OsString'' ''new'') [], call (path2 ''OsString'' ''from'') [str_lit ''xyzzy'']]
        else if type_path_ends_with p ''Duration''
          then Some [path2 ''Duration'' ''ZERO'', call (path2 ''Duration'' ''from_secs'') [Literal ''1'']]
        else if path_is_unsigned gi p then Some [[Literal ''0''], [Literal ''1'']]
        else if path_is_signed gi p then Some [[Literal ''0''], [Literal ''1''], minus_one]
        else if path_is_nonzero_signed p then Some [nonzero [Literal ''1''], nonzero [parens minus_one]]
        else if path_is_nonzero_unsigned p then Some [nonzero [Literal ''1'']]
        else case match_first_type_arg p ''NonZero'' of
          Some inner \<Rightarrow>
            (case inner of
               TypePath q \<Rightarrow>
                 if path_is_unsigned gi q then Some [nonzero [Literal ''1'']]
                 else Some [nonzero [Literal ''1''], nonzero [parens minus_one]]
             | _ \<Rightarrow> Some [nonzero [Literal ''1''], nonzero [parens minus_one]])
        | None \<Rightarrow>
          if path_is_float gi p
            then Some [[Literal ''0.0''], [Literal ''1.0''], [Punct CHR ''-'', Literal ''1.0'']]
          else if path_is_cmp_ordering p
            then Some [path2 ''Ordering'' ''Less'', path2 ''Ordering'' ''Equal'', path2 ''Ordering'' ''Greater'']
          else None)"

text \<open>\<open>multi_cartesian_product\<close>: the last component varies fastest.\<close>

definition tuple_of :: "token_stream list \<Rightarrow> token_stream" where
  "tuple_of reps =
     [parens (case reps of [] \<Rightarrow> [] | r # rs \<Rightarrow> r @ concat (map (\<lambda>x. Punct CHR '','' # x) rs))]"

definition leaked_vec :: "token_stream \<Rightarrow> token_stream" where
  "leaked_vec v = call (path2 ''Vec'' ''leak'') v"

definition leaked_box :: "token_stream \<Rightarrow> token_stream" where
  "leaked_box v = call (path2 ''Box'' ''leak'') (call (path2 ''Box'' ''new'') v)"

definition slice_replacements :: "token_stream list \<Rightarrow> token_stream list" where
  "slice_replacements reps =
     leaked_vec (call (path2 ''Vec'' ''new'') []) # map (\<lambda>r. leaked_vec (vec_of r)) reps"

text \<open>Arrays and \<open>impl Iterator\<close>, from the replacements of what they hold.\<close>

definition array_replacements :: "token_stream \<Rightarrow> token_stream list \<Rightarrow> token_stream list" where
  "array_replacements len reps = map (\<lambda>r. [brackets (r @ [Punct CHR '';''] @ len)]) reps"

definition impl_iterator_replacements :: "token_stream list option \<Rightarrow> token_stream list" where
  "impl_iterator_replacements item_reps =
     (case item_reps of
        Some reps \<Rightarrow> call (std_iter ''empty'') [] # map (call (std_iter ''once'')) reps
      | None \<Rightarrow> [])"

text \<open>References: to a \<open>str\<close>, to a slice with the replacements of its elements, or to anything else.\<close>

definition reference_replacements ::
  "bool \<Rightarrow> bool \<Rightarrow> token_stream list option \<Rightarrow> token_stream list \<Rightarrow> token_stream list" where
  "reference_replacements mutable is_str slice_reps reps =
     (case slice_reps of
        Some elem_reps \<Rightarrow> slice_replacements elem_reps
      | None \<Rightarrow>
          if \<not> mutable \<and> is_str then [[str_lit []], [str_lit ''xyzzy'']]
          else map leaked_box reps)"

lemmas wrapped_replacements [simp] =
  array_replacements_def impl_iterator_replacements_def reference_replacements_def

lemma first_type_arg_size: "first_type_arg as = Some t \<Longrightarrow> size t < size_list size as"
  by (induction as rule: first_type_arg.induct) auto

lemma arg_type_size: "t \<in> set (List.map_filter arg_type as) \<Longrightarrow> size t < size_list size as"
  by (induction as)
    (auto simp: List.map_filter_simps arg_type_def split: option.splits generic_argument.splits)

lemma last_args_size:
  assumes "last_args p = Some as"
  shows "size_list size as < size p"
proof -
  obtain c ss where p: "p = SynPath c ss" by (cases p)
  from assms obtain s where s: "s \<in> set ss" "seg_arguments s = AngleBracketed as"
    by (auto simp: p last_args_def last_segment_def dest: last_opt_Some split: option.splits path_arguments.splits)
  from s(2) have "size_list size as < size s" by (cases s rule: path_segment.exhaust) simp
  moreover have "size s \<le> size_list size ss" using s(1) by (simp add: size_list_estimation')
  ultimately show ?thesis by (simp add: p)
qed

lemma type_arg_sizes [termination_simp]:
  "match_first_type_arg p n = Some t \<Longrightarrow> size t < size p"
  "match_nth_type_arg p n i = Some t \<Longrightarrow> size t < size p"
  "known_container p = Some (s, t) \<Longrightarrow> size t < size p"
  "known_collection p = Some (s, t) \<Longrightarrow> size t < size p"
  "known_map p = Some (s, t, u) \<Longrightarrow> size t < size p"
  "known_map p = Some (s, t, u) \<Longrightarrow> size u < size p"
  "maybe_collection_or_container p = Some (s, t) \<Longrightarrow> size t < size p"
proof -
  note l = last_args_size [of p]
  show "size t < size p" if m: "match_first_type_arg p n = Some t"
  proof -
    from m obtain as where as: "last_args p = Some as" "first_type_arg as = Some t"
      by (auto simp: match_first_type_arg_def split: option.splits if_splits)
    from l [OF as(1)] first_type_arg_size [OF as(2)] show ?thesis by simp
  qed
  show "size t < size p" if m: "match_nth_type_arg p n i = Some t"
  proof -
    from m obtain as where as: "last_args p = Some as" "get_opt (List.map_filter arg_type as) i = Some t"
      by (auto simp: match_nth_type_arg_def split: option.splits if_splits)
    have "size t < size_list size as" by (rule arg_type_size) (use as(2) in \<open>auto simp: get_opt_Some\<close>)
    with l [OF as(1)] show ?thesis by simp
  qed
  have single: "single_type_arg as = Some t \<Longrightarrow> as = [ArgType t]" for as t
    by (simp add: single_type_arg_def split: list.splits generic_argument.splits)
  have one: "known_one_arg ns p = Some (s, t) \<Longrightarrow> size t < size p" for ns
    using l by (auto simp: known_one_arg_def split: option.splits dest!: single)
  show "known_container p = Some (s, t) \<Longrightarrow> size t < size p" by (simp add: known_container_def one)
  show "known_collection p = Some (s, t) \<Longrightarrow> size t < size p" by (simp add: known_collection_def one)
  have map: "known_map p = Some (s, t, u) \<Longrightarrow> last_args p = Some [ArgType t, ArgType u]"
    by (simp add: known_map_def split: option.splits list.splits generic_argument.splits)
  show "known_map p = Some (s, t, u) \<Longrightarrow> size t < size p" "known_map p = Some (s, t, u) \<Longrightarrow> size u < size p"
    using l by (auto dest!: map)
  have maybe: "maybe_collection_or_container p = Some (s, t)
      \<Longrightarrow> \<exists>as. last_args p = Some as \<and> List.map_filter arg_type as = [t]"
    by (simp add: maybe_collection_or_container_def split: option.splits list.splits)
  show "size t < size p" if m: "maybe_collection_or_container p = Some (s, t)"
  proof -
    from maybe [OF m] obtain as where as: "last_args p = Some as" "List.map_filter arg_type as = [t]" by blast
    have "size t < size_list size as" by (rule arg_type_size) (simp add: as(2))
    with l [OF as(1)] show ?thesis by simp
  qed
qed

lemma match_impl_iterator_size [termination_simp]:
  "match_impl_iterator bs = Some t \<Longrightarrow> size t < size_list size bs"
proof (induction bs rule: match_impl_iterator.induct)
  case (2 p bs)
  then show ?case
    using last_args_size [of p] by (force split: option.splits list.splits generic_argument.splits if_splits)
qed auto

text \<open>Which of the forms with arguments a path is, or the replacements of one without: the chain of tests
  of \<open>type_replacements\<close>.\<close>

datatype path_form =
    FormPlain "token_stream list"
  | FormResult "syn_type option" "syn_type option"  \<comment> \<open>the value, and the error if its values are known\<close>
  | FormOption syn_type
  | FormVec syn_type
  | FormCow syn_type
  | FormContainer string syn_type
  | FormCollection string syn_type
  | FormMap string syn_type syn_type
  | FormMaybe string syn_type

definition result_error :: "get_ident \<Rightarrow> syn_path \<Rightarrow> syn_type option" where
  "result_error gi p =
     (case match_nth_type_arg p ''Result'' 1 of
        Some t \<Rightarrow> if is_simply_constructible gi t then Some t else None
      | None \<Rightarrow> None)"

definition container_form :: "enum_index \<Rightarrow> syn_path \<Rightarrow> path_form" where
  "container_form enums p =
     (case known_container p of
        Some (c, t) \<Rightarrow> FormContainer c t
      | None \<Rightarrow> case known_collection p of
        Some (c, t) \<Rightarrow> FormCollection c t
      | None \<Rightarrow> case known_map p of
        Some (c, k, v) \<Rightarrow> FormMap c k v
      | None \<Rightarrow> case maybe_collection_or_container p of
        Some (c, t) \<Rightarrow> FormMaybe c t
      | None \<Rightarrow> case unit_variants enums p of
        Some (i, vs) \<Rightarrow> FormPlain (map (path2 i) vs)
      | None \<Rightarrow> FormPlain [default_value])"

definition path_form :: "get_ident \<Rightarrow> enum_index \<Rightarrow> syn_path \<Rightarrow> path_form" where
  "path_form gi enums p =
     (case plain_replacements gi p of
        Some reps \<Rightarrow> FormPlain reps
      | None \<Rightarrow>
        if type_path_ends_with p ''Result''
          then FormResult (match_first_type_arg p ''Result'') (result_error gi p)
        else if type_path_ends_with p ''HttpResponse''
          then FormPlain [method_call (call (path2 ''HttpResponse'' ''Ok'') []) ''finish'']
        else case match_first_type_arg p ''Option'' of
          Some t \<Rightarrow> FormOption t
        | None \<Rightarrow> case match_first_type_arg p ''Vec'' of
          Some t \<Rightarrow> FormVec t
        | None \<Rightarrow> case match_first_type_arg p ''Cow'' of
          Some t \<Rightarrow> FormCow t
        | None \<Rightarrow>
          if path_ident_in p [''Pin'', ''NonNull''] \<noteq> None then FormPlain []
          else if path_ident_in p [''Instant'', ''SystemTime''] \<noteq> None then FormPlain []
          else if path_ident_in p [''Range''] \<noteq> None then FormPlain [default_value]
          else container_form enums p)"

fun form_types :: "path_form \<Rightarrow> syn_type list" where
  "form_types (FormPlain reps) = []"
| "form_types (FormResult ok_type err_type) =
     (case ok_type of Some t \<Rightarrow> [t] | None \<Rightarrow> []) @ (case err_type of Some t \<Rightarrow> [t] | None \<Rightarrow> [])"
| "form_types (FormOption t) = [t]"
| "form_types (FormVec t) = [t]"
| "form_types (FormCow t) = [t]"
| "form_types (FormContainer c t) = [t]"
| "form_types (FormCollection c t) = [t]"
| "form_types (FormMap c k v) = [k, v]"
| "form_types (FormMaybe c t) = [t]"

lemma container_form_size: "t \<in> set (form_types (container_form enums p)) \<Longrightarrow> size t < size p"
  by (auto simp: container_form_def type_arg_sizes split: option.splits)

lemma path_form_size: "t \<in> set (form_types (path_form gi enums p)) \<Longrightarrow> size t < size p"
  by (auto simp: path_form_def result_error_def type_arg_sizes container_form_size
      split: option.splits if_splits)

lemma form_types_le: "form_types (path_form gi enums p) = ts \<Longrightarrow> \<forall>t\<in>set ts. size t \<le> size p"
  using path_form_size less_imp_le by blast

definition result_replacements ::
  "token_stream list \<Rightarrow> token_stream list option \<Rightarrow> token_stream list \<Rightarrow> token_stream list" where
  "result_replacements errs ok_reps err_reps =
     unique_by to_pretty_string
       ((case ok_reps of
           Some reps \<Rightarrow> map (call [Ident ''Ok'']) reps
         | None \<Rightarrow> [call [Ident ''Ok''] default_value])
        @ map (call [Ident ''Err'']) errs @ map (call [Ident ''Err'']) err_reps)"

definition cow_replacements :: "token_stream list \<Rightarrow> token_stream list" where
  "cow_replacements reps =
     concat (map (\<lambda>r. [call (path2 ''Cow'' ''Borrowed'') r,
                        call (path2 ''Cow'' ''Owned'') (method_call r ''to_owned'')]) reps)"

definition collection_replacements :: "string \<Rightarrow> token_stream list \<Rightarrow> token_stream list" where
  "collection_replacements c reps =
     call (path2 c ''new'') [] # map (\<lambda>r. call (path2 c ''from_iter'') [brackets r]) reps"

definition map_replacements :: "string \<Rightarrow> token_stream list \<Rightarrow> token_stream list \<Rightarrow> token_stream list" where
  "map_replacements c key_reps val_reps =
     call (path2 c ''new'') []
     # map (\<lambda>(k, v). call (path2 c ''from_iter'') [brackets [parens (k @ [Punct CHR '',''] @ v)]])
         (List.product key_reps val_reps)"

definition maybe_replacements :: "string \<Rightarrow> token_stream list \<Rightarrow> token_stream list" where
  "maybe_replacements c reps =
     call (path2 c ''new'') []
     # concat (map (\<lambda>r. [call (path2 c ''from_iter'') [brackets r],
                         call (path2 c ''new'') r, call (path2 c ''from'') r]) reps)"

function type_replacements ::
  "get_ident \<Rightarrow> token_stream list \<Rightarrow> enum_index \<Rightarrow> syn_type \<Rightarrow> token_stream list" where
  "type_replacements gi errs enums (TypePath p) =
     (case path_form gi enums p of
        FormPlain reps \<Rightarrow> reps
      | FormResult ok_type err_type \<Rightarrow>
          result_replacements errs
            (case ok_type of Some t \<Rightarrow> Some (type_replacements gi errs enums t) | None \<Rightarrow> None)
            (case err_type of Some t \<Rightarrow> type_replacements gi errs enums t | None \<Rightarrow> [])
      | FormOption t \<Rightarrow> [Ident ''None''] # map (call [Ident ''Some'']) (type_replacements gi errs enums t)
      | FormVec t \<Rightarrow> vec_of [] # map vec_of (type_replacements gi errs enums t)
      | FormCow t \<Rightarrow> cow_replacements (type_replacements gi errs enums t)
      | FormContainer c t \<Rightarrow> map (call (path2 c ''new'')) (type_replacements gi errs enums t)
      | FormCollection c t \<Rightarrow> collection_replacements c (type_replacements gi errs enums t)
      | FormMap c k v \<Rightarrow> map_replacements c (type_replacements gi errs enums k) (type_replacements gi errs enums v)
      | FormMaybe c t \<Rightarrow> maybe_replacements c (type_replacements gi errs enums t))"
| "type_replacements gi errs enums (TypeArray elem len) =
     array_replacements len (type_replacements gi errs enums elem)"
| "type_replacements gi errs enums (TypeSlice elem) =
     slice_replacements (type_replacements gi errs enums elem)"
| "type_replacements gi errs enums (TypeReference mutable elem) =
     reference_replacements mutable (case elem of TypePath p \<Rightarrow> gi p = Some ''str'' | _ \<Rightarrow> False)
       (case elem of TypeSlice t \<Rightarrow> Some (type_replacements gi errs enums t) | _ \<Rightarrow> None)
       (type_replacements gi errs enums elem)"
| "type_replacements gi errs enums (TypeTuple elems) =
     map tuple_of (product_lists (map (type_replacements gi errs enums) elems))"
| "type_replacements gi errs enums (TypeImplTrait bounds) =
     impl_iterator_replacements
       (case match_impl_iterator bounds of Some t \<Rightarrow> Some (type_replacements gi errs enums t) | None \<Rightarrow> None)"
| "type_replacements gi errs enums TypeTraitObject = []"
| "type_replacements gi errs enums TypeNever = []"
| "type_replacements gi errs enums TypeOther = [default_value]"
  by pat_completeness auto

termination
  by (relation "measure (\<lambda>(gi, errs, enums, t). size t)")
    (auto simp: match_impl_iterator_size less_Suc_eq_le intro: size_list_estimation' less_imp_le
      dest!: arg_cong [where f = form_types] form_types_le match_impl_iterator_size)

declare type_replacements.simps(1) [simp del]

definition return_type_replacements ::
  "get_ident \<Rightarrow> token_stream list \<Rightarrow> enum_index \<Rightarrow> return_type \<Rightarrow> token_stream list" where
  "return_type_replacements gi errs enums rt =
     (case rt of
        ReturnDefault \<Rightarrow> [[parens []]]
      | ReturnType t \<Rightarrow> type_replacements gi errs enums t)"

subsection \<open>Replacements are different from each other\<close>

text \<open>No two are the same, none is empty, and a comma stands only inside of groups.\<close>

definition comma_free :: "token_stream \<Rightarrow> bool" where
  "comma_free r \<longleftrightarrow> Punct CHR '','' \<notin> set r"

definition good_reps :: "token_stream list \<Rightarrow> bool" where
  "good_reps reps \<longleftrightarrow> distinct reps \<and> (\<forall>r\<in>set reps. r \<noteq> [] \<and> comma_free r)"

lemma comma_free_simps [simp]:
  "comma_free []" "comma_free (a @ b) \<longleftrightarrow> comma_free a \<and> comma_free b"
  "comma_free (x # r) \<longleftrightarrow> x \<noteq> Punct CHR '','' \<and> comma_free r"
  by (auto simp: comma_free_def)

lemma quoted_comma_free [simp]:
  "comma_free colons" "comma_free (path2 s t)" "comma_free (call f r) \<longleftrightarrow> comma_free f"
  "comma_free (method_call r m) \<longleftrightarrow> comma_free r" "comma_free (vec_of r)" "comma_free (std_iter s)"
  "comma_free minus_one" "comma_free (nonzero r) \<longleftrightarrow> comma_free r" "comma_free default_value"
  "parens r \<noteq> Punct c" "brackets r \<noteq> Punct c" "str_lit s \<noteq> Punct c" "char_lit s \<noteq> Punct c"
  by (simp_all add: colons_def path2_def call_def method_call_def vec_of_def std_iter_def minus_one_def
      nonzero_def default_value_def parens_def brackets_def str_lit_def char_lit_def)

lemma quoted_inject [simp]:
  "path2 s t = path2 u v \<longleftrightarrow> s = u \<and> t = v" "parens a = parens b \<longleftrightarrow> a = b" "brackets a = brackets b \<longleftrightarrow> a = b"
  "call f a = call g b \<longleftrightarrow> f = g \<and> a = b" "vec_of a = vec_of b \<longleftrightarrow> a = b" "path2 s t \<noteq> []"
  "method_call a m = method_call b m \<longleftrightarrow> a = b" "std_iter s = std_iter t \<longleftrightarrow> s = t" "std_iter s \<noteq> []"
  "call f a \<noteq> []" "vec_of a \<noteq> []" "method_call a m \<noteq> []" "default_value \<noteq> []" "parens a \<noteq> brackets b"
  "str_lit s = str_lit t \<longleftrightarrow> s = t" "char_lit s = char_lit t \<longleftrightarrow> s = t"
  by (simp_all add: path2_def colons_def parens_def brackets_def call_def vec_of_def method_call_def
      std_iter_def default_value_def str_lit_def char_lit_def)

lemma good_reps_map:
  assumes "good_reps reps" "inj f" "\<And>r. comma_free r \<Longrightarrow> comma_free (f r)" "\<And>r. f r \<noteq> []"
  shows "good_reps (map f reps)"
  using assms by (auto simp: good_reps_def distinct_map intro: inj_on_subset)

lemma good_reps_Cons: "good_reps (r # reps) \<longleftrightarrow> r \<notin> set reps \<and> r \<noteq> [] \<and> comma_free r \<and> good_reps reps"
  by (auto simp: good_reps_def)

lemma good_reps_Nil [simp]: "good_reps []"
  by (simp add: good_reps_def)

lemma good_reps_concat:
  assumes "good_reps reps" "\<And>r. r \<in> set reps \<Longrightarrow> good_reps (f r)"
    "\<And>r s x. x \<in> set (f r) \<Longrightarrow> x \<in> set (f s) \<Longrightarrow> r = s"
  shows "good_reps (concat (map f reps))"
  using assms(1,2)
proof (induction reps)
  case (Cons r reps)
  then have "good_reps (concat (map f reps))" "good_reps (f r)" "r \<notin> set reps"
    by (auto simp: good_reps_Cons)
  moreover have "set (f r) \<inter> set (concat (map f reps)) = {}"
  proof -
    have "x \<notin> set (concat (map f reps))" if x: "x \<in> set (f r)" for x
    proof
      assume "x \<in> set (concat (map f reps))"
      then obtain s where s: "s \<in> set reps" "x \<in> set (f s)" by auto
      from assms(3) [OF x s(2)] s(1) \<open>r \<notin> set reps\<close> show False by simp
    qed
    then show ?thesis by blast
  qed
  ultimately show ?case by (auto simp: good_reps_def)
qed simp

text \<open>The pieces between commas can be told apart.\<close>

lemma comma_split:
  "comma_free a \<Longrightarrow> comma_free b \<Longrightarrow> a @ Punct CHR '','' # x = b @ Punct CHR '','' # y \<Longrightarrow> a = b \<and> x = y"
proof (induction a arbitrary: b)
  case Nil
  then show ?case by (cases b) auto
next
  case (Cons t a)
  then show ?case by (cases b) auto
qed

lemma separated_inject:
  assumes "length as = length bs" "\<forall>r\<in>set as. comma_free r" "\<forall>r\<in>set bs. comma_free r"
    and "comma_free a" "comma_free b"
    and "a @ concat (map (\<lambda>x. Punct CHR '','' # x) as) = b @ concat (map (\<lambda>x. Punct CHR '','' # x) bs)"
  shows "a = b \<and> as = bs"
  using assms
proof (induction as bs arbitrary: a b rule: list_induct2)
  case (Cons x xs y ys)
  from comma_split [OF Cons.prems(3,4)] Cons.prems(5)
  have "a = b" "x @ concat (map (\<lambda>x. Punct CHR '','' # x) xs) = y @ concat (map (\<lambda>x. Punct CHR '','' # x) ys)"
    by auto
  with Cons.IH [of x y] Cons.prems(1,2) show ?case by auto
qed simp

lemma tuple_of_inject:
  assumes "length as = length bs" "\<forall>r\<in>set as. comma_free r" "\<forall>r\<in>set bs. comma_free r" "tuple_of as = tuple_of bs"
  shows "as = bs"
proof (cases as)
  case (Cons a as')
  then obtain b bs' where "bs = b # bs'" using assms(1) by (cases bs) auto
  with Cons assms separated_inject [of as' bs' a b] show ?thesis by (simp add: tuple_of_def)
qed (use assms(1) in simp)

lemma good_reps_tuple:
  assumes "\<And>reps. reps \<in> set repss \<Longrightarrow> good_reps reps"
  shows "good_reps (map tuple_of (product_lists repss))"
proof -
  have "distinct (product_lists repss)"
    using assms by (intro distinct_product_lists) (auto simp: good_reps_def)
  moreover have comps: "\<forall>r\<in>set rs. comma_free r" "length rs = length repss"
    if "rs \<in> set (product_lists repss)" for rs
  proof -
    from that have e: "list_all2 (\<lambda>x ys. x \<in> set ys) rs repss" by (simp add: product_lists_set)
    then show "length rs = length repss" by (rule list_all2_lengthD)
    show "\<forall>r\<in>set rs. comma_free r"
    proof
      fix r assume "r \<in> set rs"
      then obtain i where i: "i < length rs" "r = rs ! i" by (auto simp: in_set_conv_nth)
      with list_all2_nthD [OF e] list_all2_lengthD [OF e]
      have "r \<in> set (repss ! i)" "repss ! i \<in> set repss" by auto
      with assms show "comma_free r" by (simp add: good_reps_def)
    qed
  qed
  have "inj_on tuple_of (set (product_lists repss))"
  proof (rule inj_onI)
    fix as bs assume m: "as \<in> set (product_lists repss)" "bs \<in> set (product_lists repss)" "tuple_of as = tuple_of bs"
    have "length as = length bs" using comps(2) [OF m(1)] comps(2) [OF m(2)] by simp
    from tuple_of_inject [OF this comps(1) [OF m(1)] comps(1) [OF m(2)] m(3)] show "as = bs" .
  qed
  ultimately show ?thesis by (auto simp: good_reps_def distinct_map tuple_of_def)
qed

lemma good_reps_slice: "good_reps reps \<Longrightarrow> good_reps (slice_replacements reps)"
  unfolding slice_replacements_def good_reps_Cons
  by (auto simp: leaked_vec_def call_def vec_of_def path2_def colons_def
      intro!: good_reps_map injI)

lemma good_reps_cow: "good_reps reps \<Longrightarrow> good_reps (cow_replacements reps)"
  unfolding cow_replacements_def
  by (rule good_reps_concat) (auto simp: good_reps_Cons)

lemma good_reps_collection: "good_reps reps \<Longrightarrow> good_reps (collection_replacements c reps)"
  unfolding collection_replacements_def good_reps_Cons
  by (auto intro!: good_reps_map injI)

lemma good_reps_maybe: "good_reps reps \<Longrightarrow> good_reps (maybe_replacements c reps)"
  unfolding maybe_replacements_def good_reps_Cons
  by (auto intro!: good_reps_concat simp: good_reps_Cons good_reps_def [of reps])

lemma good_reps_map_type:
  assumes "good_reps ks" "good_reps vs"
  shows "good_reps (map_replacements c ks vs)"
proof -
  define f where "f = (\<lambda>(k, v). call (path2 c ''from_iter'') [brackets [parens (k @ [Punct CHR '',''] @ v)]])"
  have f: "f (k, v) = call (path2 c ''from_iter'') [brackets [parens (k @ [Punct CHR '',''] @ v)]]" for k v
    by (simp add: f_def)
  have "inj_on f (set (List.product ks vs))"
  proof (rule inj_onI)
    fix x y assume m: "x \<in> set (List.product ks vs)" "y \<in> set (List.product ks vs)" "f x = f y"
    obtain k v k' v' where xy: "x = (k, v)" "y = (k', v')" by (cases x, cases y)
    with m assms have "comma_free k" "comma_free k'" by (simp_all add: good_reps_def)
    moreover have "k @ Punct CHR '','' # v = k' @ Punct CHR '','' # v'" using m(3) xy by (simp add: f)
    ultimately show "x = y" using comma_split xy by blast
  qed
  moreover have "distinct (List.product ks vs)" using assms by (simp add: good_reps_def distinct_product)
  moreover have "f x \<noteq> []" "comma_free (f x)" "f x \<noteq> call (path2 c ''new'') []" for x
    by (cases x; simp add: f)+
  ultimately have "good_reps (call (path2 c ''new'') [] # map f (List.product ks vs))"
    unfolding good_reps_def by (auto simp: distinct_map dest: sym)
  then show ?thesis by (simp add: map_replacements_def f_def)
qed

lemma good_reps_result: "good_reps (result_replacements errs oks es)"
proof -
  let ?all = "(case oks of Some reps \<Rightarrow> map (call [Ident ''Ok'']) reps | None \<Rightarrow> [call [Ident ''Ok''] default_value])
    @ map (call [Ident ''Err'']) errs @ map (call [Ident ''Err'']) es"
  have "distinct (unique_by to_pretty_string ?all)"
    using distinct_unique_by [of to_pretty_string ?all] by (simp add: distinct_map)
  moreover have "\<forall>r\<in>set ?all. r \<noteq> [] \<and> comma_free r" by (auto split: option.splits)
  moreover have "set (unique_by to_pretty_string ?all) \<subseteq> set ?all" by (rule unique_by_subset)
  ultimately have "good_reps (unique_by to_pretty_string ?all)" unfolding good_reps_def by (meson subsetD)
  then show ?thesis by (simp only: result_replacements_def)
qed

definition enums_ok :: "enum_index \<Rightarrow> bool" where
  "enums_ok enums \<longleftrightarrow> (\<forall>i vs. enums i = Some vs \<longrightarrow> distinct vs)"

lemma plain_good: "plain_replacements gi p = Some reps \<Longrightarrow> good_reps reps"
  unfolding plain_replacements_def
  by (auto simp: good_reps_Cons call_def method_call_def nonzero_def minus_one_def path2_def colons_def
      str_lit_def char_lit_def parens_def split: if_splits option.splits syn_type.splits)

lemma path_form_plain_good:
  assumes "enums_ok enums" "path_form gi enums p = FormPlain reps"
  shows "good_reps reps"
proof -
  have "good_reps (map (path2 i) vs)" if "unit_variants enums p = Some (i, vs)" for i vs
    using that assms(1)
    by (auto simp: unit_variants_def enums_ok_def good_reps_def distinct_map inj_on_def split: option.splits)
  then have "container_form enums p = FormPlain reps \<Longrightarrow> good_reps reps"
    by (auto simp: container_form_def good_reps_Cons split: option.splits)
  then show ?thesis using assms(2)
    by (auto simp: path_form_def good_reps_Cons plain_good split: option.splits if_splits)
qed

lemma type_replacements_good: "enums_ok enums \<Longrightarrow> good_reps (type_replacements gi errs enums t)"
proof (induction gi errs enums t rule: type_replacements.induct)
  case (1 gi errs enums p)
  show ?case
  proof (cases "path_form gi enums p")
    case (FormPlain reps)
    with 1(11) show ?thesis by (simp add: type_replacements.simps(1) path_form_plain_good)
  next
    case (FormOption t)
    have "inj (call [Ident ''Some''])" by (auto intro: injI)
    with 1(3) [OF FormOption 1(11)] show ?thesis
      by (auto simp: type_replacements.simps(1) FormOption good_reps_Cons call_def intro!: good_reps_map)
  next
    case (FormVec t)
    with 1(4) [OF FormVec 1(11)] show ?thesis
      by (auto simp: type_replacements.simps(1) good_reps_Cons good_reps_def [of "type_replacements _ _ _ _"]
          intro!: good_reps_map injI)
  next
    case (FormContainer c t)
    with 1(6) [OF FormContainer 1(11)] show ?thesis
      by (auto simp: type_replacements.simps(1) intro!: good_reps_map injI)
  qed (use 1 in \<open>simp_all add: type_replacements.simps(1) good_reps_result good_reps_cow good_reps_collection
      good_reps_map_type good_reps_maybe\<close>)
next
  case (4 gi errs enums mutable elem)
  show ?case
  proof (cases "\<exists>t. elem = TypeSlice t")
    case True
    with 4 show ?thesis by (auto simp: good_reps_slice)
  next
    case False
    then have "type_replacements gi errs enums (TypeReference mutable elem)
        = (if \<not> mutable \<and> (case elem of TypePath p \<Rightarrow> gi p = Some ''str'' | _ \<Rightarrow> False)
           then [[str_lit []], [str_lit ''xyzzy'']] else map leaked_box (type_replacements gi errs enums elem))"
      by (cases elem) simp_all
    moreover have "good_reps (map leaked_box (type_replacements gi errs enums elem))"
      if nstr: "\<not> (\<not> mutable \<and> (case elem of TypePath p \<Rightarrow> gi p = Some ''str'' | _ \<Rightarrow> False))"
    proof (rule good_reps_map)
      show "good_reps (type_replacements gi errs enums elem)"
        by (cases elem; insert 4 False nstr; simp del: type_replacements.simps)
    qed (auto simp: leaked_box_def intro: injI)
    ultimately show ?thesis by (auto simp: good_reps_Cons)
  qed
next
  case (6 gi errs enums bounds)
  then show ?case
    by (auto simp: good_reps_Cons split: option.splits intro!: good_reps_map injI)
qed (auto simp: good_reps_slice good_reps_Cons intro!: good_reps_map good_reps_tuple injI)

lemma add_items_ok:
  assumes "\<forall>n\<in>set (subnodes_list items). \<forall>name vs. nd_kind n = KItemEnum name vs \<longrightarrow> distinct (map fst vs)"
    and "enums_ok index"
  shows "enums_ok (add_items items index)"
  using assms
proof (induction items index rule: add_items.induct)
  case (2 i k as sp ts kids items index)
  have "enums_ok (case k of
          KItemEnum name variants \<Rightarrow>
            (let unit_variants = map fst (filter snd variants) in
             if unit_variants \<noteq> [] then index(name \<mapsto> unit_variants) else index)
        | KItemMod _ content \<Rightarrow> if content then add_items kids index else index
        | _ \<Rightarrow> index)"
  proof (cases "\<exists>name content. k = KItemMod name content")
    case True
    then obtain name content where k: "k = KItemMod name content" by blast
    show ?thesis using 2(1) [OF k] 2(3,4) by (auto simp: k)
  next
    case False
    show ?thesis
    proof (cases "\<exists>name vs. k = KItemEnum name vs")
      case True
      then obtain name vs where k: "k = KItemEnum name vs" by blast
      then have "distinct (map fst vs)" using 2(3) by simp
      then have "distinct (map fst (filter snd vs))" by (rule distinct_map_filter)
      with 2(4) show ?thesis by (simp add: k enums_ok_def Let_def)
    next
      case none: False
      then show ?thesis using False 2(4) by (cases k) simp_all
    qed
  qed
  moreover have "\<forall>n\<in>set (subnodes_list items). \<forall>name vs. nd_kind n = KItemEnum name vs \<longrightarrow> distinct (map fst vs)"
    using 2(3) by (simp add: ball_Un)
  ultimately show ?case using 2(2) by simp
qed simp

text \<open>A one-element tuple type is given a value in parentheses, which is not a tuple.\<close>

lemma one_tuple_loses_comma:
  "type_replacements gi errs enums (TypeTuple [t]) = map (\<lambda>r. [parens r]) (type_replacements gi errs enums t)"
proof -
  have "product_lists [xs] = map (\<lambda>x. [x]) xs" for xs :: "'a list" by (induction xs) simp_all
  then show ?thesis by (simp add: tuple_of_def)
qed

subsection \<open>Properties\<close>

text \<open>The replacements of a return type are pairwise different and none is empty, whatever error values
  are configured, if the variants of each enum declared in the file have different names.  So no
  two mutants of a function body have the same replacement.\<close>

theorem replacements_differ:
  assumes "\<forall>n\<in>set (subnodes root). \<forall>name vs. nd_kind n = KItemEnum name vs \<longrightarrow> distinct (map fst vs)"
  shows "distinct (return_type_replacements gi errs (enums_from_file root) rt)
    \<and> [] \<notin> set (return_type_replacements gi errs (enums_from_file root) rt)"
proof -
  obtain i k as sp ts kids where fl: "root = Node i k as sp ts kids" by (cases root)
  have "enums_ok (add_items kids (\<lambda>_. None))"
    using assms by (intro add_items_ok) (auto simp: fl enums_ok_def)
  then have "enums_ok (enums_from_file root)" by (simp add: enums_from_file_def fl)
  from type_replacements_good [OF this] show ?thesis
    by (auto simp: return_type_replacements_def good_reps_def split: return_type.splits)
qed

definition simple_type :: "string \<Rightarrow> syn_type" where
  "simple_type s = TypePath (SynPath False [Segment s NoArguments])"

definition generic_type :: "string \<Rightarrow> syn_type list \<Rightarrow> syn_type" where
  "generic_type s ts = TypePath (SynPath False [Segment s (AngleBracketed (map ArgType ts))])"

lemma replacements_differ_witness:
  "map to_pretty_string (return_type_replacements documented_get_ident []
      (enums_from_file (Node 0 KFile [] (quad 1 1 1 1) [] []))
      (ReturnType (generic_type ''Option'' [simple_type ''bool''])))
    = [''None'', ''Some(true)'', ''Some(false)'']
    \<and> distinct (return_type_replacements documented_get_ident []
      (enums_from_file (Node 0 KFile [] (quad 1 1 1 1) [] []))
      (ReturnType (generic_type ''Option'' [simple_type ''bool''])))"
proof -
  let ?f = "Node 0 KFile [] (quad 1 1 1 1) [] []"
  have "\<forall>n\<in>set (subnodes ?f). \<forall>name vs. nd_kind n = KItemEnum name vs \<longrightarrow> distinct (map fst vs)" by simp
  from replacements_differ [OF this] show ?thesis
    by (simp add: return_type_replacements_def generic_type_def simple_type_def type_replacements.simps(1)
        path_form_def plain_replacements_def documented_get_ident_def path_ident_in_def last_ident_def
        last_segment_def last_opt_def type_path_ends_with_def ident_in_def path_is_unsigned_def path_is_signed_def
        path_is_float_def path_is_nonzero_signed_def path_is_nonzero_unsigned_def path_is_cmp_ordering_def
        match_first_type_arg_def last_args_def call_def parens_def to_pretty_string_def write_pretty_def
        word_before_def word_after_def ends_with_def open_text_def close_text_def Let_def)
qed

end
