(* ===== verification/Options.thy ===== *)
theory Options
  imports Outcomes Shards
begin

text \<open>
  Options: the command line (\<open>Args\<close> of \<open>src/src/main.rs\<close>), the configuration file
  (\<open>src/src/config.rs\<close>), their merge and the filters they define (\<open>src/src/options.rs\<close>,
  \<open>src/src/glob.rs\<close>) and annotations (\<open>src/src/annotation.rs\<close>).

  An \<open>f64\<close> is its 64 bits.  Arithmetic on them, regular expressions and globs are libraries: the
  record \<open>libs\<close> holds the operations that the code calls.  A set of regular expressions or globs
  is the list of its patterns, and matches what one of them matches.
\<close>

subsection \<open>Libraries\<close>

type_synonym f64 = "64 word"

record libs =
  lib_from_secs_f64 :: "f64 \<Rightarrow> duration option"  \<comment> \<open>None where it panics\<close>
  lib_as_secs_f64 :: "duration \<Rightarrow> f64"
  lib_mul :: "f64 \<Rightarrow> f64 \<Rightarrow> f64"
  lib_ceil :: "f64 \<Rightarrow> f64"
  lib_regex_ok :: "string \<Rightarrow> bool"
  lib_regex_match :: "string \<Rightarrow> string \<Rightarrow> bool"
  lib_glob_ok :: "string \<Rightarrow> bool"
  lib_glob_match :: "string \<Rightarrow> path \<Rightarrow> bool"

definition f64_20 :: f64 where "f64_20 = 0x4034000000000000"

subsection \<open>The types of single options\<close>

datatype baseline_strategy = BaselineRun | BaselineSkip

datatype test_packages = TPMutated | TPWorkspace | TPNamed "string list"

datatype test_tool = ToolCargo | ToolNextest

datatype colors = ColorsAuto | ColorsAlways | ColorsNever

datatype auto_annotation = AutoNone | AutoAuto | AutoGitHub

datatype resolved_annotation = ResolvedNone | ResolvedGitHub

record common =
  cm_emit_diffs :: "bool option"
  cm_test_tool :: "test_tool option"
  cm_sharding :: "sharding option"

definition common_merge :: "common \<Rightarrow> common \<Rightarrow> common" where
  "common_merge a b =
     \<lparr>cm_emit_diffs = opt_or (cm_emit_diffs a) (cm_emit_diffs b),
      cm_test_tool = opt_or (cm_test_tool a) (cm_test_tool b),
      cm_sharding = opt_or (cm_sharding a) (cm_sharding b)\<rparr>"

subsection \<open>Command line and configuration\<close>

record args =
  arg_cap_lints :: "bool option"
  arg_profile :: "string option"
  arg_config :: "path option"
  arg_no_config :: bool
  arg_copy_target :: "bool option"
  arg_copy_vcs :: "bool option"
  arg_gitignore :: "bool option"
  arg_in_place :: bool
  arg_no_copy_target :: bool
  arg_leak_dirs :: bool
  arg_mutate_file :: "path option"
  arg_baseline :: baseline_strategy
  arg_build_timeout_multiplier :: "f64 option"
  arg_build_timeout :: "f64 option"
  arg_cargo_arg :: "string list"
  arg_cargo_test_arg :: "string list"
  arg_cargo_test_args :: "string list"
  arg_detect_equivalent_mutants :: bool
  arg_check :: bool
  arg_jobs :: "nat option"
  arg_jobserver :: bool
  arg_jobserver_tasks :: "nat option"
  arg_list :: bool
  arg_list_files :: bool
  arg_minimum_test_timeout :: "f64 option"
  arg_shard :: "shard option"
  arg_shuffle :: bool
  arg_timeout :: "f64 option"
  arg_timeout_multiplier :: "f64 option"
  arg_features :: "string list"
  arg_no_default_features :: bool
  arg_all_features :: bool
  arg_examine_re :: "string list"
  arg_exclude :: "string list"
  arg_exclude_re :: "string list"
  arg_file :: "string list"
  arg_in_diff :: "path option"
  arg_iterate :: bool
  arg_mutate_packages :: "string list"
  arg_skip_calls :: "string list"
  arg_skip_calls_defaults :: "bool option"
  arg_skip_uncovered :: bool
  arg_workspace :: bool
  arg_error :: "string list"
  arg_dir :: "path option"
  arg_manifest_path :: "path option"
  arg_version :: bool
  arg_all_logs :: bool
  arg_annotations :: auto_annotation
  arg_caught :: bool
  arg_colors :: colors
  arg_json :: bool
  arg_line_col :: bool
  arg_no_times :: bool
  arg_output :: "path option"
  arg_unviable :: bool
  arg_test_package :: "string list"
  arg_test_workspace :: "bool option"
  arg_common :: common

record config =
  cfg_additional_cargo_args :: "string list"
  cfg_additional_cargo_test_args :: "string list"
  cfg_all_features :: "bool option"
  cfg_build_timeout_multiplier :: "f64 option"
  cfg_cap_lints :: bool
  cfg_copy_vcs :: "bool option"
  cfg_copy_target :: "bool option"
  cfg_detect_equivalent_mutants :: "bool option"
  cfg_error_values :: "string list"
  cfg_examine_globs :: "string list"
  cfg_examine_re :: "string list"
  cfg_exclude_globs :: "string list"
  cfg_exclude_re :: "string list"
  cfg_gitignore :: "bool option"
  cfg_features :: "string list"
  cfg_minimum_test_timeout :: "f64 option"
  cfg_no_default_features :: "bool option"
  cfg_output :: "path option"
  cfg_profile :: "string option"
  cfg_skip_calls :: "string list"
  cfg_skip_calls_defaults :: "bool option"
  cfg_skip_uncovered :: "bool option"
  cfg_test_package :: "string list"
  cfg_test_workspace :: "bool option"
  cfg_timeout_multiplier :: "f64 option"
  cfg_common :: common

definition default_config :: config where
  "default_config =
     \<lparr>cfg_additional_cargo_args = [], cfg_additional_cargo_test_args = [], cfg_all_features = None,
      cfg_build_timeout_multiplier = None, cfg_cap_lints = False, cfg_copy_vcs = None,
      cfg_copy_target = None, cfg_detect_equivalent_mutants = None, cfg_error_values = [],
      cfg_examine_globs = [], cfg_examine_re = [], cfg_exclude_globs = [], cfg_exclude_re = [],
      cfg_gitignore = None, cfg_features = [], cfg_minimum_test_timeout = None,
      cfg_no_default_features = None, cfg_output = None, cfg_profile = None, cfg_skip_calls = [],
      cfg_skip_calls_defaults = None, cfg_skip_uncovered = None, cfg_test_package = [],
      cfg_test_workspace = None, cfg_timeout_multiplier = None,
      cfg_common = \<lparr>cm_emit_diffs = None, cm_test_tool = None, cm_sharding = None\<rparr>\<rparr>"

text \<open>Reading the file and parsing TOML are the parameters of \<open>read_tree_config\<close>.\<close>

definition read_tree_config ::
  "(path \<Rightarrow> bool) \<Rightarrow> (path \<Rightarrow> ('e, config) rresult) \<Rightarrow> path \<Rightarrow> ('e, config) rresult" where
  "read_tree_config exists read_file workspace_dir =
     (let p = join_path (join_path workspace_dir ''.cargo'') ''mutants.toml'' in
      if exists p then read_file p else Ok default_config)"

record options =
  opt_annotations :: resolved_annotation
  opt_baseline :: baseline_strategy
  opt_cap_lints :: bool
  opt_check_only :: bool
  opt_copy_vcs :: bool
  opt_gitignore :: bool
  opt_copy_target :: bool
  opt_detect_equivalent_mutants :: bool
  opt_in_place :: bool
  opt_jobserver :: bool
  opt_jobserver_tasks :: "nat option"
  opt_leak_dirs :: bool
  opt_test_timeout :: "duration option"
  opt_test_timeout_multiplier :: "f64 option"
  opt_test_package :: test_packages
  opt_build_timeout :: "duration option"
  opt_build_timeout_multiplier :: "f64 option"
  opt_minimum_test_timeout :: duration
  opt_print_caught :: bool
  opt_print_unviable :: bool
  opt_show_times :: bool
  opt_show_all_logs :: bool
  opt_show_line_col :: bool
  opt_shuffle :: bool
  opt_skip_calls :: "string list"
  opt_skip_uncovered :: bool
  opt_profile :: "string option"
  opt_additional_cargo_args :: "string list"
  opt_additional_cargo_test_args :: "string list"
  opt_features :: "string list"
  opt_no_default_features :: bool
  opt_all_features :: bool
  opt_examine_globset :: "string list option"
  opt_exclude_globset :: "string list option"
  opt_examine_name_re :: "string list"
  opt_exclude_name_re :: "string list"
  opt_output_in_dir :: "path option"
  opt_jobs :: "nat option"
  opt_error_values :: "string list"
  opt_colors :: colors
  opt_emit_json :: bool
  opt_common :: common

datatype opt_error = OptPanic | BadExamineRegex | BadExcludeRegex | BadGlob string

subsection \<open>Globs\<close>

text \<open>The patterns that one glob of the user stands for (on Unix).\<close>

definition adjusted_globs :: "string \<Rightarrow> string list" where
  "adjusted_globs glob_str =
     (if CHR ''/'' \<in> set glob_str then [glob_str]
      else [''**/'' @ glob_str, ''**/'' @ glob_str @ ''/**''])"

fun add_globs :: "libs \<Rightarrow> string list \<Rightarrow> string list \<Rightarrow> (opt_error, string list) rresult" where
  "add_globs L built [] = Ok built"
| "add_globs L built (g # gs) =
     (if list_all (lib_glob_ok L) (adjusted_globs g) then add_globs L (built @ adjusted_globs g) gs
      else Err (BadGlob g))"

definition build_glob_set :: "libs \<Rightarrow> string list \<Rightarrow> (opt_error, string list option) rresult" where
  "build_glob_set L globs =
     rbind (add_globs L [] globs) (\<lambda>built. Ok (if globs = [] then None else Some built))"

subsection \<open>Merging\<close>

definition resolve_annotations :: "(string \<Rightarrow> string option) \<Rightarrow> auto_annotation \<Rightarrow> resolved_annotation" where
  "resolve_annotations getenv a =
     (case a of
        AutoAuto \<Rightarrow> if getenv ''GITHUB_ACTION'' \<noteq> None then ResolvedGitHub else ResolvedNone
      | AutoGitHub \<Rightarrow> ResolvedGitHub
      | AutoNone \<Rightarrow> ResolvedNone)"

definition split_commas :: "string list \<Rightarrow> string list" where
  "split_commas ss = concat (map (split_char CHR '','') ss)"

definition merge_test_package :: "args \<Rightarrow> config \<Rightarrow> test_packages" where
  "merge_test_package a c =
     (if arg_test_workspace a = Some True then TPWorkspace
      else if arg_test_package a \<noteq> [] then TPNamed (split_commas (arg_test_package a))
      else if arg_test_workspace a = None \<and> cfg_test_workspace c = Some True then TPWorkspace
      else if cfg_test_package c \<noteq> [] then TPNamed (cfg_test_package c)
      else TPMutated)"

definition merge_skip_calls :: "args \<Rightarrow> config \<Rightarrow> string list" where
  "merge_skip_calls a c =
     split_commas (arg_skip_calls a) @ cfg_skip_calls c
     @ (if unwrap_or (opt_or (arg_skip_calls_defaults a) (cfg_skip_calls_defaults c)) True
        then [''with_capacity''] else [])"

text \<open>\<open>Duration::from_secs_f64\<close> and \<open>RegexSet::new\<close>.\<close>

definition from_secs :: "libs \<Rightarrow> f64 \<Rightarrow> (opt_error, duration) rresult" where
  "from_secs L x = (case lib_from_secs_f64 L x of Some d \<Rightarrow> Ok d | None \<Rightarrow> Err OptPanic)"

definition from_secs_opt :: "libs \<Rightarrow> f64 option \<Rightarrow> (opt_error, duration option) rresult" where
  "from_secs_opt L x = (case x of None \<Rightarrow> Ok None | Some v \<Rightarrow> rbind (from_secs L v) (\<lambda>d. Ok (Some d)))"

definition regex_set :: "libs \<Rightarrow> opt_error \<Rightarrow> string list \<Rightarrow> (opt_error, string list) rresult" where
  "regex_set L e ps = (if list_all (lib_regex_ok L) ps then Ok ps else Err e)"

text \<open>\<open>Options::new\<close>: what can fail is evaluated in the order of the code.\<close>

definition options_new ::
  "libs \<Rightarrow> (string \<Rightarrow> string option) \<Rightarrow> args \<Rightarrow> config \<Rightarrow> (opt_error, options) rresult" where
  "options_new L getenv a c =
     rbind (from_secs L (unwrap_or (opt_or (arg_minimum_test_timeout a) (cfg_minimum_test_timeout c)) f64_20)) (\<lambda>min_timeout.
     rbind (from_secs_opt L (arg_build_timeout a)) (\<lambda>b_timeout.
     rbind (regex_set L BadExamineRegex (arg_examine_re a @ cfg_examine_re c)) (\<lambda>examine_re.
     rbind (regex_set L BadExcludeRegex (arg_exclude_re a @ cfg_exclude_re c)) (\<lambda>exclude_re.
     rbind (build_glob_set L (arg_file a @ cfg_examine_globs c)) (\<lambda>examine_globs.
     rbind (build_glob_set L (arg_exclude a @ cfg_exclude_globs c)) (\<lambda>exclude_globs.
     rbind (from_secs_opt L (arg_timeout a)) (\<lambda>t_timeout.
       Ok \<lparr>opt_annotations = resolve_annotations getenv (arg_annotations a),
           opt_baseline = arg_baseline a,
           opt_cap_lints = unwrap_or (arg_cap_lints a) (cfg_cap_lints c),
           opt_check_only = arg_check a,
           opt_copy_vcs = unwrap_or (opt_or (arg_copy_vcs a) (cfg_copy_vcs c)) False,
           opt_gitignore = unwrap_or (arg_gitignore a) (unwrap_or (cfg_gitignore c) False),
           opt_copy_target = (\<not> arg_no_copy_target a
             \<and> unwrap_or (opt_or (arg_copy_target a) (cfg_copy_target c)) False),
           opt_detect_equivalent_mutants = (arg_detect_equivalent_mutants a
             \<or> unwrap_or (cfg_detect_equivalent_mutants c) False),
           opt_in_place = arg_in_place a,
           opt_jobserver = arg_jobserver a,
           opt_jobserver_tasks = arg_jobserver_tasks a,
           opt_leak_dirs = arg_leak_dirs a,
           opt_test_timeout = t_timeout,
           opt_test_timeout_multiplier = opt_or (arg_timeout_multiplier a) (cfg_timeout_multiplier c),
           opt_test_package = merge_test_package a c,
           opt_build_timeout = b_timeout,
           opt_build_timeout_multiplier =
             opt_or (arg_build_timeout_multiplier a) (cfg_build_timeout_multiplier c),
           opt_minimum_test_timeout = min_timeout,
           opt_print_caught = arg_caught a,
           opt_print_unviable = arg_unviable a,
           opt_show_times = (\<not> arg_no_times a),
           opt_show_all_logs = arg_all_logs a,
           opt_show_line_col = arg_line_col a,
           opt_shuffle = arg_shuffle a,
           opt_skip_calls = merge_skip_calls a c,
           opt_skip_uncovered = (arg_skip_uncovered a \<or> unwrap_or (cfg_skip_uncovered c) False),
           opt_profile = opt_or (arg_profile a) (cfg_profile c),
           opt_additional_cargo_args = arg_cargo_arg a @ cfg_additional_cargo_args c,
           opt_additional_cargo_test_args =
             arg_cargo_test_arg a @ arg_cargo_test_args a @ cfg_additional_cargo_test_args c,
           opt_features = arg_features a @ cfg_features c,
           opt_no_default_features = (arg_no_default_features a \<or> unwrap_or (cfg_no_default_features c) False),
           opt_all_features = (arg_all_features a \<or> unwrap_or (cfg_all_features c) False),
           opt_examine_globset = examine_globs,
           opt_exclude_globset = exclude_globs,
           opt_examine_name_re = examine_re,
           opt_exclude_name_re = exclude_re,
           opt_output_in_dir = opt_or (arg_output a) (cfg_output c),
           opt_jobs = arg_jobs a,
           opt_error_values = arg_error a @ cfg_error_values c,
           opt_colors = arg_colors a,
           opt_emit_json = arg_json a,
           opt_common = common_merge (arg_common a) (cfg_common c)\<rparr>)))))))"

subsection \<open>What the options say\<close>

definition phases :: "options \<Rightarrow> phase list" where
  "phases o' = (if opt_check_only o' then [Check] else [Build, Test])"

definition globset_match :: "libs \<Rightarrow> string list \<Rightarrow> path \<Rightarrow> bool" where
  "globset_match L gs p = list_ex (\<lambda>g. lib_glob_match L g p) gs"

definition regex_set_match :: "libs \<Rightarrow> string list \<Rightarrow> string \<Rightarrow> bool" where
  "regex_set_match L rs s = list_ex (\<lambda>r. lib_regex_match L r s) rs"

definition allows_source_file_path :: "libs \<Rightarrow> options \<Rightarrow> path \<Rightarrow> bool" where
  "allows_source_file_path L o' p \<longleftrightarrow>
     (case opt_examine_globset o' of None \<Rightarrow> True | Some g \<Rightarrow> globset_match L g p)
     \<and> \<not> (case opt_exclude_globset o' of None \<Rightarrow> False | Some g \<Rightarrow> globset_match L g p)"

text \<open>The name of the mutant is only computed when a filter needs it.\<close>

definition allows_mutant :: "libs \<Rightarrow> options \<Rightarrow> mutant \<Rightarrow> bool option" where
  "allows_mutant L o' m =
     (if opt_examine_name_re o' = [] \<and> opt_exclude_name_re o' = [] then Some True
      else map_option (\<lambda>name.
          (opt_examine_name_re o' = [] \<or> regex_set_match L (opt_examine_name_re o') name)
          \<and> (opt_exclude_name_re o' = [] \<or> \<not> regex_set_match L (opt_exclude_name_re o') name))
        (full_name m))"

definition emit_diffs :: "options \<Rightarrow> bool" where
  "emit_diffs o' = unwrap_or (cm_emit_diffs (opt_common o')) False"

definition test_tool_of :: "options \<Rightarrow> test_tool" where
  "test_tool_of o' = unwrap_or (cm_test_tool (opt_common o')) ToolCargo"

definition sharding_of :: "options \<Rightarrow> sharding" where
  "sharding_of o' = unwrap_or (cm_sharding (opt_common o')) default_sharding"

definition forced_value :: "(string \<Rightarrow> string option) \<Rightarrow> colors \<Rightarrow> bool option" where
  "forced_value getenv cl =
     (let on = (\<lambda>v. case getenv v of Some x \<Rightarrow> x \<noteq> ''0'' | None \<Rightarrow> False) in
      if on ''NO_COLOR'' then Some False
      else if on ''CLICOLOR_FORCE'' then Some True
      else (case cl of ColorsAlways \<Rightarrow> Some True | ColorsNever \<Rightarrow> Some False | ColorsAuto \<Rightarrow> None))"

definition format_annotation :: "resolved_annotation \<Rightarrow> mutant \<Rightarrow> string option" where
  "format_annotation a m =
     (case a of
        ResolvedNone \<Rightarrow> Some []
      | ResolvedGitHub \<Rightarrow> map_option (\<lambda>message.
          ''::warning file='' @ sf_slash_path (mu_source_file m)
          @ '',line='' @ show_nat (lc_line (sp_start (mu_span m)))
          @ '',col='' @ show_nat (lc_column (sp_start (mu_span m)))
          @ '',endLine='' @ show_nat (lc_line (sp_end (mu_span m)))
          @ '',endCol='' @ show_nat (lc_column (sp_end (mu_span m)))
          @ '',title=Missed mutant:: '' @ message @ [newline]) (describe_change m))"

subsection \<open>Lemmas\<close>

lemma add_globs_Ok: "add_globs L built gs = Ok r \<longleftrightarrow>
    list_all (lib_glob_ok L) (concat (map adjusted_globs gs)) \<and> r = built @ concat (map adjusted_globs gs)"
  by (induction L built gs rule: add_globs.induct) auto

lemma build_glob_set_Ok: "build_glob_set L gs = Ok r \<longleftrightarrow>
    list_all (lib_glob_ok L) (concat (map adjusted_globs gs))
    \<and> r = (if gs = [] then None else Some (concat (map adjusted_globs gs)))"
  by (auto simp: build_glob_set_def rbind_Ok_iff add_globs_Ok)

lemma globset_adjusted: "globset_match L (concat (map adjusted_globs gs)) p
    \<longleftrightarrow> (\<exists>g\<in>set gs. globset_match L (adjusted_globs g) p)"
  by (auto simp: globset_match_def list_ex_iff)

lemma allows_mutant_total: "mutant_ok m \<Longrightarrow> \<exists>b. allows_mutant L o' m = Some b"
  using name_total [of m True] by (auto simp: allows_mutant_def name_of_def write_name_def)

lemma common_merge_assoc: "common_merge (common_merge a b) c = common_merge a (common_merge b c)"
  by (auto simp: common_merge_def opt_or_def split: option.splits)

subsection \<open>Properties\<close>


text \<open>The options are refused exactly when a number of seconds is not a duration, a regular
  expression does not compile or a glob, as adjusted, does not; a glob is blamed by the text the
  user wrote.\<close>

theorem options_new_fails_iff:
  "(is_ok (options_new L env a c) \<longleftrightarrow>
      lib_from_secs_f64 L (unwrap_or (opt_or (arg_minimum_test_timeout a) (cfg_minimum_test_timeout c)) f64_20) \<noteq> None
      \<and> (\<forall>v\<in>set_option (arg_build_timeout a) \<union> set_option (arg_timeout a). lib_from_secs_f64 L v \<noteq> None)
      \<and> (\<forall>r\<in>set (arg_examine_re a @ cfg_examine_re c @ arg_exclude_re a @ cfg_exclude_re c). lib_regex_ok L r)
      \<and> (\<forall>g\<in>set (arg_file a @ cfg_examine_globs c @ arg_exclude a @ cfg_exclude_globs c).
            \<forall>x\<in>set (adjusted_globs g). lib_glob_ok L x))
    \<and> (options_new L env a c = Err (BadGlob g) \<longrightarrow>
        g \<in> set (arg_file a @ cfg_examine_globs c @ arg_exclude a @ cfg_exclude_globs c)
        \<and> \<not> list_all (lib_glob_ok L) (adjusted_globs g))"
proof -
  have ok: "is_ok r \<longleftrightarrow> (\<exists>x. r = Inr x)" for r :: "('e, 'x) rresult" by (cases r) auto
  have fs: "(\<exists>d. from_secs L x = Inr d) \<longleftrightarrow> lib_from_secs_f64 L x \<noteq> None" for x
    by (auto simp: from_secs_def split: option.splits)
  have fso: "(\<exists>d. from_secs_opt L v = Inr d) \<longleftrightarrow> (\<forall>x\<in>set_option v. lib_from_secs_f64 L x \<noteq> None)" for v
    by (cases v) (auto simp: from_secs_opt_def from_secs_def split: option.splits)
  have rs: "(\<exists>x. regex_set L e ps = Inr x) \<longleftrightarrow> (\<forall>r\<in>set ps. lib_regex_ok L r)" for e ps
    by (auto simp: regex_set_def list_all_iff)
  have gs: "(\<exists>x. build_glob_set L gs = Inr x) \<longleftrightarrow> (\<forall>g\<in>set gs. \<forall>x\<in>set (adjusted_globs g). lib_glob_ok L x)" for gs
    by (auto simp: build_glob_set_Ok list_all_iff)
  have chain: "is_ok (rbind r f) \<longleftrightarrow> (\<exists>x. r = Inr x) \<and> (\<forall>x. r = Inr x \<longrightarrow> is_ok (f x))"
    for r :: "('e, 'x) rresult" and f :: "'x \<Rightarrow> ('e, 'y) rresult" by (cases r) auto
  have bad: "add_globs L built hs = Inl (BadGlob g) \<Longrightarrow>
      g \<in> set hs \<and> \<not> list_all (lib_glob_ok L) (adjusted_globs g)" for built hs
    by (induction L built hs rule: add_globs.induct) (auto split: if_splits)
  have other: "from_secs L x \<noteq> Inl (BadGlob g)" "from_secs_opt L v \<noteq> Inl (BadGlob g)"
    "e \<noteq> BadGlob g \<Longrightarrow> regex_set L e ps \<noteq> Inl (BadGlob g)" for x v e ps
    by (auto simp: from_secs_def from_secs_opt_def regex_set_def rbind_def split: option.splits sum.splits)
  have err: "rbind r f = Inl e \<longleftrightarrow> r = Inl e \<or> (\<exists>x. r = Inr x \<and> f x = Inl e)"
    for r :: "('e, 'x) rresult" and f :: "'x \<Rightarrow> ('e, 'y) rresult" and e by (cases r) auto
  have bs: "build_glob_set L hs = Inl (BadGlob g) \<Longrightarrow>
      g \<in> set hs \<and> \<not> list_all (lib_glob_ok L) (adjusted_globs g)" for hs
    unfolding build_glob_set_def err using bad by auto
  have two: "options_new L env a c = Err (BadGlob g) \<longrightarrow>
        g \<in> set (arg_file a @ cfg_examine_globs c @ arg_exclude a @ cfg_exclude_globs c)
        \<and> \<not> list_all (lib_glob_ok L) (adjusted_globs g)"
    unfolding options_new_def err
    using other bs [of "arg_file a @ cfg_examine_globs c"] bs [of "arg_exclude a @ cfg_exclude_globs c"]
    by fastforce
  have "is_ok (options_new L env a c) \<longleftrightarrow>
      (\<exists>d. from_secs L (unwrap_or (opt_or (arg_minimum_test_timeout a) (cfg_minimum_test_timeout c)) f64_20) = Inr d)
      \<and> (\<exists>d. from_secs_opt L (arg_build_timeout a) = Inr d)
      \<and> (\<exists>x. regex_set L BadExamineRegex (arg_examine_re a @ cfg_examine_re c) = Inr x)
      \<and> (\<exists>x. regex_set L BadExcludeRegex (arg_exclude_re a @ cfg_exclude_re c) = Inr x)
      \<and> (\<exists>x. build_glob_set L (arg_file a @ cfg_examine_globs c) = Inr x)
      \<and> (\<exists>x. build_glob_set L (arg_exclude a @ cfg_exclude_globs c) = Inr x)
      \<and> (\<exists>d. from_secs_opt L (arg_timeout a) = Inr d)"
    unfolding options_new_def chain by (auto simp: chain)
  then have one: "is_ok (options_new L env a c) \<longleftrightarrow>
      lib_from_secs_f64 L (unwrap_or (opt_or (arg_minimum_test_timeout a) (cfg_minimum_test_timeout c)) f64_20) \<noteq> None
      \<and> (\<forall>v\<in>set_option (arg_build_timeout a) \<union> set_option (arg_timeout a). lib_from_secs_f64 L v \<noteq> None)
      \<and> (\<forall>r\<in>set (arg_examine_re a @ cfg_examine_re c @ arg_exclude_re a @ cfg_exclude_re c). lib_regex_ok L r)
      \<and> (\<forall>g\<in>set (arg_file a @ cfg_examine_globs c @ arg_exclude a @ cfg_exclude_globs c).
            \<forall>x\<in>set (adjusted_globs g). lib_glob_ok L x)"
    unfolding fso rs gs fs set_append ball_Un by argo
  show ?thesis by (rule conjI [OF one two])
qed

subsection \<open>Examples\<close>

definition example_libs :: libs where
  "example_libs =
     \<lparr>lib_from_secs_f64 = (\<lambda>x. Some (unat x * 10 ^ 9)), lib_as_secs_f64 = (\<lambda>d. of_nat (d div 10 ^ 9)),
      lib_mul = (\<lambda>x y. x * 5), lib_ceil = (\<lambda>x. x), lib_regex_ok = (\<lambda>_. True),
      lib_regex_match = (\<lambda>r s. sublist r s), lib_glob_ok = (\<lambda>_. True),
      lib_glob_match = (\<lambda>g p. g = p \<or> g = ''**/'' @ p)\<rparr>"


definition default_args :: args where
  "default_args =
     \<lparr>arg_cap_lints = None, arg_profile = None, arg_config = None, arg_no_config = False,
      arg_copy_target = None, arg_copy_vcs = None, arg_gitignore = None, arg_in_place = False,
      arg_no_copy_target = False, arg_leak_dirs = False, arg_mutate_file = None,
      arg_baseline = BaselineRun, arg_build_timeout_multiplier = None, arg_build_timeout = None,
      arg_cargo_arg = [], arg_cargo_test_arg = [], arg_cargo_test_args = [],
      arg_detect_equivalent_mutants = False, arg_check = False, arg_jobs = None,
      arg_jobserver = True, arg_jobserver_tasks = None, arg_list = False, arg_list_files = False,
      arg_minimum_test_timeout = None, arg_shard = None, arg_shuffle = False, arg_timeout = None,
      arg_timeout_multiplier = None, arg_features = [], arg_no_default_features = False,
      arg_all_features = False, arg_examine_re = [], arg_exclude = [], arg_exclude_re = [],
      arg_file = [], arg_in_diff = None, arg_iterate = False, arg_mutate_packages = [],
      arg_skip_calls = [], arg_skip_calls_defaults = None, arg_skip_uncovered = False,
      arg_workspace = False, arg_error = [], arg_dir = None, arg_manifest_path = None,
      arg_version = False, arg_all_logs = False, arg_annotations = AutoAuto, arg_caught = False,
      arg_colors = ColorsAuto, arg_json = False, arg_line_col = True, arg_no_times = False,
      arg_output = None, arg_unviable = False, arg_test_package = [], arg_test_workspace = None,
      arg_common = \<lparr>cm_emit_diffs = None, cm_test_tool = None, cm_sharding = None\<rparr>\<rparr>"

lemmas options_eval = options_new_def from_secs_def from_secs_opt_def regex_set_def build_glob_set_def
  adjusted_globs_def default_args_def default_config_def example_libs_def


lemma options_new_fails_iff_witness:
  "\<not> is_ok (options_new (example_libs\<lparr>lib_glob_ok := (\<lambda>g. CHR ''['' \<notin> set g)\<rparr>) (\<lambda>_. None)
        (default_args\<lparr>arg_file := [''a'', ''['']\<rparr>) default_config)
    \<and> options_new (example_libs\<lparr>lib_glob_ok := (\<lambda>g. CHR ''['' \<notin> set g)\<rparr>) (\<lambda>_. None)
        (default_args\<lparr>arg_file := [''a'', ''['']\<rparr>) default_config = Err (BadGlob ''['')
    \<and> ''['' \<in> set [''a'', ''['']"
proof -
  let ?L = "example_libs\<lparr>lib_glob_ok := (\<lambda>g. CHR ''['' \<notin> set g)\<rparr>"
  let ?a = "default_args\<lparr>arg_file := [''a'', ''['']\<rparr>"
  have e: "options_new ?L (\<lambda>_. None) ?a default_config = Err (BadGlob ''['')"
    by (simp add: options_eval)
  show ?thesis using options_new_fails_iff [of ?L "\<lambda>_. None" ?a default_config "''[''"] e by simp
qed

end
