(* ===== verification/Visit.thy ===== *)
theory Visit
  imports Attributes ControlFlow FnValue Options
begin

text \<open>
  The discovery of mutants in one source file (\<open>DiscoveryVisitor\<close> in \<open>src/src/visit.rs\<close>): the
  visitor's state, one definition for each of its visiting functions, the traversal that calls them,
  and \<open>walk_file\<close>.

  Each visiting function takes as \<open>descend\<close> the default traversal of the node below, which \<open>syn\<close>
  provides: the visit of the nodes below it in order.  \<^const>\<open>None\<close> is a panic: a failed assertion,
  an \<open>expect\<close> or \<open>unwrap\<close>, or a node without a part that its kind has.  Tracing is left out.
\<close>

subsection \<open>The state\<close>

record mod_namespace =
  mn_name :: string
  mn_path_attribute :: "path option"
  mn_source_location :: span

definition get_filesystem_name :: "mod_namespace \<Rightarrow> path" where
  "get_filesystem_name m = (case mn_path_attribute m of None \<Rightarrow> mn_name m | Some p \<Rightarrow> p)"

record fn_context =
  fx_body_span :: "span option"
  fx_output :: return_type
  fx_body_is_single_return :: bool

text \<open>What does not change during the visit; the last two are from the libraries: \<open>get_ident\<close> on paths,
  and the text of the error about regular expressions that do not compile.\<close>

record visit_ctx =
  vc_source_file :: source_file
  vc_options :: options
  vc_libs :: libs
  vc_error_exprs :: "token_stream list"
  vc_enums :: enum_index
  vc_get_ident :: get_ident
  vc_regex_error :: "string list \<Rightarrow> string"

record visitor =
  dv_mutants :: "mutant list"
  dv_mod_namespace_stack :: "mod_namespace list"
  dv_namespace_stack :: "string list"
  dv_fn_stack :: "function_info list"
  dv_fn_context_stack :: "fn_context list"
  dv_guard_spans :: "span list"
  dv_closure_depth :: usize
  dv_const_eval_depth :: usize
  dv_external_mods :: "mod_namespace list list"
  dv_exclude_re_stack :: "string list list"
  dv_error :: "string option"
  dv_control_flow_memo :: flow_memo

type_synonym visit = "visitor \<Rightarrow> visitor option"

definition new_visitor :: visitor where
  "new_visitor =
     \<lparr>dv_mutants = [], dv_mod_namespace_stack = [], dv_namespace_stack = [], dv_fn_stack = [],
      dv_fn_context_stack = [], dv_guard_spans = [], dv_closure_depth = 0, dv_const_eval_depth = 0,
      dv_external_mods = [], dv_exclude_re_stack = [], dv_error = None,
      dv_control_flow_memo = empty_memo\<rparr>"

text \<open>\<open>Vec::pop\<close>: what is left and what was last.\<close>

definition pop :: "'a list \<Rightarrow> ('a list \<times> 'a) option" where
  "pop xs = (if xs = [] then None else Some (butlast xs, last xs))"

subsection \<open>Parts of nodes\<close>

definition kid :: "node \<Rightarrow> nat \<Rightarrow> node option" where
  "kid n i = get_opt (nd_kids n) i"

definition is_wild :: "node \<Rightarrow> bool" where
  "is_wild p \<longleftrightarrow> (case nd_kind p of KPattern w _ \<Rightarrow> w | _ \<Rightarrow> False)"

definition is_arm :: "node \<Rightarrow> bool" where
  "is_arm n \<longleftrightarrow> (case nd_kind n of KArm _ \<Rightarrow> True | _ \<Rightarrow> False)"

definition has_guard :: "node \<Rightarrow> bool" where
  "has_guard n \<longleftrightarrow> (case nd_kind n of KArm g \<Rightarrow> g | _ \<Rightarrow> False)"

definition arm_pattern :: "node \<Rightarrow> node option" where
  "arm_pattern a = kid a 0"

definition arm_guard :: "node \<Rightarrow> node option" where
  "arm_guard a = (if has_guard a then kid a 1 else None)"

definition is_catchall :: "node \<Rightarrow> bool" where
  "is_catchall a \<longleftrightarrow> (case arm_pattern a of Some p \<Rightarrow> is_wild p | None \<Rightarrow> False)"

definition function_body_span :: "node \<Rightarrow> span option" where
  "function_body_span b =
     (if nd_kids b = [] then None
      else Some \<lparr>sp_start = sp_start (nd_span (hd (nd_kids b))), sp_end = sp_end (nd_span (last (nd_kids b)))\<rparr>)"

definition block_is_empty :: "node \<Rightarrow> bool" where
  "block_is_empty b \<longleftrightarrow> nd_kids b = []"

definition fn_sig_excluded :: "signature \<Rightarrow> bool" where
  "fn_sig_excluded sg \<longleftrightarrow> sg_unsafe sg"

definition is_return_stmt :: "node \<Rightarrow> bool" where
  "is_return_stmt st \<longleftrightarrow>
     (case (nd_kind st, kid st 0) of (KStmtExpr _, Some e) \<Rightarrow> is_return (nd_kind e) | _ \<Rightarrow> False)"

definition fn_context_new :: "signature \<Rightarrow> node \<Rightarrow> fn_context" where
  "fn_context_new sg b =
     \<lparr>fx_body_span = function_body_span b, fx_output = sg_output sg,
      fx_body_is_single_return = (case nd_kids b of [st] \<Rightarrow> is_return_stmt st | _ \<Rightarrow> False)\<rparr>"

subsection \<open>Functions and namespaces\<close>

definition enter_function :: "signature \<Rightarrow> span \<Rightarrow> visitor \<Rightarrow> visitor \<times> function_info" where
  "enter_function sg sp s =
     (let names = dv_namespace_stack s @ [sg_ident sg];
          f = \<lparr>fi_name = join ''::'' names, fi_return_type = to_pretty_string (sg_output_tokens sg), fi_span = sp\<rparr>
      in (s\<lparr>dv_namespace_stack := names, dv_fn_stack := dv_fn_stack s @ [f]\<rparr>, f))"

definition leave_function :: "function_info \<Rightarrow> visit" where
  "leave_function f s =
     Option.bind (pop (dv_namespace_stack s)) (\<lambda>(names, _).
     Option.bind (pop (dv_fn_stack s)) (\<lambda>(fns, f1).
       if f1 = f then Some (s\<lparr>dv_namespace_stack := names, dv_fn_stack := fns\<rparr>) else None))"

definition in_namespace :: "string \<Rightarrow> visit \<Rightarrow> visit" where
  "in_namespace name f s =
     Option.bind (f (s\<lparr>dv_namespace_stack := dv_namespace_stack s @ [name]\<rparr>)) (\<lambda>s1.
     Option.bind (pop (dv_namespace_stack s1)) (\<lambda>(names, n1).
       if n1 = name then Some (s1\<lparr>dv_namespace_stack := names\<rparr>) else None))"

definition in_const_eval_scope :: "visit \<Rightarrow> visit" where
  "in_const_eval_scope f s =
     Option.bind (f (s\<lparr>dv_const_eval_depth := dv_const_eval_depth s + 1\<rparr>)) (\<lambda>s1.
       if dv_const_eval_depth s1 = 0 then None
       else Some (s1\<lparr>dv_const_eval_depth := dv_const_eval_depth s1 - 1\<rparr>))"

subsection \<open>Patterns of attributes in scope\<close>

datatype exclude_scope = ScopePushed | ScopeEmpty | ScopeError

definition set_error :: "string \<Rightarrow> visitor \<Rightarrow> visitor" where
  "set_error msg s = s\<lparr>dv_error := opt_or (dv_error s) (Some msg)\<rparr>"

definition push_exclude_re :: "visit_ctx \<Rightarrow> attribute list \<Rightarrow> visitor \<Rightarrow> visitor \<times> exclude_scope" where
  "push_exclude_re C as s =
     (case attrs_exclude_re_patterns as of
        Err (sp, msg) \<Rightarrow>
          (set_error (format_source_location (vc_source_file C) (sp_start sp) @ '': '' @ msg) s, ScopeError)
      | Ok patterns \<Rightarrow>
          if patterns = [] then (s, ScopeEmpty)
          else if list_all (lib_regex_ok (vc_libs C)) patterns
          then (s\<lparr>dv_exclude_re_stack := dv_exclude_re_stack s @ [patterns]\<rparr>, ScopePushed)
          else
            (let location =
               (case find (\<lambda>a. path_is (at_path a) [''mutants'', ''exclude_re''] \<or> path_is (at_path a) [''cfg_attr'']) as of
                  None \<Rightarrow> sf_slash_path (vc_source_file C)
                | Some a \<Rightarrow> format_source_location (vc_source_file C) (sp_start (at_span a)));
               quoted = join '', '' (map (\<lambda>p. [CHR 0x22] @ p @ [CHR 0x22]) patterns)
             in (set_error (location @ '': invalid regex in #[mutants::exclude_re('' @ quoted @ '')]: ''
                            @ vc_regex_error C patterns) s, ScopeError)))"

definition pop_exclude_re :: visit where
  "pop_exclude_re s =
     map_option (\<lambda>(res, _). s\<lparr>dv_exclude_re_stack := res\<rparr>) (pop (dv_exclude_re_stack s))"

definition in_exclude_re_scope :: "visit_ctx \<Rightarrow> attribute list \<Rightarrow> visit \<Rightarrow> visit" where
  "in_exclude_re_scope C as f s =
     (case push_exclude_re C as s of
        (s1, ScopeError) \<Rightarrow> Some s1
      | (s1, ScopeEmpty) \<Rightarrow> f s1
      | (s1, ScopePushed) \<Rightarrow> Option.bind (f s1) pop_exclude_re)"

definition excluded_by_attr_re :: "visit_ctx \<Rightarrow> visitor \<Rightarrow> mutant \<Rightarrow> bool option" where
  "excluded_by_attr_re C s m =
     (if dv_exclude_re_stack s = [] then Some False
      else map_option (\<lambda>name. list_ex (\<lambda>re. regex_set_match (vc_libs C) re name) (dv_exclude_re_stack s))
        (full_name m))"

subsection \<open>Collecting mutants\<close>

definition push_mutant :: "mutant \<Rightarrow> visitor \<Rightarrow> visitor" where
  "push_mutant m s = s\<lparr>dv_mutants := dv_mutants s @ [m]\<rparr>"

definition new_mutant ::
  "visit_ctx \<Rightarrow> visitor \<Rightarrow> span \<Rightarrow> string option \<Rightarrow> string \<Rightarrow> genre \<Rightarrow> mutation_target option \<Rightarrow> mutant" where
  "new_mutant C s sp short repl g target =
     new_discovered (vc_source_file C) (last_opt (dv_fn_stack s)) sp short repl g target
       (dv_const_eval_depth s > 0)"

definition collect_mutant :: "visit_ctx \<Rightarrow> span \<Rightarrow> string option \<Rightarrow> token_stream \<Rightarrow> genre \<Rightarrow> visit" where
  "collect_mutant C sp short repl g s =
     (let m = new_mutant C s sp short (to_pretty_string repl) g None in
      Option.bind (excluded_by_attr_re C s m) (\<lambda>excluded.
        if excluded then Some s
        else Option.bind (allows_mutant (vc_libs C) (vc_options C) m) (\<lambda>allowed.
          if allowed then Some (push_mutant m s) else Some s)))"

text \<open>A loop whose body may panic.\<close>

fun for_each :: "('a \<Rightarrow> visit) \<Rightarrow> 'a list \<Rightarrow> visit" where
  "for_each f [] s = Some s"
| "for_each f (x # xs) s = Option.bind (f x s) (for_each f xs)"

definition replacements_of :: "visit_ctx \<Rightarrow> return_type \<Rightarrow> token_stream list" where
  "replacements_of C rt = return_type_replacements (vc_get_ident C) (vc_error_exprs C) (vc_enums C) rt"

definition collect_fn_mutants :: "visit_ctx \<Rightarrow> signature \<Rightarrow> node \<Rightarrow> visit" where
  "collect_fn_mutants C sg b s =
     (if dv_fn_stack s = [] then Some s
      else Option.bind (function_body_span b) (\<lambda>body_span.
        let orig_block = to_pretty_string (nd_tokens b) in
        for_each (\<lambda>rep.
            let new_block = to_pretty_string [Group Brace rep] in
            if orig_block = new_block then Some
            else collect_mutant C body_span None rep FnValue)
          (replacements_of C (sg_output sg)) s))"

definition path_in_skip_calls :: "visit_ctx \<Rightarrow> string list \<Rightarrow> bool" where
  "path_in_skip_calls C p = list_ex (\<lambda>c. path_ends_with p c) (opt_skip_calls (vc_options C))"

definition is_skipped_call :: "visit_ctx \<Rightarrow> node \<Rightarrow> bool" where
  "is_skipped_call C e =
     (case nd_kind e of
        KCall \<Rightarrow> (case kid e 0 of
                    Some f \<Rightarrow> (case nd_kind f of KPath p _ \<Rightarrow> path_in_skip_calls C p | _ \<Rightarrow> False)
                  | None \<Rightarrow> False)
      | KMethodCall m \<Rightarrow> list_ex (\<lambda>c. m = c) (opt_skip_calls (vc_options C))
      | _ \<Rightarrow> False)"

subsection \<open>Items\<close>

definition visit_file :: "visit_ctx \<Rightarrow> node \<Rightarrow> visit \<Rightarrow> visit" where
  "visit_file C n descend s =
     (if attrs_excluded (nd_attrs n) then Some s
      else in_exclude_re_scope C (nd_attrs n) descend s)"

text \<open>What the three kinds of functions do once nothing excludes them.\<close>

definition visit_body :: "visit_ctx \<Rightarrow> signature \<Rightarrow> node \<Rightarrow> visit \<Rightarrow> visit" where
  "visit_body C sg b descend s =
     Option.bind (collect_fn_mutants C sg b s) (\<lambda>s1.
     Option.bind (descend (s1\<lparr>dv_fn_context_stack := dv_fn_context_stack s1 @ [fn_context_new sg b]\<rparr>)) (\<lambda>s2.
       Some (s2\<lparr>dv_fn_context_stack := butlast (dv_fn_context_stack s2)\<rparr>)))"

definition in_function :: "signature \<Rightarrow> span \<Rightarrow> visit \<Rightarrow> visit" where
  "in_function sg sp body s =
     (case enter_function sg sp s of
        (s1, f) \<Rightarrow>
          Option.bind (if sg_const sg then in_const_eval_scope body s1 else body s1) (leave_function f))"

definition visit_fn :: "visit_ctx \<Rightarrow> node \<Rightarrow> signature \<Rightarrow> node \<Rightarrow> visit \<Rightarrow> visit" where
  "visit_fn C n sg b descend =
     in_exclude_re_scope C (nd_attrs n) (in_function sg (nd_span n) (visit_body C sg b descend))"

definition visit_item_fn :: "visit_ctx \<Rightarrow> node \<Rightarrow> signature \<Rightarrow> visit \<Rightarrow> visit" where
  "visit_item_fn C n sg descend s =
     Option.bind (last_opt (nd_kids n)) (\<lambda>b.
       if fn_sig_excluded sg \<or> attrs_excluded (nd_attrs n) \<or> block_is_empty b then Some s
       else visit_fn C n sg b descend s)"

definition visit_impl_item_fn :: "visit_ctx \<Rightarrow> node \<Rightarrow> signature \<Rightarrow> visit \<Rightarrow> visit" where
  "visit_impl_item_fn C n sg descend s =
     Option.bind (last_opt (nd_kids n)) (\<lambda>b.
       if fn_sig_excluded sg \<or> attrs_excluded (nd_attrs n) \<or> sg_ident sg = ''new'' \<or> block_is_empty b
       then Some s
       else visit_fn C n sg b descend s)"

definition visit_trait_item_fn :: "visit_ctx \<Rightarrow> node \<Rightarrow> signature \<Rightarrow> bool \<Rightarrow> visit \<Rightarrow> visit" where
  "visit_trait_item_fn C n sg has_default descend s =
     (if fn_sig_excluded sg \<or> attrs_excluded (nd_attrs n) \<or> sg_ident sg = ''new'' then Some s
      else if \<not> has_default then Some s
      else Option.bind (last_opt (nd_kids n)) (\<lambda>b.
        if block_is_empty b then Some s else visit_fn C n sg b descend s))"

text \<open>\<open>visit_item_const\<close>, \<open>visit_item_static\<close>, \<open>visit_impl_item_const\<close> and \<open>visit_trait_item_const\<close>.\<close>

definition visit_const :: "node \<Rightarrow> visit \<Rightarrow> visit" where
  "visit_const n descend s =
     (if attrs_excluded (nd_attrs n) then Some s else in_const_eval_scope descend s)"

definition visit_type_array :: "visit \<Rightarrow> visit" where
  "visit_type_array descend s = in_const_eval_scope descend s"

definition visit_generic_argument :: "bool \<Rightarrow> visit \<Rightarrow> visit" where
  "visit_generic_argument is_const descend s =
     (if is_const then in_const_eval_scope descend s else descend s)"

definition visit_item_impl ::
  "visit_ctx \<Rightarrow> node \<Rightarrow> token_stream \<Rightarrow> (string list \<times> token_stream) option \<Rightarrow> visit \<Rightarrow> visit" where
  "visit_item_impl C n self_ty trait descend s =
     (if attrs_excluded (nd_attrs n) then Some s
      else in_exclude_re_scope C (nd_attrs n) (\<lambda>v.
        let type_name = to_pretty_string self_ty in
        case trait of
          Some (p, trait_path) \<Rightarrow>
            if path_ends_with p ''Default'' then Some v
            else in_namespace (''<impl '' @ to_pretty_string trait_path @ '' for '' @ type_name @ ''>'') descend v
        | None \<Rightarrow> in_namespace type_name descend v) s)"

definition visit_item_trait :: "visit_ctx \<Rightarrow> node \<Rightarrow> string \<Rightarrow> visit \<Rightarrow> visit" where
  "visit_item_trait C n name descend s =
     (if attrs_excluded (nd_attrs n) then Some s
      else in_exclude_re_scope C (nd_attrs n) (in_namespace name descend) s)"

definition in_mod :: "node \<Rightarrow> string \<Rightarrow> bool \<Rightarrow> visit \<Rightarrow> visit" where
  "in_mod n mod_name has_content descend v =
     (case find_path_attribute (nd_attrs n) of
        Err e \<Rightarrow> Some v
      | Ok path_attribute \<Rightarrow>
          let mn = \<lparr>mn_name = mod_name, mn_path_attribute = path_attribute, mn_source_location = nd_span n\<rparr>;
              stack = dv_mod_namespace_stack v @ [mn];
              v1 = v\<lparr>dv_mod_namespace_stack := stack\<rparr>;
              v2 = (if has_content then v1
                    else v1\<lparr>dv_external_mods := dv_external_mods v1 @ [stack]\<rparr>)
          in Option.bind (in_namespace mod_name descend v2) (\<lambda>v3.
               Option.bind (pop (dv_mod_namespace_stack v3)) (\<lambda>(rest, m1).
                 if m1 = mn then Some (v3\<lparr>dv_mod_namespace_stack := rest\<rparr>) else None)))"

definition visit_item_mod :: "visit_ctx \<Rightarrow> node \<Rightarrow> string \<Rightarrow> bool \<Rightarrow> visit \<Rightarrow> visit" where
  "visit_item_mod C n mod_name has_content descend s =
     (if attrs_excluded (nd_attrs n) then Some s
      else in_exclude_re_scope C (nd_attrs n) (in_mod n mod_name has_content descend) s)"

subsection \<open>Expressions\<close>

definition visit_expr_call :: "visit_ctx \<Rightarrow> node \<Rightarrow> visit \<Rightarrow> visit" where
  "visit_expr_call C n descend s =
     (if attrs_excluded (nd_attrs n) then Some s
      else in_exclude_re_scope C (nd_attrs n) (\<lambda>v.
        Option.bind (kid n 0) (\<lambda>f.
          case nd_kind f of
            KPath p _ \<Rightarrow> if path_in_skip_calls C p then Some v else descend v
          | _ \<Rightarrow> descend v)) s)"

definition visit_expr_method_call :: "visit_ctx \<Rightarrow> node \<Rightarrow> string \<Rightarrow> visit \<Rightarrow> visit" where
  "visit_expr_method_call C n called descend s =
     (if attrs_excluded (nd_attrs n) then Some s
      else in_exclude_re_scope C (nd_attrs n) (\<lambda>v.
        if list_ex (\<lambda>c. called = c) (opt_skip_calls (vc_options C)) then Some v else descend v) s)"

definition punct :: "string \<Rightarrow> token_stream" where
  "punct s = map Punct s"

definition binary_replacements :: "bin_op \<Rightarrow> token_stream list" where
  "binary_replacements op =
     (case op of
        OpEq \<Rightarrow> [punct ''!='']
      | OpNe \<Rightarrow> [punct ''=='']
      | OpAnd \<Rightarrow> [punct ''||'']
      | OpOr \<Rightarrow> [punct ''&&'']
      | OpLt \<Rightarrow> [punct ''=='', punct ''>'', punct ''<='']
      | OpGt \<Rightarrow> [punct ''=='', punct ''<'', punct ''>='']
      | OpLe \<Rightarrow> [punct ''>'', punct ''<'']
      | OpGe \<Rightarrow> [punct ''<'', punct ''>'']
      | OpAdd \<Rightarrow> [punct ''-'', punct ''*'']
      | OpAddAssign \<Rightarrow> [punct ''-='', punct ''*='']
      | OpSub \<Rightarrow> [punct ''+'', punct ''/'']
      | OpMul \<Rightarrow> [punct ''+'', punct ''/'']
      | OpSubAssign \<Rightarrow> [punct ''+='', punct ''/='']
      | OpMulAssign \<Rightarrow> [punct ''+='', punct ''/='']
      | OpDiv \<Rightarrow> [punct ''%'', punct ''*'']
      | OpDivAssign \<Rightarrow> [punct ''%='', punct ''*='']
      | OpRem \<Rightarrow> [punct ''/'', punct ''+'']
      | OpRemAssign \<Rightarrow> [punct ''/='', punct ''+='']
      | OpShl \<Rightarrow> [punct ''>>'']
      | OpShlAssign \<Rightarrow> [punct ''>>='']
      | OpShr \<Rightarrow> [punct ''<<'']
      | OpShrAssign \<Rightarrow> [punct ''<<='']
      | OpBitAnd \<Rightarrow> [punct ''|'', punct ''^'']
      | OpBitAndAssign \<Rightarrow> [punct ''|='']
      | OpBitOr \<Rightarrow> [punct ''&'', punct ''^'']
      | OpBitOrAssign \<Rightarrow> [punct ''&='']
      | OpBitXor \<Rightarrow> [punct ''|'', punct ''&'']
      | OpBitXorAssign \<Rightarrow> [punct ''|='', punct ''&='']
      | OpOtherBin \<Rightarrow> [])"

definition visit_expr_binary :: "visit_ctx \<Rightarrow> node \<Rightarrow> bin_op \<Rightarrow> span \<Rightarrow> visit \<Rightarrow> visit" where
  "visit_expr_binary C n op op_span descend s =
     (if attrs_excluded (nd_attrs n) then Some s
      else Option.bind
        (for_each (\<lambda>rep. collect_mutant C op_span None rep BinaryOperator) (binary_replacements op) s)
        descend)"

definition visit_expr_unary :: "visit_ctx \<Rightarrow> node \<Rightarrow> un_op \<Rightarrow> span \<Rightarrow> visit \<Rightarrow> visit" where
  "visit_expr_unary C n op op_span descend s =
     (if attrs_excluded (nd_attrs n) then Some s
      else in_exclude_re_scope C (nd_attrs n) (\<lambda>v.
        Option.bind
          (if op = OpNot \<or> op = OpNeg then collect_mutant C op_span None [] UnaryOperator v else Some v)
          descend) s)"

definition bool_token :: "bool \<Rightarrow> token_stream" where
  "bool_token b = [Ident (if b then ''true'' else ''false'')]"

definition is_let_or_lit :: "node \<Rightarrow> bool" where
  "is_let_or_lit e \<longleftrightarrow> (case nd_kind e of KLet \<Rightarrow> True | KLit _ \<Rightarrow> True | _ \<Rightarrow> False)"

definition visit_expr_if :: "visit_ctx \<Rightarrow> node \<Rightarrow> visit \<Rightarrow> visit" where
  "visit_expr_if C n descend s =
     (if attrs_excluded (nd_attrs n) then Some s
      else in_exclude_re_scope C (nd_attrs n) (\<lambda>v.
        Option.bind (kid n 0) (\<lambda>cond.
        Option.bind (kid n 1) (\<lambda>then_branch.
        Option.bind
          (if is_let_or_lit cond then Some v
           else Option.bind (collect_mutant C (nd_span cond) None (bool_token True) IfCondition v) (\<lambda>v1.
             case block_contains_loop_exit then_branch (dv_control_flow_memo v1) of
               (memo, exits) \<Rightarrow>
                 let v2 = v1\<lparr>dv_control_flow_memo := memo\<rparr> in
                 if exits then Some v2
                 else collect_mutant C (nd_span cond) None (bool_token False) IfCondition v2))
          descend))) s)"

definition visit_expr_while :: "visit_ctx \<Rightarrow> node \<Rightarrow> visit \<Rightarrow> visit" where
  "visit_expr_while C n descend s =
     (if attrs_excluded (nd_attrs n) then Some s
      else in_exclude_re_scope C (nd_attrs n) (\<lambda>v.
        Option.bind (kid n 0) (\<lambda>cond.
        Option.bind
          (if is_let_or_lit cond then Some v
           else collect_mutant C (nd_span cond) None (bool_token False) WhileCondition v)
          descend)) s)"

definition delete_arm :: "visit_ctx \<Rightarrow> node \<Rightarrow> visit" where
  "delete_arm C arm v =
     (if is_catchall arm \<or> has_guard arm then Some v
      else Option.bind (arm_pattern arm) (\<lambda>pat.
        collect_mutant C (nd_span arm) (Some (to_pretty_string (nd_tokens pat))) [] MatchArm v))"

definition replace_guard :: "visit_ctx \<Rightarrow> node \<Rightarrow> visit" where
  "replace_guard C guard v =
     Option.bind (collect_mutant C (nd_span guard) None (bool_token True) MatchArmGuard v) (\<lambda>v1.
       collect_mutant C (nd_span guard) None (bool_token False) MatchArmGuard v1)"

definition visit_expr_match :: "visit_ctx \<Rightarrow> node \<Rightarrow> visit \<Rightarrow> visit" where
  "visit_expr_match C n descend s =
     (if attrs_excluded (nd_attrs n) then Some s
      else in_exclude_re_scope C (nd_attrs n) (\<lambda>v.
        let arms = filter is_arm (nd_kids n);
            guards = List.map_filter arm_guard arms
        in
        Option.bind (if list_ex is_catchall arms then for_each (delete_arm C) arms v else Some v) (\<lambda>v1.
        Option.bind (for_each (replace_guard C) guards v1) (\<lambda>v2.
          let guards_below = length (dv_guard_spans v2) in
          Option.bind (descend (v2\<lparr>dv_guard_spans := dv_guard_spans v2 @ map nd_span guards\<rparr>)) (\<lambda>v3.
            Some (v3\<lparr>dv_guard_spans := take guards_below (dv_guard_spans v3)\<rparr>))))) s)"

definition visit_expr_lit :: "visit_ctx \<Rightarrow> node \<Rightarrow> bool option \<Rightarrow> visit \<Rightarrow> visit" where
  "visit_expr_lit C n lit descend s =
     Option.bind
       (case lit of
          None \<Rightarrow> Some s
        | Some lit_value \<Rightarrow>
            let duplicates_fn_value =
                  (case last_opt (dv_fn_context_stack s) of
                     None \<Rightarrow> False | Some c \<Rightarrow> fx_body_span c = Some (nd_span n));
                duplicates_match_guard = (nd_span n \<in> set (dv_guard_spans s))
            in if \<not> duplicates_fn_value \<and> \<not> duplicates_match_guard
               then collect_mutant C (nd_span n) None (bool_token (\<not> lit_value)) BoolLiteral s
               else Some s)
       descend"

text \<open>Deleting a field of a struct expression: the span takes in the comma.\<close>

definition delete_field :: "visit_ctx \<Rightarrow> string \<Rightarrow> node \<Rightarrow> visit" where
  "delete_field C struct_name fv v =
     (case nd_kind fv of
        KFieldValue (Some field_name) comma \<Rightarrow>
          let sp = (case comma of
                      Some c \<Rightarrow> \<lparr>sp_start = sp_start (nd_span fv), sp_end = sp_end c\<rparr>
                    | None \<Rightarrow> nd_span fv);
              m = new_mutant C v sp None [] StructField (Some (StructLiteralField field_name struct_name))
          in Option.bind (excluded_by_attr_re C v m) (\<lambda>excluded.
               if excluded then Some v else Some (push_mutant m v))
      | _ \<Rightarrow> Some v)"

definition visit_expr_struct :: "visit_ctx \<Rightarrow> node \<Rightarrow> token_stream \<Rightarrow> bool \<Rightarrow> visit \<Rightarrow> visit" where
  "visit_expr_struct C n p has_rest descend s =
     (if attrs_excluded (nd_attrs n) then Some s
      else in_exclude_re_scope C (nd_attrs n) (\<lambda>v.
        Option.bind (if has_rest then for_each (delete_field C (to_pretty_string p)) (nd_kids n) v else Some v)
          descend) s)"

subsection \<open>Statements\<close>

definition local_ident :: "node \<Rightarrow> string option" where
  "local_ident st =
     (case (nd_kind st, kid st 0) of
        (KStmtLocal, Some p) \<Rightarrow> (case nd_kind p of KPattern _ i \<Rightarrow> i | _ \<Rightarrow> None)
      | _ \<Rightarrow> None)"

definition untyped_local_idents :: "node \<Rightarrow> string set" where
  "untyped_local_idents b = set (List.map_filter local_ident (nd_kids b))"

fun root_ident :: "node \<Rightarrow> string option" and first_root :: "node list \<Rightarrow> string option" where
  "root_ident (Node i k as sp ts kids) =
     (case k of
        KPath _ get_ident \<Rightarrow> get_ident
      | KField \<Rightarrow> first_root kids
      | KIndex \<Rightarrow> first_root kids
      | KUnary OpDeref _ \<Rightarrow> first_root kids
      | KParen \<Rightarrow> first_root kids
      | _ \<Rightarrow> None)"
| "first_root [] = None"
| "first_root (n # ns) = root_ident n"

text \<open>What decides whether a statement can be deleted, before control flow is asked about: \<^const>\<open>None\<close>
  is not a kind of statement to delete.\<close>

definition deletable_root :: "node \<Rightarrow> string option option" where
  "deletable_root e =
     (case nd_kind e of
        KMethodCall _ \<Rightarrow> Some (first_root (nd_kids e))
      | KAssign \<Rightarrow> Some (first_root (nd_kids e))
      | KCall \<Rightarrow> Some None
      | _ \<Rightarrow> None)"

definition is_deletable_statement :: "node \<Rightarrow> string set \<Rightarrow> flow_memo \<Rightarrow> flow_memo \<times> bool" where
  "is_deletable_statement e untyped_locals memo =
     (case deletable_root e of
        None \<Rightarrow> (memo, False)
      | Some root \<Rightarrow>
          if (case root of None \<Rightarrow> False | Some ident \<Rightarrow> ident \<in> untyped_locals) then (memo, False)
          else (case contains_control_flow e memo of (memo1, found) \<Rightarrow> (memo1, \<not> found)))"

definition delete_statement :: "visit_ctx \<Rightarrow> string set \<Rightarrow> node \<Rightarrow> visit" where
  "delete_statement C untyped_locals st v =
     (case nd_kind st of
        KStmtExpr (Some semi) \<Rightarrow>
          Option.bind (kid st 0) (\<lambda>e.
            case is_deletable_statement e untyped_locals (dv_control_flow_memo v) of
              (memo, deletable) \<Rightarrow>
                let v1 = v\<lparr>dv_control_flow_memo := memo\<rparr> in
                if deletable \<and> \<not> is_skipped_call C e
                then collect_mutant C \<lparr>sp_start = sp_start (nd_span e), sp_end = sp_end semi\<rparr> None [] DeleteStatement v1
                else Some v1)
      | _ \<Rightarrow> Some v)"

definition visit_block :: "visit_ctx \<Rightarrow> node \<Rightarrow> visit \<Rightarrow> visit" where
  "visit_block C n descend s =
     Option.bind (for_each (delete_statement C (untyped_local_idents n)) (nd_kids n) s) descend"

text \<open>\<open>visit_expr_closure\<close> and \<open>visit_expr_async\<close>.\<close>

definition visit_expr_closure :: "visit \<Rightarrow> visit" where
  "visit_expr_closure descend s =
     Option.bind (descend (s\<lparr>dv_closure_depth := dv_closure_depth s + 1\<rparr>)) (\<lambda>s1.
       if dv_closure_depth s1 = 0 then None
       else Some (s1\<lparr>dv_closure_depth := dv_closure_depth s1 - 1\<rparr>))"

definition visit_expr_return :: "visit_ctx \<Rightarrow> node \<Rightarrow> bool \<Rightarrow> visit \<Rightarrow> visit" where
  "visit_expr_return C n has_expr descend s =
     Option.bind
       (if dv_closure_depth s \<noteq> 0 \<or> \<not> has_expr then Some s
        else Option.bind (kid n 0) (\<lambda>e.
          case last_opt (dv_fn_context_stack s) of
            None \<Rightarrow> Some s
          | Some context \<Rightarrow>
              if fx_body_is_single_return context \<or> fx_output context = ReturnDefault then Some s
              else for_each (\<lambda>rep.
                  if to_pretty_string rep = to_pretty_string (nd_tokens e) then Some
                  else collect_mutant C (nd_span e) None rep ReturnValue)
                (replacements_of C (fx_output context)) s))
       descend"

subsection \<open>The traversal\<close>

text \<open>Patterns are not entered; whatever has no visiting function of its own is just traversed.\<close>

definition visit_node :: "visit_ctx \<Rightarrow> node \<Rightarrow> visit \<Rightarrow> visit" where
  "visit_node C n descend =
     (case nd_kind n of
        KFile \<Rightarrow> visit_file C n descend
      | KItemFn sg \<Rightarrow> visit_item_fn C n sg descend
      | KImplItemFn sg \<Rightarrow> visit_impl_item_fn C n sg descend
      | KTraitItemFn sg has_default \<Rightarrow> visit_trait_item_fn C n sg has_default descend
      | KItemConst \<Rightarrow> visit_const n descend
      | KItemStatic \<Rightarrow> visit_const n descend
      | KImplItemConst \<Rightarrow> visit_const n descend
      | KTraitItemConst \<Rightarrow> visit_const n descend
      | KItemMod name has_content \<Rightarrow> visit_item_mod C n name has_content descend
      | KItemImpl self_ty trait \<Rightarrow> visit_item_impl C n self_ty trait descend
      | KItemTrait name \<Rightarrow> visit_item_trait C n name descend
      | KTypeArray \<Rightarrow> visit_type_array descend
      | KGenericArgument is_const \<Rightarrow> visit_generic_argument is_const descend
      | KPattern _ _ \<Rightarrow> Some
      | KBlock \<Rightarrow> visit_block C n descend
      | KCall \<Rightarrow> visit_expr_call C n descend
      | KMethodCall called \<Rightarrow> visit_expr_method_call C n called descend
      | KBinary op op_span \<Rightarrow> visit_expr_binary C n op op_span descend
      | KUnary op op_span \<Rightarrow> visit_expr_unary C n op op_span descend
      | KIf \<Rightarrow> visit_expr_if C n descend
      | KWhile \<Rightarrow> visit_expr_while C n descend
      | KMatch \<Rightarrow> visit_expr_match C n descend
      | KLit lit \<Rightarrow> visit_expr_lit C n lit descend
      | KStruct p has_rest \<Rightarrow> visit_expr_struct C n p has_rest descend
      | KClosure \<Rightarrow> visit_expr_closure descend
      | KAsync \<Rightarrow> visit_expr_closure descend
      | KReturn has_expr \<Rightarrow> visit_expr_return C n has_expr descend
      | _ \<Rightarrow> descend)"

fun visit_all :: "visit_ctx \<Rightarrow> node \<Rightarrow> visit" and visit_kids :: "visit_ctx \<Rightarrow> node list \<Rightarrow> visit" where
  "visit_all C (Node i k as sp ts kids) s =
     visit_node C (Node i k as sp ts kids) (\<lambda>s1. visit_kids C kids s1) s"
| "visit_kids C [] s = Some s"
| "visit_kids C (n # ns) s = Option.bind (visit_all C n s) (\<lambda>s1. visit_kids C ns s1)"

subsection \<open>Walking a file\<close>

text \<open>What \<open>syn\<close> parses, from an error expression or a whole file, is the parameter \<open>parser\<close>; errors are
  told apart by the context that the code adds to them.\<close>

record parser =
  ps_expr :: "string \<Rightarrow> token_stream option"
  ps_source :: "string \<Rightarrow> node option"
  ps_get_ident :: get_ident
  ps_regex_error :: "string list \<Rightarrow> string"

datatype walk_error =
    LoadFailed path
  | BadErrorValue string
  | ParseFailed string
  | BadAttribute string

fun parsed_error_exprs :: "parser \<Rightarrow> string list \<Rightarrow> (walk_error, token_stream list) rresult" where
  "parsed_error_exprs P [] = Ok []"
| "parsed_error_exprs P (e # es) =
     (case ps_expr P e of
        None \<Rightarrow> Err (BadErrorValue e)
      | Some x \<Rightarrow> rbind (parsed_error_exprs P es) (\<lambda>xs. Ok (x # xs)))"

definition parse_file :: "parser \<Rightarrow> source_file \<Rightarrow> (walk_error, node) rresult" where
  "parse_file P sf =
     (case ps_source P (sf_code sf) of
        None \<Rightarrow> Err (ParseFailed (sf_slash_path sf))
      | Some syn_file \<Rightarrow> Ok syn_file)"

definition walk_ctx :: "libs \<Rightarrow> options \<Rightarrow> parser \<Rightarrow> source_file \<Rightarrow> token_stream list \<Rightarrow> node \<Rightarrow> visit_ctx" where
  "walk_ctx L o' P sf errs syn_file =
     \<lparr>vc_source_file = sf, vc_options = o', vc_libs = L, vc_error_exprs = errs,
      vc_enums = enums_from_file syn_file, vc_get_ident = ps_get_ident P,
      vc_regex_error = ps_regex_error P\<rparr>"

definition visitor_result :: "visitor \<Rightarrow> (walk_error, mutant list \<times> mod_namespace list list) rresult" where
  "visitor_result v =
     (case dv_error v of
        Some e \<Rightarrow> Err (BadAttribute e)
      | None \<Rightarrow> Ok (dv_mutants v, dv_external_mods v))"

definition walk_file ::
  "libs \<Rightarrow> options \<Rightarrow> parser \<Rightarrow> source_file
     \<Rightarrow> (walk_error, mutant list \<times> mod_namespace list list) rresult option" where
  "walk_file L o' P sf =
     (case parsed_error_exprs P (opt_error_values o') of
        Err e \<Rightarrow> Some (Err e)
      | Ok errs \<Rightarrow>
          (case parse_file P sf of
             Err e \<Rightarrow> Some (Err e)
           | Ok syn_file \<Rightarrow>
               map_option visitor_result
                 (visit_all (walk_ctx L o' P sf errs syn_file) syn_file new_visitor)))"

end
