(* ===== verification/VisitFacts.thy ===== *)
theory VisitFacts
  imports Visit
begin

text \<open>
  What a visit does to the visitor's state: it does not panic, it leaves every stack as it found it,
  and it only adds mutants that the attributes and options in force allow.
\<close>

subsection \<open>Trees as the parser builds them\<close>

definition second_is_block :: "node list \<Rightarrow> bool" where
  "second_is_block ns \<longleftrightarrow> (case ns of c # b # _ \<Rightarrow> is_block b | _ \<Rightarrow> False)"

definition shaped_here :: "node \<Rightarrow> bool" where
  "shaped_here n \<longleftrightarrow>
     (case nd_kind n of
        KItemFn _ \<Rightarrow> nd_kids n \<noteq> [] | KImplItemFn _ \<Rightarrow> nd_kids n \<noteq> []
      | KTraitItemFn _ d \<Rightarrow> d \<longrightarrow> nd_kids n \<noteq> []
      | KStmtExpr _ \<Rightarrow> nd_kids n \<noteq> [] | KCall \<Rightarrow> nd_kids n \<noteq> [] | KWhile \<Rightarrow> nd_kids n \<noteq> []
      | KIf \<Rightarrow> second_is_block (nd_kids n)
      | KArm g \<Rightarrow> nd_kids n \<noteq> []
      | KReturn e \<Rightarrow> e \<longrightarrow> nd_kids n \<noteq> []
      | _ \<Rightarrow> True)"

definition shaped :: "node \<Rightarrow> bool" where
  "shaped n \<longleftrightarrow> list_all shaped_here (subnodes n)"

lemma shaped_Node:
  "shaped (Node i k as sp ts kids) \<longleftrightarrow> shaped_here (Node i k as sp ts kids) \<and> list_all shaped kids"
  by (auto simp: shaped_def subnodes_list_concat list_all_iff)

lemma shaped_kids: "shaped n \<Longrightarrow> shaped_here n \<and> list_all shaped (nd_kids n)"
  by (cases n) (simp add: shaped_Node)

subsection \<open>Progress of a visit\<close>

text \<open>The scopes the visitor is in.\<close>

definition scopes :: "visitor \<Rightarrow> _" where
  "scopes s = (dv_mod_namespace_stack s, dv_namespace_stack s, dv_fn_stack s, dv_fn_context_stack s,
     dv_guard_spans s, dv_closure_depth s, dv_const_eval_depth s, dv_exclude_re_stack s)"

text \<open>The functions of the tree \<open>R\<close>, with their bodies.\<close>

definition fn_parts :: "node \<Rightarrow> (signature \<times> node) option" where
  "fn_parts n =
     (case nd_kind n of
        KItemFn sg \<Rightarrow> map_option (Pair sg) (last_opt (nd_kids n))
      | KImplItemFn sg \<Rightarrow> map_option (Pair sg) (last_opt (nd_kids n))
      | KTraitItemFn sg d \<Rightarrow> if d then map_option (Pair sg) (last_opt (nd_kids n)) else None
      | _ \<Rightarrow> None)"

definition fn_of :: "node \<Rightarrow> signature \<Rightarrow> node \<Rightarrow> bool" where
  "fn_of R sg b \<longleftrightarrow> (\<exists>n\<in>set (subnodes R). fn_parts n = Some (sg, b))"

text \<open>What in the tree \<open>R\<close> a mutant of each genre is made from: the place that is changed and what it is
  changed to.\<close>

definition justifies_here :: "visit_ctx \<Rightarrow> node \<Rightarrow> node \<Rightarrow> genre \<Rightarrow> span \<Rightarrow> string \<Rightarrow> bool" where
  "justifies_here C R n g sp repl \<longleftrightarrow>
     (case g of
        FnValue \<Rightarrow> (\<exists>sg b. fn_parts n = Some (sg, b) \<and> function_body_span b = Some sp
          \<and> (\<exists>rep\<in>set (replacements_of C (sg_output sg)). repl = to_pretty_string rep
               \<and> to_pretty_string [Group Brace rep] \<noteq> to_pretty_string (nd_tokens b)))
      | ReturnValue \<Rightarrow> (\<exists>e sg b. nd_kind n = KReturn True \<and> kid n 0 = Some e \<and> sp = nd_span e \<and> fn_of R sg b
          \<and> (\<exists>rep\<in>set (replacements_of C (sg_output sg)). repl = to_pretty_string rep
               \<and> repl \<noteq> to_pretty_string (nd_tokens e)))
      | BinaryOperator \<Rightarrow> (\<exists>op. nd_kind n = KBinary op sp \<and> repl \<in> to_pretty_string ` set (binary_replacements op))
      | UnaryOperator \<Rightarrow> (\<exists>op. nd_kind n = KUnary op sp \<and> op \<in> {OpNot, OpNeg} \<and> repl = [])
      | MatchArm \<Rightarrow> is_arm n \<and> \<not> has_guard n \<and> \<not> is_catchall n \<and> sp = nd_span n \<and> repl = []
          \<and> (\<exists>mt\<in>set (subnodes R). nd_kind mt = KMatch \<and> n \<in> set (nd_kids mt)
               \<and> (\<exists>a\<in>set (nd_kids mt). is_arm a \<and> is_catchall a))
      | MatchArmGuard \<Rightarrow> (\<exists>gd. arm_guard n = Some gd \<and> sp = nd_span gd \<and> repl \<in> {''true'', ''false''})
      | IfCondition \<Rightarrow> (\<exists>c b. nd_kind n = KIf \<and> kid n 0 = Some c \<and> kid n 1 = Some b \<and> \<not> is_let_or_lit c
          \<and> sp = nd_span c \<and> (repl = ''true'' \<or> repl = ''false'' \<and> \<not> reaches is_loop_exit b))
      | WhileCondition \<Rightarrow> (\<exists>c. nd_kind n = KWhile \<and> kid n 0 = Some c \<and> \<not> is_let_or_lit c
          \<and> sp = nd_span c \<and> repl = ''false'')
      | BoolLiteral \<Rightarrow> (\<exists>v. nd_kind n = KLit (Some v) \<and> sp = nd_span n \<and> repl = (if v then ''false'' else ''true''))
      | DeleteStatement \<Rightarrow> (\<exists>semi e. nd_kind n = KStmtExpr (Some semi) \<and> kid n 0 = Some e
          \<and> sp = \<lparr>sp_start = sp_start (nd_span e), sp_end = sp_end semi\<rparr> \<and> repl = []
          \<and> deletable_root e \<noteq> None \<and> \<not> is_skipped_call C e
          \<and> \<not> reaches is_return e \<and> \<not> reaches is_loop_exit e)
      | StructField \<Rightarrow> (\<exists>f comma. nd_kind n = KFieldValue (Some f) comma \<and> sp_start sp = sp_start (nd_span n) \<and> repl = []))"

definition justifies :: "visit_ctx \<Rightarrow> node \<Rightarrow> genre \<Rightarrow> span \<Rightarrow> string \<Rightarrow> bool" where
  "justifies C R g sp repl \<longleftrightarrow> (\<exists>n\<in>set (subnodes R). justifies_here C R n g sp repl)"

text \<open>A mutant that may be collected in the scopes of \<open>s\<close>.\<close>

definition name_excluded :: "visit_ctx \<Rightarrow> string list list \<Rightarrow> mutant \<Rightarrow> bool" where
  "name_excluded C res m \<longleftrightarrow>
     list_ex (\<lambda>re. regex_set_match (vc_libs C) re (the (full_name m))) res"

definition collectable :: "visit_ctx \<Rightarrow> node \<Rightarrow> visitor \<Rightarrow> mutant \<Rightarrow> bool" where
  "collectable C R s m \<longleftrightarrow>
     mu_source_file m = vc_source_file C \<and> mutant_ok m
     \<and> \<not> name_excluded C (dv_exclude_re_stack s) m
     \<and> (mu_genre m \<noteq> StructField \<longrightarrow> allows_mutant (vc_libs C) (vc_options C) m = Some True)
     \<and> (0 < dv_const_eval_depth s \<longrightarrow> mu_const_eval m)
     \<and> (dv_fn_stack s \<noteq> [] \<longrightarrow> mu_function m \<noteq> None)
     \<and> justifies C R (mu_genre m) (mu_span m) (mu_replacement m)"

text \<open>A module found in the scopes of \<open>s\<close> is below the modules it is in.\<close>

definition advances :: "visit_ctx \<Rightarrow> node \<Rightarrow> visitor \<Rightarrow> visitor \<Rightarrow> bool" where
  "advances C R s s' \<longleftrightarrow>
     scopes s' = scopes s
     \<and> (\<exists>ms. dv_mutants s' = dv_mutants s @ ms \<and> list_all (collectable C R s) ms)
     \<and> (\<exists>xs. dv_external_mods s' = dv_external_mods s @ xs
          \<and> list_all (strict_prefix (dv_mod_namespace_stack s)) xs)
     \<and> (dv_error s \<noteq> None \<longrightarrow> dv_error s' = dv_error s)
     \<and> (memo_ok R (dv_control_flow_memo s) \<longrightarrow> memo_ok R (dv_control_flow_memo s'))"

lemma collectable_cong:
  "scopes s = scopes s' \<Longrightarrow> collectable C R s m = collectable C R s' m"
  by (simp add: scopes_def collectable_def)

lemma advances_refl [simp]: "advances C R s s"
  by (simp add: advances_def)

lemma advances_trans:
  assumes "advances C R s t" "advances C R t u"
  shows "advances C R s u"
proof -
  from assms(1) obtain ms xs where t: "scopes t = scopes s" "dv_mutants t = dv_mutants s @ ms"
    "list_all (collectable C R s) ms" "dv_external_mods t = dv_external_mods s @ xs"
    "list_all (strict_prefix (dv_mod_namespace_stack s)) xs" "dv_error s \<noteq> None \<longrightarrow> dv_error t = dv_error s"
    "memo_ok R (dv_control_flow_memo s) \<longrightarrow> memo_ok R (dv_control_flow_memo t)"
    by (auto simp: advances_def)
  from assms(2) obtain ms' xs' where u: "scopes u = scopes t" "dv_mutants u = dv_mutants t @ ms'"
    "list_all (collectable C R t) ms'" "dv_external_mods u = dv_external_mods t @ xs'"
    "list_all (strict_prefix (dv_mod_namespace_stack t)) xs'" "dv_error t \<noteq> None \<longrightarrow> dv_error u = dv_error t"
    "memo_ok R (dv_control_flow_memo t) \<longrightarrow> memo_ok R (dv_control_flow_memo u)"
    by (auto simp: advances_def)
  have "dv_mod_namespace_stack t = dv_mod_namespace_stack s" using t(1) by (simp add: scopes_def)
  moreover have "list_all (collectable C R s) ms'"
    using u(3) collectable_cong [OF t(1)] by (simp add: list_all_iff)
  ultimately show ?thesis using t u by (auto simp: advances_def)
qed


text \<open>What the visitor relies on: the memory of control flow is right, and the functions it is in are
  functions of the tree.\<close>

definition context_ok :: "node \<Rightarrow> fn_context \<Rightarrow> bool" where
  "context_ok R c \<longleftrightarrow> (\<exists>sg b. fn_of R sg b \<and> fx_output c = sg_output sg)"

definition state_ok :: "node \<Rightarrow> visitor \<Rightarrow> bool" where
  "state_ok R s \<longleftrightarrow> memo_ok R (dv_control_flow_memo s) \<and> list_all (context_ok R) (dv_fn_context_stack s)"

lemma advances_state_ok: "advances C R s s' \<Longrightarrow> state_ok R s \<Longrightarrow> state_ok R s'"
  by (simp add: advances_def state_ok_def scopes_def)

text \<open>From any such state in the scopes \<open>sc\<close>, \<open>f\<close> does not panic and advances.\<close>

definition runs :: "visit_ctx \<Rightarrow> node \<Rightarrow> _ \<Rightarrow> visit \<Rightarrow> bool" where
  "runs C R sc f \<longleftrightarrow>
     (\<forall>s. scopes s = sc \<longrightarrow> state_ok R s \<longrightarrow> (\<exists>s'. f s = Some s' \<and> advances C R s s'))"

lemma runsI:
  "(\<And>s. scopes s = sc \<Longrightarrow> state_ok R s \<Longrightarrow> \<exists>s'. f s = Some s' \<and> advances C R s s') \<Longrightarrow> runs C R sc f"
  by (simp add: runs_def)

lemma runsD: "runs C R (scopes s) f \<Longrightarrow> state_ok R s \<Longrightarrow> \<exists>s'. f s = Some s' \<and> advances C R s s'"
  by (simp add: runs_def)

named_theorems runs_intros "visits that do not panic and advance"

lemma runs_Some [runs_intros]: "runs C R sc Some" "runs C R sc (\<lambda>s. Some s)"
  by (simp_all add: runs_def)

lemma runs_bind [runs_intros]:
  assumes "runs C R sc f" "runs C R sc g"
  shows "runs C R sc (\<lambda>s. Option.bind (f s) g)"
proof (rule runsI)
  fix s assume sc: "scopes s = sc" and st: "state_ok R s"
  with assms(1) st obtain t where t: "f s = Some t" "advances C R s t" using runsD by blast
  then have "scopes t = sc" using sc by (simp add: advances_def)
  with assms(2) advances_state_ok [OF t(2) st] obtain u where "g t = Some u" "advances C R t u"
    using runsD by blast
  with t show "\<exists>s'. Option.bind (f s) g = Some s' \<and> advances C R s s'"
    using advances_trans by auto
qed

lemma runs_if [runs_intros]:
  "(b \<Longrightarrow> runs C R sc f) \<Longrightarrow> (\<not> b \<Longrightarrow> runs C R sc g) \<Longrightarrow> runs C R sc (\<lambda>s. if b then f s else g s)"
  by (cases b) simp_all

lemma runs_for_each [runs_intros]:
  "(\<And>x. x \<in> set xs \<Longrightarrow> runs C R sc (f x)) \<Longrightarrow> runs C R sc (for_each f xs)"
proof (induction xs)
  case Nil
  show ?case by (simp add: runs_def)
next
  case (Cons x xs)
  from Cons(2) [of x] Cons(1) [OF Cons(2)] have "runs C R sc (\<lambda>s. Option.bind (f x s) (for_each f xs))"
    by (intro runs_bind) simp_all
  then show ?case by (simp add: runs_def)
qed

lemma runs_eta: "runs C R sc (\<lambda>s. f s) \<Longrightarrow> runs C R sc f"
  by simp

subsection \<open>Inner scopes\<close>

text \<open>A visit of inner scopes, from \<open>s1\<close> to \<open>s2\<close>, seen from outside.\<close>

lemma advances_nested:
  assumes "advances C R s1 s2"
    and "dv_mutants s1 = dv_mutants s" "dv_external_mods s1 = dv_external_mods s" "dv_error s1 = dv_error s"
    and "\<And>m. collectable C R s1 m \<Longrightarrow> collectable C R s m"
    and "prefix (dv_mod_namespace_stack s) (dv_mod_namespace_stack s1)"
    and "dv_control_flow_memo s1 = dv_control_flow_memo s" "dv_control_flow_memo s3 = dv_control_flow_memo s2"
    and "scopes s3 = scopes s" "dv_mutants s3 = dv_mutants s2" "dv_external_mods s3 = dv_external_mods s2"
    and "dv_error s3 = dv_error s2"
  shows "advances C R s s3"
proof -
  from assms(1) obtain ms xs where r: "dv_mutants s2 = dv_mutants s1 @ ms"
    "list_all (collectable C R s1) ms" "dv_external_mods s2 = dv_external_mods s1 @ xs"
    "list_all (strict_prefix (dv_mod_namespace_stack s1)) xs" "dv_error s1 \<noteq> None \<longrightarrow> dv_error s2 = dv_error s1"
    "memo_ok R (dv_control_flow_memo s1) \<longrightarrow> memo_ok R (dv_control_flow_memo s2)"
    by (auto simp: advances_def)
  have "list_all (collectable C R s) ms" using r(2) assms(5) by (simp add: list_all_iff)
  moreover have "list_all (strict_prefix (dv_mod_namespace_stack s)) xs"
    using r(4) assms(6) prefix_order.le_less_trans by (auto simp: list_all_iff)
  ultimately show ?thesis using r assms by (simp add: advances_def)
qed

lemma pop_simps [simp]: "pop (xs @ [x]) = Some (xs, x)" "pop [] = None"
  by (simp_all add: pop_def)

lemma scopes_simps:
  "scopes s' = scopes s \<longleftrightarrow>
     dv_mod_namespace_stack s' = dv_mod_namespace_stack s \<and> dv_namespace_stack s' = dv_namespace_stack s
     \<and> dv_fn_stack s' = dv_fn_stack s \<and> dv_fn_context_stack s' = dv_fn_context_stack s
     \<and> dv_guard_spans s' = dv_guard_spans s \<and> dv_closure_depth s' = dv_closure_depth s
     \<and> dv_const_eval_depth s' = dv_const_eval_depth s \<and> dv_exclude_re_stack s' = dv_exclude_re_stack s"
  by (auto simp: scopes_def)

lemma runs_in_namespace [runs_intros]:
  assumes "\<And>sc. runs C R sc f"
  shows "runs C R sc (in_namespace name f)"
proof (rule runsI)
  fix s :: visitor assume st: "state_ok R s"
  let ?s1 = "s\<lparr>dv_namespace_stack := dv_namespace_stack s @ [name]\<rparr>"
  have st1: "state_ok R ?s1" using st by (simp add: state_ok_def)
  obtain s2 where s2: "f ?s1 = Some s2" "advances C R ?s1 s2" using runsD [OF assms st1] by blast
  then have sc2: "scopes s2 = scopes ?s1" by (simp add: advances_def)
  have "advances C R s (s2\<lparr>dv_namespace_stack := dv_namespace_stack s\<rparr>)"
    by (rule advances_nested [OF s2(2)]) (use sc2 in \<open>simp_all add: collectable_def scopes_simps\<close>)
  then show "\<exists>s'. in_namespace name f s = Some s' \<and> advances C R s s'"
    using s2(1) sc2 by (simp add: in_namespace_def scopes_simps)
qed

lemma runs_in_const_eval_scope [runs_intros]:
  assumes "\<And>sc. runs C R sc f"
  shows "runs C R sc (in_const_eval_scope f)"
proof (rule runsI)
  fix s :: visitor assume st: "state_ok R s"
  let ?s1 = "s\<lparr>dv_const_eval_depth := dv_const_eval_depth s + 1\<rparr>"
  have st1: "state_ok R ?s1" using st by (simp add: state_ok_def)
  obtain s2 where s2: "f ?s1 = Some s2" "advances C R ?s1 s2" using runsD [OF assms st1] by blast
  then have sc2: "scopes s2 = scopes ?s1" by (simp add: advances_def)
  have "advances C R s (s2\<lparr>dv_const_eval_depth := dv_const_eval_depth s\<rparr>)"
    by (rule advances_nested [OF s2(2)]) (use sc2 in \<open>simp_all add: collectable_def scopes_simps\<close>)
  then show "\<exists>s'. in_const_eval_scope f s = Some s' \<and> advances C R s s'"
    using s2(1) sc2 by (simp add: in_const_eval_scope_def scopes_simps)
qed

lemma runs_visit_expr_closure [runs_intros]:
  assumes "\<And>sc. runs C R sc f"
  shows "runs C R sc (visit_expr_closure f)"
proof (rule runsI)
  fix s :: visitor assume st: "state_ok R s"
  let ?s1 = "s\<lparr>dv_closure_depth := dv_closure_depth s + 1\<rparr>"
  have st1: "state_ok R ?s1" using st by (simp add: state_ok_def)
  obtain s2 where s2: "f ?s1 = Some s2" "advances C R ?s1 s2" using runsD [OF assms st1] by blast
  then have sc2: "scopes s2 = scopes ?s1" by (simp add: advances_def)
  have "advances C R s (s2\<lparr>dv_closure_depth := dv_closure_depth s\<rparr>)"
    by (rule advances_nested [OF s2(2)]) (use sc2 in \<open>simp_all add: collectable_def scopes_simps\<close>)
  then show "\<exists>s'. visit_expr_closure f s = Some s' \<and> advances C R s s'"
    using s2(1) sc2 by (simp add: visit_expr_closure_def scopes_simps)
qed

lemma push_exclude_re_cases:
  obtains (err) msg where "push_exclude_re C as s = (set_error msg s, ScopeError)"
  | (none) "push_exclude_re C as s = (s, ScopeEmpty)"
  | (some) ps where "push_exclude_re C as s = (s\<lparr>dv_exclude_re_stack := dv_exclude_re_stack s @ [ps]\<rparr>, ScopePushed)"
proof (cases "attrs_exclude_re_patterns as")
  case (Inl e)
  then show thesis using err by (cases e) (simp add: push_exclude_re_def)
next
  case (Inr ps)
  consider "ps = []" | "ps \<noteq> []" "list_all (lib_regex_ok (vc_libs C)) ps"
    | "ps \<noteq> []" "\<not> list_all (lib_regex_ok (vc_libs C)) ps" by blast
  then show thesis
  proof cases
    case 1
    with Inr none show ?thesis by (simp add: push_exclude_re_def)
  next
    case 2
    with Inr some show ?thesis by (simp add: push_exclude_re_def)
  next
    case 3
    with Inr err show ?thesis by (simp add: push_exclude_re_def Let_def)
  qed
qed

lemma advances_set_error: "advances C R s (set_error msg s)"
  by (auto simp: advances_def set_error_def scopes_def)

lemma runs_in_exclude_re_scope [runs_intros]:
  assumes "\<And>sc. runs C R sc f"
  shows "runs C R sc (in_exclude_re_scope C as f)"
proof (rule runsI)
  fix s :: visitor assume st: "state_ok R s"
  show "\<exists>s'. in_exclude_re_scope C as f s = Some s' \<and> advances C R s s'"
  proof (cases rule: push_exclude_re_cases [of C as s])
    case (err msg)
    then show ?thesis by (simp add: in_exclude_re_scope_def advances_set_error)
  next
    case none
    obtain s2 where "f s = Some s2" "advances C R s s2" using runsD [OF assms st] by blast
    with none show ?thesis by (simp add: in_exclude_re_scope_def)
  next
    case (some ps)
    let ?s1 = "s\<lparr>dv_exclude_re_stack := dv_exclude_re_stack s @ [ps]\<rparr>"
    have st1: "state_ok R ?s1" using st by (simp add: state_ok_def)
    obtain s2 where s2: "f ?s1 = Some s2" "advances C R ?s1 s2" using runsD [OF assms st1] by blast
    then have sc2: "scopes s2 = scopes ?s1" by (simp add: advances_def)
    have "advances C R s (s2\<lparr>dv_exclude_re_stack := dv_exclude_re_stack s\<rparr>)"
      by (rule advances_nested [OF s2(2)])
        (use sc2 in \<open>simp_all add: collectable_def name_excluded_def scopes_simps\<close>)
    then show ?thesis using s2(1) sc2 some
      by (simp add: in_exclude_re_scope_def pop_exclude_re_def scopes_simps)
  qed
qed

text \<open>A visiting function that runs in the scope of the node's attributes, unless something excludes the
  node.\<close>

definition scoped :: "visit_ctx \<Rightarrow> node \<Rightarrow> node \<Rightarrow> visit \<Rightarrow> bool" where
  "scoped C R n g \<longleftrightarrow>
     (\<exists>f excluded. (\<forall>sc. runs C R sc f)
        \<and> (\<forall>s. g s = (if excluded then Some s else in_exclude_re_scope C (nd_attrs n) f s)))"

lemma scopedI:
  "(\<And>sc. runs C R sc f)
   \<Longrightarrow> (\<And>s. g s = (if excluded then Some s else in_exclude_re_scope C (nd_attrs n) f s)) \<Longrightarrow> scoped C R n g"
  unfolding scoped_def by blast

lemma scoped_runs: "scoped C R n g \<Longrightarrow> runs C R sc g"
proof -
  assume "scoped C R n g"
  then obtain f excluded where f: "\<And>sc. runs C R sc f"
    "\<And>s. g s = (if excluded then Some s else in_exclude_re_scope C (nd_attrs n) f s)"
    by (auto simp: scoped_def)
  from runs_in_exclude_re_scope [OF f(1)] show ?thesis
    by (auto simp: runs_def f(2))
qed

subsection \<open>Collecting\<close>

lemma to_pretty_bool [simp]:
  "to_pretty_string (bool_token True) = ''true''" "to_pretty_string (bool_token False) = ''false''"
  by (simp_all add: bool_token_def to_pretty_string_def write_pretty_def word_before_def word_after_def ends_with_def)

lemma to_pretty_Nil [simp]: "to_pretty_string [] = []"
  by (simp add: to_pretty_string_def write_pretty_def)

lemma full_name_total: "mutant_ok m \<Longrightarrow> \<exists>n. full_name m = Some n"
  using name_total [of m True] by (simp add: name_of_def write_name_def)

lemma excluded_by_attr_re_eq:
  "mutant_ok m \<Longrightarrow> excluded_by_attr_re C s m = Some (name_excluded C (dv_exclude_re_stack s) m)"
  using full_name_total [of m] by (auto simp: excluded_by_attr_re_def name_excluded_def)

lemma new_mutant_ok:
  "source_ok (vc_source_file C) \<Longrightarrow> (g = FnValue \<longrightarrow> dv_fn_stack s \<noteq> []) \<Longrightarrow> (g = MatchArm \<longrightarrow> short \<noteq> None)
   \<Longrightarrow> mutant_ok (new_mutant C s sp short repl g target)"
  by (auto simp: mutant_ok_def new_mutant_def new_discovered_def)

lemma advances_push:
  "collectable C R s m \<Longrightarrow> advances C R s (push_mutant m s)"
  by (simp add: advances_def push_mutant_def scopes_def)

lemma new_mutant_collectable:
  assumes "mutant_ok (new_mutant C s sp short repl g target)" "justifies C R g sp repl"
    and "\<not> name_excluded C (dv_exclude_re_stack s) (new_mutant C s sp short repl g target)"
    and "g \<noteq> StructField \<longrightarrow>
      allows_mutant (vc_libs C) (vc_options C) (new_mutant C s sp short repl g target) = Some True"
  shows "collectable C R s (new_mutant C s sp short repl g target)"
  using assms by (auto simp: collectable_def new_mutant_def new_discovered_def)

lemma collect_mutant_advances:
  assumes "source_ok (vc_source_file C)" "g = FnValue \<longrightarrow> dv_fn_stack s \<noteq> []" "g = MatchArm \<longrightarrow> short \<noteq> None"
    and "justifies C R g sp (to_pretty_string repl)"
  shows "\<exists>s'. collect_mutant C sp short repl g s = Some s' \<and> advances C R s s'"
proof -
  let ?m = "new_mutant C s sp short (to_pretty_string repl) g None"
  have ok: "mutant_ok ?m" using assms(1-3) by (rule new_mutant_ok)
  obtain b where b: "allows_mutant (vc_libs C) (vc_options C) ?m = Some b" using allows_mutant_total [OF ok] by blast
  show ?thesis
  proof (cases "name_excluded C (dv_exclude_re_stack s) ?m \<or> \<not> b")
    case True
    then show ?thesis by (auto simp: collect_mutant_def Let_def excluded_by_attr_re_eq [OF ok] b)
  next
    case False
    then have "collectable C R s ?m" using new_mutant_collectable [OF ok assms(4)] b by simp
    with False show ?thesis
      by (simp add: collect_mutant_def Let_def excluded_by_attr_re_eq [OF ok] b advances_push)
  qed
qed

lemma runs_collect_mutant [runs_intros]:
  "source_ok (vc_source_file C) \<Longrightarrow> justifies C R g sp (to_pretty_string repl) \<Longrightarrow> g \<noteq> FnValue
   \<Longrightarrow> g = MatchArm \<longrightarrow> short \<noteq> None \<Longrightarrow> runs C R sc (collect_mutant C sp short repl g)"
  by (rule runsI) (simp add: collect_mutant_advances)

lemma justifiesI: "n \<in> set (subnodes R) \<Longrightarrow> justifies_here C R n g sp repl \<Longrightarrow> justifies C R g sp repl"
  by (auto simp: justifies_def)

lemma runs_delete_field [runs_intros]:
  assumes "source_ok (vc_source_file C)" "fv \<in> set (subnodes R)"
  shows "runs C R sc (delete_field C name fv)"
proof (rule runsI)
  fix s :: visitor
  have "\<exists>s'. (let m = new_mutant C s sp None [] StructField target in
      Option.bind (excluded_by_attr_re C s m) (\<lambda>excluded. if excluded then Some s else Some (push_mutant m s)))
      = Some s' \<and> advances C R s s'" if "justifies C R StructField sp []" for sp target
  proof -
    have ok: "mutant_ok (new_mutant C s sp None [] StructField target)"
      by (rule new_mutant_ok) (use assms in simp_all)
    show ?thesis
      using advances_push new_mutant_collectable [OF ok that]
      by (simp add: Let_def excluded_by_attr_re_eq [OF ok])
  qed
  moreover have "justifies C R StructField sp []"
    if "nd_kind fv = KFieldValue (Some f) comma" "sp_start sp = sp_start (nd_span fv)" for f comma sp
    using assms(2) that by (auto simp: justifies_def justifies_here_def)
  ultimately show "\<exists>s'. delete_field C name fv s = Some s' \<and> advances C R s s'"
    by (auto simp: delete_field_def Let_def split: node_kind.split option.split)
qed

lemma scopes_memo [simp]: "scopes (s\<lparr>dv_control_flow_memo := memo\<rparr>) = scopes s"
  by (simp add: scopes_def)

lemma advances_memo: "memo_ok R memo \<Longrightarrow> advances C R s (s\<lparr>dv_control_flow_memo := memo\<rparr>)"
  by (simp add: advances_def scopes_def)

lemma runs_with_memo [runs_intros]:
  assumes "\<And>m. memo_ok R m \<Longrightarrow> memo_ok R (fst (f m))"
    and "\<And>m. memo_ok R m \<Longrightarrow> runs C R sc (g (snd (f m)))"
  shows "runs C R sc (\<lambda>s. case f (dv_control_flow_memo s) of (memo, a) \<Rightarrow> g a (s\<lparr>dv_control_flow_memo := memo\<rparr>))"
proof (rule runsI)
  fix s assume sc: "scopes s = sc" and st: "state_ok R s"
  obtain memo a where fa: "f (dv_control_flow_memo s) = (memo, a)" by fastforce
  have m: "memo_ok R (dv_control_flow_memo s)" using st by (simp add: state_ok_def)
  have m1: "memo_ok R memo" using assms(1) [OF m] fa by simp
  have "runs C R (scopes (s\<lparr>dv_control_flow_memo := memo\<rparr>)) (g a)" using assms(2) [OF m] sc fa by simp
  moreover have "state_ok R (s\<lparr>dv_control_flow_memo := memo\<rparr>)" using st m1 by (simp add: state_ok_def)
  ultimately obtain s' where "g a (s\<lparr>dv_control_flow_memo := memo\<rparr>) = Some s'"
    "advances C R (s\<lparr>dv_control_flow_memo := memo\<rparr>) s'" using runsD by blast
  with fa advances_trans [OF advances_memo [OF m1]]
  show "\<exists>s'. (case f (dv_control_flow_memo s) of (memo, a) \<Rightarrow> g a (s\<lparr>dv_control_flow_memo := memo\<rparr>)) = Some s'
      \<and> advances C R s s'" by auto
qed

lemma kid_subnodes: "kid n i = Some k \<Longrightarrow> n \<in> set (subnodes R) \<Longrightarrow> k \<in> set (subnodes R)"
  using subnodes_trans(1) [of n R] nd_kids_subnodes [of n] nth_mem [of i "nd_kids n"]
  by (auto simp: kid_def get_opt_Some)

lemma runs_delete_statement [runs_intros]:
  assumes "source_ok (vc_source_file C)" "unique_ids R" "shaped_here st" "st \<in> set (subnodes R)"
  shows "runs C R sc (delete_statement C locals st)"
proof (cases "\<exists>semi. nd_kind st = KStmtExpr (Some semi)")
  case True
  then obtain semi where semi: "nd_kind st = KStmtExpr (Some semi)" by blast
  with assms(3) obtain e where e: "kid st 0 = Some e" by (cases "nd_kids st") (auto simp: shaped_here_def kid_def get_opt_def)
  let ?sp = "\<lparr>sp_start = sp_start (nd_span e), sp_end = sp_end semi\<rparr>"
  have eR: "e \<in> set (subnodes R)" using kid_subnodes [OF e assms(4)] .
  have memo: "memo_ok R (fst (is_deletable_statement e locals m))" if "memo_ok R m" for m
    using that contains_control_flow_right(2) [OF assms(2) that eR]
    by (auto simp: is_deletable_statement_def deletable_root_def is_expr_def split: node_kind.split option.split prod.split)
  have "justifies C R DeleteStatement ?sp (to_pretty_string [])"
    if "memo_ok R m" "snd (is_deletable_statement e locals m)" "\<not> is_skipped_call C e" for m
  proof (rule justifiesI [OF assms(4)])
    have "deletable_root e \<noteq> None" using that(2) by (auto simp: is_deletable_statement_def split: option.splits)
    moreover from this have "is_expr e" by (auto simp: deletable_root_def is_expr_def split: node_kind.splits)
    from contains_control_flow_right(1) [OF assms(2) that(1) eR this]
    have "\<not> reaches is_return e \<and> \<not> reaches is_loop_exit e"
      using that(2) by (auto simp: is_deletable_statement_def split: option.splits if_splits prod.splits)
    ultimately show "justifies_here C R st DeleteStatement ?sp (to_pretty_string [])"
      using semi e that(3) by (simp add: justifies_here_def)
  qed
  then have "runs C R sc (\<lambda>v. case is_deletable_statement e locals (dv_control_flow_memo v) of
      (memo, deletable) \<Rightarrow> (\<lambda>v1. if deletable \<and> \<not> is_skipped_call C e
        then collect_mutant C ?sp None [] DeleteStatement v1
        else Some v1) (v\<lparr>dv_control_flow_memo := memo\<rparr>))"
    by (intro runs_with_memo runs_if runs_Some runs_collect_mutant memo) (use assms(1) in auto)
  then show ?thesis by (simp add: runs_def delete_statement_def semi e Let_def)
next
  case False
  then show ?thesis by (auto simp: runs_def delete_statement_def split: node_kind.split option.split)
qed

subsection \<open>Items\<close>

lemma collect_fn_mutants_advances:
  assumes "source_ok (vc_source_file C)" "nd_kids b \<noteq> []" "fn_of R sg b" "state_ok R s"
  shows "\<exists>s'. collect_fn_mutants C sg b s = Some s' \<and> advances C R s s'"
proof (cases "dv_fn_stack s = []")
  case False
  obtain sp where sp: "function_body_span b = Some sp" using assms(2) by (simp add: function_body_span_def)
  have "runs C R (scopes s) (if to_pretty_string (nd_tokens b) = to_pretty_string [Group Brace rep]
      then Some else collect_mutant C sp None rep FnValue)" if "rep \<in> set (replacements_of C (sg_output sg))" for rep
  proof (cases "to_pretty_string (nd_tokens b) = to_pretty_string [Group Brace rep]")
    case differ: False
    from assms(3) obtain n where n: "n \<in> set (subnodes R)" "fn_parts n = Some (sg, b)" by (auto simp: fn_of_def)
    have "justifies C R FnValue sp (to_pretty_string rep)"
      by (rule justifiesI [OF n(1)]) (use n(2) sp that differ in \<open>auto simp: justifies_here_def\<close>)
    then have "runs C R (scopes s) (collect_mutant C sp None rep FnValue)"
      by (intro runsI collect_mutant_advances assms(1)) (use False in \<open>auto simp: scopes_simps\<close>)
    with differ show ?thesis by simp
  qed (simp add: runs_Some)
  then have "runs C R (scopes s) (for_each (\<lambda>rep. if to_pretty_string (nd_tokens b) = to_pretty_string [Group Brace rep]
      then Some else collect_mutant C sp None rep FnValue) (replacements_of C (sg_output sg)))"
    by (rule runs_for_each)
  from runsD [OF this assms(4)] show ?thesis by (simp add: collect_fn_mutants_def sp Let_def False)
qed (simp add: collect_fn_mutants_def)

lemma runs_visit_body:
  assumes "source_ok (vc_source_file C)" "nd_kids b \<noteq> []" "fn_of R sg b" "\<And>sc. runs C R sc descend"
  shows "runs C R sc (visit_body C sg b descend)"
proof (rule runsI)
  fix s :: visitor assume st: "state_ok R s"
  obtain s1 where s1: "collect_fn_mutants C sg b s = Some s1" "advances C R s s1"
    using collect_fn_mutants_advances [OF assms(1-3) st] by blast
  let ?s1 = "s1\<lparr>dv_fn_context_stack := dv_fn_context_stack s1 @ [fn_context_new sg b]\<rparr>"
  have "context_ok R (fn_context_new sg b)" using assms(3) by (auto simp: context_ok_def fn_context_new_def)
  then have "state_ok R ?s1" using advances_state_ok [OF s1(2) st] by (simp add: state_ok_def)
  then obtain s2 where s2: "descend ?s1 = Some s2" "advances C R ?s1 s2" using runsD [OF assms(4)] by blast
  then have sc2: "scopes s2 = scopes ?s1" by (simp add: advances_def)
  have "advances C R s1 (s2\<lparr>dv_fn_context_stack := dv_fn_context_stack s1\<rparr>)"
    by (rule advances_nested [OF s2(2)]) (use sc2 in \<open>simp_all add: collectable_def scopes_simps\<close>)
  with s1 s2(1) sc2 advances_trans show "\<exists>s'. visit_body C sg b descend s = Some s' \<and> advances C R s s'"
    by (auto simp: visit_body_def scopes_simps)
qed

lemma runs_in_function [runs_intros]:
  assumes "\<And>sc. runs C R sc body"
  shows "runs C R sc (in_function sg sp body)"
proof (rule runsI)
  fix s :: visitor assume st: "state_ok R s"
  obtain s1 f where ef: "enter_function sg sp s = (s1, f)" by fastforce
  then have s1: "s1 = s\<lparr>dv_namespace_stack := dv_namespace_stack s @ [sg_ident sg], dv_fn_stack := dv_fn_stack s @ [f]\<rparr>"
    by (auto simp: enter_function_def Let_def)
  have "runs C R sc (if sg_const sg then in_const_eval_scope body else body)" for sc
    using assms runs_in_const_eval_scope [OF assms] by simp
  moreover have "state_ok R s1" using st by (simp add: s1 state_ok_def)
  ultimately obtain s2 where s2: "(if sg_const sg then in_const_eval_scope body s1 else body s1) = Some s2"
    "advances C R s1 s2" using runsD [of C R s1 "if sg_const sg then in_const_eval_scope body else body"]
    by (cases "sg_const sg") auto
  then have sc2: "scopes s2 = scopes s1" by (simp add: advances_def)
  have "advances C R s (s2\<lparr>dv_namespace_stack := dv_namespace_stack s, dv_fn_stack := dv_fn_stack s\<rparr>)"
    by (rule advances_nested [OF s2(2)]) (use sc2 in \<open>simp_all add: s1 collectable_def scopes_simps\<close>)
  then show "\<exists>s'. in_function sg sp body s = Some s' \<and> advances C R s s'"
    using s2(1) sc2 by (simp add: ef in_function_def leave_function_def) (simp add: s1 scopes_simps)
qed

lemma runs_visit_fn [runs_intros]:
  assumes "source_ok (vc_source_file C)" "nd_kids b \<noteq> []" "fn_of R sg b" "\<And>sc. runs C R sc descend"
  shows "runs C R sc (visit_fn C n sg b descend)"
  unfolding visit_fn_def by (intro runs_in_exclude_re_scope runs_in_function runs_visit_body assms)

lemma runs_in_mod [runs_intros]:
  assumes "\<And>sc. runs C R sc descend"
  shows "runs C R sc (in_mod n name has_content descend)"
proof (cases "find_path_attribute (nd_attrs n)")
  case (Inl e)
  then show ?thesis by (simp add: runs_def in_mod_def)
next
  case (Inr pa)
  show ?thesis
  proof (rule runsI)
    fix s :: visitor assume st: "state_ok R s"
    let ?mn = "\<lparr>mn_name = name, mn_path_attribute = pa, mn_source_location = nd_span n\<rparr>"
    let ?stack = "dv_mod_namespace_stack s @ [?mn]"
    let ?v1 = "s\<lparr>dv_mod_namespace_stack := ?stack\<rparr>"
    let ?s1 = "if has_content then ?v1 else ?v1\<lparr>dv_external_mods := dv_external_mods s @ [?stack]\<rparr>"
    let ?mods = "if has_content then dv_external_mods s else dv_external_mods s @ [?stack]"
    have s1: "?s1 = s\<lparr>dv_mod_namespace_stack := ?stack, dv_external_mods := ?mods\<rparr>"
      by (cases has_content) (cases s, simp)+
    let ?s0 = "s\<lparr>dv_external_mods := ?mods\<rparr>"
    have adv0: "advances C R s ?s0" by (simp add: advances_def scopes_def strict_prefix_def)
    have st1: "state_ok R ?s1" using st by (cases has_content) (simp_all add: state_ok_def)
    obtain s2 where s2: "in_namespace name descend ?s1 = Some s2" "advances C R ?s1 s2"
      using runsD [OF runs_in_namespace [OF assms] st1] by blast
    note raw = s2(1)
    note s2 = s2 [unfolded s1]
    then have sc2: "scopes s2 = scopes (s\<lparr>dv_mod_namespace_stack := ?stack, dv_external_mods := ?mods\<rparr>)"
      by (simp add: advances_def)
    have "advances C R ?s0 (s2\<lparr>dv_mod_namespace_stack := dv_mod_namespace_stack s\<rparr>)"
      by (rule advances_nested [OF s2(2)]) (use sc2 in \<open>simp_all add: collectable_def scopes_simps\<close>)
    with adv0 have "advances C R s (s2\<lparr>dv_mod_namespace_stack := dv_mod_namespace_stack s\<rparr>)"
      by (rule advances_trans)
    then show "\<exists>s'. in_mod n name has_content descend s = Some s' \<and> advances C R s s'"
      using raw sc2 by (cases has_content) (simp_all add: in_mod_def Inr Let_def scopes_simps)
  qed
qed

subsection \<open>Expressions\<close>

text \<open>The other visiting functions are built from what runs.\<close>

lemma runs_delete_arm:
  assumes "source_ok (vc_source_file C)" "a \<in> set (filter is_arm (nd_kids n))" "shaped_here a"
    and "n \<in> set (subnodes R)" "nd_kind n = KMatch" "list_ex is_catchall (filter is_arm (nd_kids n))"
  shows "runs C R sc (delete_arm C a)"
proof -
  have arm: "is_arm a" "a \<in> set (nd_kids n)" "a \<in> set (subnodes R)"
    using assms(2,4) nd_kids_subnodes [of n] subnodes_trans(1) [of n R] by auto
  then obtain p where p: "arm_pattern a = Some p"
    using assms(3) by (cases "nd_kids a")
      (auto simp: shaped_here_def is_arm_def arm_pattern_def kid_def get_opt_def split: node_kind.splits)
  have "runs C R sc (collect_mutant C (nd_span a) (Some (to_pretty_string (nd_tokens p))) [] MatchArm)"
    if "\<not> is_catchall a" "\<not> has_guard a"
  proof (rule runs_collect_mutant [OF assms(1)])
    show "justifies C R MatchArm (nd_span a) (to_pretty_string [])"
      by (rule justifiesI [OF arm(3)])
        (use arm that assms in \<open>auto simp: justifies_here_def list_ex_iff\<close>)
  qed simp_all
  then have "runs C R sc (\<lambda>v. if is_catchall a \<or> has_guard a then Some v
      else collect_mutant C (nd_span a) (Some (to_pretty_string (nd_tokens p))) [] MatchArm v)"
    by (intro runs_if runs_Some) simp_all
  then have "\<exists>s'. delete_arm C a s = Some s' \<and> advances C R s s'" if "scopes s = sc" "state_ok R s" for s
    using runsD [of C R s] that by (cases "is_catchall a \<or> has_guard a") (auto simp: delete_arm_def p)
  then show ?thesis by (rule runsI)
qed

lemma runs_replace_guard:
  assumes "source_ok (vc_source_file C)" "arm_guard a = Some g" "a \<in> set (subnodes R)"
  shows "runs C R sc (replace_guard C g)"
proof -
  have justified: "justifies C R MatchArmGuard (nd_span g) (to_pretty_string (bool_token v))" for v
    by (rule justifiesI [OF assms(3)]) (use assms(2) in \<open>cases v; simp add: justifies_here_def\<close>)
  show ?thesis unfolding replace_guard_def
    by (intro runs_bind runs_collect_mutant assms(1) justified) simp_all
qed

lemma runs_with_guards:
  assumes "\<And>sc. runs C R sc descend"
  shows "runs C R sc (\<lambda>v. let guards_below = length (dv_guard_spans v) in
      Option.bind (descend (v\<lparr>dv_guard_spans := dv_guard_spans v @ gs\<rparr>)) (\<lambda>v3.
        Some (v3\<lparr>dv_guard_spans := take guards_below (dv_guard_spans v3)\<rparr>)))"
proof (rule runsI)
  fix s :: visitor assume st: "state_ok R s"
  let ?s1 = "s\<lparr>dv_guard_spans := dv_guard_spans s @ gs\<rparr>"
  have st1: "state_ok R ?s1" using st by (simp add: state_ok_def)
  obtain s2 where s2: "descend ?s1 = Some s2" "advances C R ?s1 s2" using runsD [OF assms st1] by blast
  then have sc2: "scopes s2 = scopes ?s1" by (simp add: advances_def)
  have "advances C R s (s2\<lparr>dv_guard_spans := dv_guard_spans s\<rparr>)"
    by (rule advances_nested [OF s2(2)]) (use sc2 in \<open>simp_all add: collectable_def scopes_simps\<close>)
  then show "\<exists>s'. (let guards_below = length (dv_guard_spans s) in
    Option.bind (descend (s\<lparr>dv_guard_spans := dv_guard_spans s @ gs\<rparr>)) (\<lambda>v3.
      Some (v3\<lparr>dv_guard_spans := take guards_below (dv_guard_spans v3)\<rparr>))) = Some s' \<and> advances C R s s'"
    using s2(1) sc2 by (simp add: scopes_simps)
qed

lemma scoped_visit_expr_match:
  assumes "source_ok (vc_source_file C)" "list_all shaped_here (nd_kids n)" "n \<in> set (subnodes R)"
    "nd_kind n = KMatch" "\<And>sc. runs C R sc descend"
  shows "scoped C R n (visit_expr_match C n descend)"
proof -
  let ?arms = "filter is_arm (nd_kids n)"
  let ?guards = "List.map_filter arm_guard ?arms"
  have arms: "runs C R sc (if list_ex is_catchall ?arms then for_each (delete_arm C) ?arms else Some)" for sc
    using assms by (auto simp: list_all_iff intro!: runs_for_each runs_Some runs_delete_arm [where n = n])
  have guard: "runs C R sc (replace_guard C g)" if g: "g \<in> set ?guards" for g sc
  proof -
    obtain a where "a \<in> set (nd_kids n)" "arm_guard a = Some g"
      using g by (auto simp: List.map_filter_def)
    moreover have "a \<in> set (subnodes R)"
      using calculation(1) assms(3) nd_kids_subnodes [of n] subnodes_trans(1) [of n R] by auto
    ultimately show ?thesis using runs_replace_guard [OF assms(1)] by blast
  qed
  have "runs C R sc (\<lambda>v. Option.bind ((if list_ex is_catchall ?arms then for_each (delete_arm C) ?arms else Some) v)
      (\<lambda>v1. Option.bind (for_each (replace_guard C) ?guards v1)
        (\<lambda>v2. let guards_below = length (dv_guard_spans v2) in
          Option.bind (descend (v2\<lparr>dv_guard_spans := dv_guard_spans v2 @ map nd_span ?guards\<rparr>)) (\<lambda>v3.
            Some (v3\<lparr>dv_guard_spans := take guards_below (dv_guard_spans v3)\<rparr>)))))" for sc
    by (intro runs_bind runs_for_each runs_with_guards arms guard assms(5))
  from this show ?thesis
    by (rule scopedI [where excluded = "attrs_excluded (nd_attrs n)"])
      (cases "list_ex is_catchall ?arms"; simp add: visit_expr_match_def Let_def)
qed

lemma runs_visit_expr_lit:
  assumes "source_ok (vc_source_file C)" "n \<in> set (subnodes R)" "nd_kind n = KLit lit" "\<And>sc. runs C R sc descend"
  shows "runs C R sc (visit_expr_lit C n lit descend)"
proof -
  have collect: "runs C R sc (collect_mutant C (nd_span n) None (bool_token (\<not> v)) BoolLiteral)" if "lit = Some v" for v sc
  proof (rule runs_collect_mutant [OF assms(1)])
    show "justifies C R BoolLiteral (nd_span n) (to_pretty_string (bool_token (\<not> v)))"
      by (rule justifiesI [OF assms(2)]) (use assms(3) that in \<open>cases v; auto simp: justifies_here_def\<close>)
  qed simp_all
  have "runs C R sc (\<lambda>s. case lit of
          None \<Rightarrow> Some s
        | Some lit_value \<Rightarrow>
            let duplicates_fn_value =
                  (case last_opt (dv_fn_context_stack s) of
                     None \<Rightarrow> False | Some c \<Rightarrow> fx_body_span c = Some (nd_span n));
                duplicates_match_guard = (nd_span n \<in> set (dv_guard_spans s))
            in if \<not> duplicates_fn_value \<and> \<not> duplicates_match_guard
               then collect_mutant C (nd_span n) None (bool_token (\<not> lit_value)) BoolLiteral s
               else Some s)"
    using runsD [OF collect] by (cases lit) (auto simp: runs_def Let_def)
  from runs_bind [OF this assms(4)] show ?thesis by (simp add: runs_def visit_expr_lit_def)
qed

lemma runs_visit_expr_return:
  assumes "source_ok (vc_source_file C)" "n \<in> set (subnodes R)" "nd_kind n = KReturn has_expr"
    "has_expr \<longrightarrow> nd_kids n \<noteq> []" "\<And>sc. runs C R sc descend"
  shows "runs C R sc (visit_expr_return C n has_expr descend)"
proof -
  have "runs C R sc (\<lambda>s.
        if dv_closure_depth s \<noteq> 0 \<or> \<not> has_expr then Some s
        else Option.bind (kid n 0) (\<lambda>e.
          case last_opt (dv_fn_context_stack s) of
            None \<Rightarrow> Some s
          | Some context \<Rightarrow>
              if fx_body_is_single_return context \<or> fx_output context = ReturnDefault then Some s
              else for_each (\<lambda>rep.
                  if to_pretty_string rep = to_pretty_string (nd_tokens e) then Some
                  else collect_mutant C (nd_span e) None rep ReturnValue)
                (replacements_of C (fx_output context)) s))"
  proof (cases has_expr)
    case True
    then obtain e where e: "kid n 0 = Some e"
      using assms(4) by (cases "nd_kids n") (auto simp: kid_def get_opt_def)
    have loop: "runs C R sc (for_each (\<lambda>rep. if to_pretty_string rep = to_pretty_string (nd_tokens e) then Some
        else collect_mutant C (nd_span e) None rep ReturnValue) (replacements_of C (fx_output c)))"
      if c: "context_ok R c" for c sc
    proof (rule runs_for_each)
      fix rep assume rep: "rep \<in> set (replacements_of C (fx_output c))"
      obtain sg b where sg: "fn_of R sg b" "fx_output c = sg_output sg" using c by (auto simp: context_ok_def)
      show "runs C R sc (if to_pretty_string rep = to_pretty_string (nd_tokens e) then Some
        else collect_mutant C (nd_span e) None rep ReturnValue)"
      proof (cases "to_pretty_string rep = to_pretty_string (nd_tokens e)")
        case False
        then have "justifies C R ReturnValue (nd_span e) (to_pretty_string rep)"
          using e sg rep assms(3) True by (intro justifiesI [OF assms(2)]) (auto simp: justifies_here_def)
        with False show ?thesis by (simp add: runs_collect_mutant [OF assms(1)])
      qed (simp add: runs_Some)
    qed
    show ?thesis
    proof (rule runsI)
      fix s assume "state_ok R s"
      then show "\<exists>s'. (if dv_closure_depth s \<noteq> 0 \<or> \<not> has_expr then Some s
        else Option.bind (kid n 0) (\<lambda>e.
          case last_opt (dv_fn_context_stack s) of
            None \<Rightarrow> Some s
          | Some context \<Rightarrow>
              if fx_body_is_single_return context \<or> fx_output context = ReturnDefault then Some s
              else for_each (\<lambda>rep.
                  if to_pretty_string rep = to_pretty_string (nd_tokens e) then Some
                  else collect_mutant C (nd_span e) None rep ReturnValue)
                (replacements_of C (fx_output context)) s)) = Some s' \<and> advances C R s s'"
        using runsD [OF loop] last_opt_Some [of "dv_fn_context_stack s"]
        by (auto simp: True e state_ok_def list_all_iff split: option.split)
    qed
  qed (simp add: runs_Some)
  from runs_bind [OF this assms(5)] show ?thesis by (simp add: runs_def visit_expr_return_def)
qed

lemma scoped_visit_expr_if:
  assumes "source_ok (vc_source_file C)" "unique_ids R" "n \<in> set (subnodes R)" "nd_kind n = KIf"
    "second_is_block (nd_kids n)" "\<And>sc. runs C R sc descend"
  shows "scoped C R n (visit_expr_if C n descend)"
proof -
  obtain c b where k: "kid n 0 = Some c" "kid n 1 = Some b" "is_block b"
    using assms(5) by (auto simp: second_is_block_def kid_def get_opt_def split: list.splits)
  have bR: "b \<in> set (subnodes R)" using kid_subnodes [OF k(2) assms(3)] .
  note exits = block_contains_loop_exit_right [OF assms(2) _ bR k(3)]
  have justified: "justifies C R IfCondition (nd_span c) (to_pretty_string (bool_token v))"
    if "\<not> is_let_or_lit c" "v \<or> \<not> reaches is_loop_exit b" for v
    by (rule justifiesI [OF assms(3)]) (use k assms(4) that in \<open>cases v; simp add: justifies_here_def\<close>)
  have second: "runs C R sc (\<lambda>v. case block_contains_loop_exit b (dv_control_flow_memo v) of
      (memo, exits) \<Rightarrow> (\<lambda>v2. if exits then Some v2
        else collect_mutant C (nd_span c) None (bool_token False) IfCondition v2) (v\<lparr>dv_control_flow_memo := memo\<rparr>))"
    if "\<not> is_let_or_lit c" for sc
    by (intro runs_with_memo runs_if runs_Some runs_collect_mutant [OF assms(1)] justified that)
      (simp_all add: exits)
  have "runs C R sc (\<lambda>v. Option.bind
      (if is_let_or_lit c then Some v
       else Option.bind (collect_mutant C (nd_span c) None (bool_token True) IfCondition v)
         (\<lambda>v1. case block_contains_loop_exit b (dv_control_flow_memo v1) of
           (memo, exits) \<Rightarrow> (\<lambda>v2. if exits then Some v2
             else collect_mutant C (nd_span c) None (bool_token False) IfCondition v2)
             (v1\<lparr>dv_control_flow_memo := memo\<rparr>)))
      descend)" for sc
    by (intro runs_bind runs_if runs_Some runs_collect_mutant second justified assms) simp_all
  from this show ?thesis
    by (rule scopedI [where excluded = "attrs_excluded (nd_attrs n)"])
      (cases "is_let_or_lit c"; simp add: visit_expr_if_def k [simplified] Let_def split_beta)
qed

lemma scoped_visit_expr_while:
  assumes "source_ok (vc_source_file C)" "n \<in> set (subnodes R)" "nd_kind n = KWhile" "nd_kids n \<noteq> []"
    "\<And>sc. runs C R sc descend"
  shows "scoped C R n (visit_expr_while C n descend)"
proof -
  obtain c where k: "kid n 0 = Some c"
    using assms(4) by (cases "nd_kids n") (auto simp: kid_def get_opt_def)
  have justified: "justifies C R WhileCondition (nd_span c) (to_pretty_string (bool_token False))"
    if "\<not> is_let_or_lit c"
    by (rule justifiesI [OF assms(2)]) (use k assms(3) that in \<open>simp add: justifies_here_def\<close>)
  have "runs C R sc (\<lambda>v. Option.bind
      (if is_let_or_lit c then Some v else collect_mutant C (nd_span c) None (bool_token False) WhileCondition v)
      descend)" for sc
    by (intro runs_bind runs_if runs_Some runs_collect_mutant justified assms) simp_all
  from this show ?thesis
    by (rule scopedI [where excluded = "attrs_excluded (nd_attrs n)"])
      (simp add: visit_expr_while_def k)
qed

lemma scoped_visit_expr_unary:
  assumes "source_ok (vc_source_file C)" "n \<in> set (subnodes R)" "nd_kind n = KUnary op op_span"
    "\<And>sc. runs C R sc descend"
  shows "scoped C R n (visit_expr_unary C n op op_span descend)"
proof -
  have justified: "justifies C R UnaryOperator op_span (to_pretty_string [])" if "op = OpNot \<or> op = OpNeg"
    by (rule justifiesI [OF assms(2)]) (use assms(3) that in \<open>simp add: justifies_here_def\<close>)
  have "runs C R sc (\<lambda>v. Option.bind
      (if op = OpNot \<or> op = OpNeg then collect_mutant C op_span None [] UnaryOperator v else Some v) descend)" for sc
    by (intro runs_bind runs_if runs_Some runs_collect_mutant justified assms) simp_all
  from this show ?thesis
    by (rule scopedI [where excluded = "attrs_excluded (nd_attrs n)"])
      (simp add: visit_expr_unary_def)
qed

lemma runs_visit_expr_binary:
  assumes "source_ok (vc_source_file C)" "n \<in> set (subnodes R)" "nd_kind n = KBinary op op_span"
    "\<And>sc. runs C R sc descend"
  shows "runs C R sc (visit_expr_binary C n op op_span descend)"
proof -
  have justified: "justifies C R BinaryOperator op_span (to_pretty_string rep)" if "rep \<in> set (binary_replacements op)" for rep
    by (rule justifiesI [OF assms(2)]) (use assms(3) that in \<open>simp add: justifies_here_def\<close>)
  have "runs C R sc (\<lambda>s. Option.bind
      (for_each (\<lambda>rep. collect_mutant C op_span None rep BinaryOperator) (binary_replacements op) s) descend)"
    by (intro runs_bind runs_for_each runs_collect_mutant justified assms) simp_all
  then show ?thesis by (simp add: runs_def visit_expr_binary_def)
qed

lemma scoped_visit_expr_struct:
  assumes "source_ok (vc_source_file C)" "n \<in> set (subnodes R)" "\<And>sc. runs C R sc descend"
  shows "scoped C R n (visit_expr_struct C n p has_rest descend)"
proof -
  have kids: "fv \<in> set (subnodes R)" if "fv \<in> set (nd_kids n)" for fv
    using that assms(2) nd_kids_subnodes [of n] subnodes_trans(1) [of n R] by auto
  have "runs C R sc (\<lambda>v. Option.bind
      (if has_rest then for_each (delete_field C (to_pretty_string p)) (nd_kids n) v else Some v) descend)" for sc
    by (intro runs_bind runs_if runs_for_each runs_Some runs_delete_field kids assms)
  from this show ?thesis
    by (rule scopedI [where excluded = "attrs_excluded (nd_attrs n)"])
      (simp add: visit_expr_struct_def)
qed

lemma scoped_visit_expr_call:
  assumes "nd_kids n \<noteq> []" "\<And>sc. runs C R sc descend"
  shows "scoped C R n (visit_expr_call C n descend)"
proof -
  obtain f where k: "kid n 0 = Some f"
    using assms(1) by (cases "nd_kids n") (auto simp: kid_def get_opt_def)
  have "runs C R sc (\<lambda>v. case nd_kind f of
            KPath p _ \<Rightarrow> if path_in_skip_calls C p then Some v else descend v
          | _ \<Rightarrow> descend v)" for sc
    by (cases "nd_kind f") (auto intro!: runs_if runs_Some assms(2))
  from this show ?thesis
    by (rule scopedI [where excluded = "attrs_excluded (nd_attrs n)"])
      (simp add: visit_expr_call_def k)
qed

lemma scoped_visit_expr_method_call:
  assumes "\<And>sc. runs C R sc descend"
  shows "scoped C R n (visit_expr_method_call C n called descend)"
proof -
  have "runs C R sc (\<lambda>v. if list_ex (\<lambda>c. called = c) (opt_skip_calls (vc_options C)) then Some v else descend v)" for sc
    by (intro runs_if runs_Some assms)
  from this show ?thesis
    by (rule scopedI [where excluded = "attrs_excluded (nd_attrs n)"])
      (simp add: visit_expr_method_call_def)
qed

lemma runs_visit_block:
  assumes "source_ok (vc_source_file C)" "unique_ids R" "n \<in> set (subnodes R)" "list_all shaped_here (nd_kids n)"
    "\<And>sc. runs C R sc descend"
  shows "runs C R sc (visit_block C n descend)"
proof -
  have "runs C R sc (for_each (delete_statement C (untyped_local_idents n)) (nd_kids n))"
  proof (rule runs_for_each)
    fix st assume st: "st \<in> set (nd_kids n)"
    moreover have "st \<in> set (subnodes R)"
      using st assms(3) nd_kids_subnodes [of n] subnodes_trans(1) [of n R] by auto
    ultimately show "runs C R sc (delete_statement C (untyped_local_idents n) st)"
      using assms by (simp add: list_all_iff runs_delete_statement)
  qed
  from runs_bind [OF this assms(5)] show ?thesis by (simp add: runs_def visit_block_def)
qed

lemma scoped_visit_item_impl:
  assumes "\<And>sc. runs C R sc descend"
  shows "scoped C R n (visit_item_impl C n self_ty trait descend)"
proof -
  have "runs C R sc (\<lambda>v.
        let type_name = to_pretty_string self_ty in
        case trait of
          Some (p, trait_path) \<Rightarrow>
            if path_ends_with p ''Default'' then Some v
            else in_namespace (''<impl '' @ to_pretty_string trait_path @ '' for '' @ type_name @ ''>'') descend v
        | None \<Rightarrow> in_namespace type_name descend v)" for sc
    by (cases trait) (auto simp: Let_def intro!: runs_if runs_Some runs_in_namespace assms)
  then show ?thesis
    by (rule scopedI [where excluded = "attrs_excluded (nd_attrs n)"]) (simp add: visit_item_impl_def)
qed

lemma scoped_items:
  assumes "\<And>sc. runs C R sc descend"
  shows "scoped C R n (visit_file C n descend)" "scoped C R n (visit_item_trait C n name descend)"
    "scoped C R n (visit_item_mod C n name has_content descend)"
  by (rule scopedI [OF assms, where excluded = "attrs_excluded (nd_attrs n)"],
        simp add: visit_file_def,
      rule scopedI [OF runs_in_namespace [OF assms], where excluded = "attrs_excluded (nd_attrs n)"],
        simp add: visit_item_trait_def,
      rule scopedI [OF runs_in_mod [OF assms], where excluded = "attrs_excluded (nd_attrs n)"],
        simp add: visit_item_mod_def)

lemma runs_simple:
  assumes "\<And>sc. runs C R sc descend"
  shows "runs C R sc (visit_const n descend)" "runs C R sc (visit_type_array descend)"
    "runs C R sc (visit_generic_argument is_const descend)"
  using runs_in_const_eval_scope [OF assms] assms
  by (simp_all add: runs_def visit_const_def visit_type_array_def visit_generic_argument_def)

lemma scoped_functions:
  assumes "source_ok (vc_source_file C)" "n \<in> set (subnodes R)" "\<And>sc. runs C R sc descend"
  shows "nd_kind n = KItemFn sg \<Longrightarrow> nd_kids n \<noteq> [] \<Longrightarrow> scoped C R n (visit_item_fn C n sg descend)"
    "nd_kind n = KImplItemFn sg \<Longrightarrow> nd_kids n \<noteq> [] \<Longrightarrow> scoped C R n (visit_impl_item_fn C n sg descend)"
    "nd_kind n = KTraitItemFn sg has_default \<Longrightarrow> (has_default \<longrightarrow> nd_kids n \<noteq> [])
     \<Longrightarrow> scoped C R n (visit_trait_item_fn C n sg has_default descend)"
proof -
  let ?b = "last (nd_kids n)"
  have body: "runs C R sc (in_function sg (nd_span n) (visit_body C sg ?b descend))"
    if "fn_parts n = Some (sg, ?b)" "nd_kids ?b \<noteq> []" for sc
    by (intro runs_in_function runs_visit_body assms(1,3) that(2))
      (use that(1) assms(2) in \<open>auto simp: fn_of_def\<close>)
  have scope: "scoped C R n g" if "fn_parts n = Some (sg, ?b)" "nd_kids ?b = [] \<longrightarrow> excluded"
    "\<And>s. g s = (if excluded then Some s else visit_fn C n sg ?b descend s)" for g excluded
  proof (cases excluded)
    case True
    then show ?thesis using scopedI [OF runs_Some(1), of g True] that(3) by simp
  next
    case False
    then show ?thesis
      by (intro scopedI [OF body, where excluded = excluded]) (use that in \<open>auto simp: visit_fn_def\<close>)
  qed
  show "nd_kind n = KItemFn sg \<Longrightarrow> nd_kids n \<noteq> [] \<Longrightarrow> scoped C R n (visit_item_fn C n sg descend)"
    by (rule scope [where excluded = "fn_sig_excluded sg \<or> attrs_excluded (nd_attrs n) \<or> block_is_empty ?b"])
      (simp_all add: visit_item_fn_def block_is_empty_def last_opt_def fn_parts_def)
  show "nd_kind n = KImplItemFn sg \<Longrightarrow> nd_kids n \<noteq> [] \<Longrightarrow> scoped C R n (visit_impl_item_fn C n sg descend)"
    by (rule scope [where excluded = "fn_sig_excluded sg \<or> attrs_excluded (nd_attrs n)
          \<or> sg_ident sg = ''new'' \<or> block_is_empty ?b"])
      (simp_all add: visit_impl_item_fn_def block_is_empty_def last_opt_def fn_parts_def)
  show "scoped C R n (visit_trait_item_fn C n sg has_default descend)"
    if "nd_kind n = KTraitItemFn sg has_default" "has_default \<longrightarrow> nd_kids n \<noteq> []"
  proof (cases has_default)
    case True
    with that show ?thesis
      by (intro scope [where excluded = "fn_sig_excluded sg \<or> attrs_excluded (nd_attrs n)
          \<or> sg_ident sg = ''new'' \<or> block_is_empty ?b"])
        (simp_all add: visit_trait_item_fn_def block_is_empty_def last_opt_def fn_parts_def)
  next
    case False
    then show ?thesis
      using scopedI [OF runs_Some(1), of _ True] by (simp add: visit_trait_item_fn_def)
  qed
qed

subsection \<open>The traversal\<close>

lemmas scoped_visits =
  scoped_items scoped_functions scoped_visit_item_impl scoped_visit_expr_call scoped_visit_expr_method_call
  scoped_visit_expr_unary scoped_visit_expr_if scoped_visit_expr_while scoped_visit_expr_match
  scoped_visit_expr_struct

lemma runs_visit_node:
  assumes "source_ok (vc_source_file C)" "unique_ids R" "shaped n" "n \<in> set (subnodes R)" "\<And>sc. runs C R sc descend"
  shows "runs C R sc (visit_node C n descend)"
proof -
  have here: "shaped_here n" "list_all shaped_here (nd_kids n)"
    using shaped_kids [OF assms(3)] shaped_kids by (auto simp: list_all_iff)
  show ?thesis
    using here assms(1,2,4,5)
    by (cases "nd_kind n")
      (simp_all add: visit_node_def shaped_here_def scoped_visits [THEN scoped_runs] runs_simple runs_visit_block
        runs_visit_expr_binary runs_visit_expr_lit runs_visit_expr_closure runs_visit_expr_return runs_Some)
qed

lemma visit_runs:
  assumes "source_ok (vc_source_file C)" "unique_ids R"
  shows "shaped n \<Longrightarrow> n \<in> set (subnodes R) \<Longrightarrow> runs C R sc (visit_all C n)"
    and "list_all shaped ns \<Longrightarrow> set ns \<subseteq> set (subnodes R) \<Longrightarrow> runs C R sc (visit_kids C ns)"
proof (induction n and ns arbitrary: sc and sc rule: subnodes_subnodes_list.induct)
  case (1 i k as sp ts kids)
  have "set kids \<subseteq> set (subnodes R)"
    using nd_kids_subnodes [of "Node i k as sp ts kids"] subnodes_trans(1) [OF 1(3)] by auto
  with 1 have kids: "\<And>sc. runs C R sc (\<lambda>s. visit_kids C kids s)" by (simp add: shaped_Node)
  from runs_visit_node [OF assms 1(2,3) kids] show ?case by (simp add: runs_def)
next
  case 2
  show ?case by (simp add: runs_def)
next
  case (3 n ns)
  then have "runs C R sc (visit_all C n)" "runs C R sc (visit_kids C ns)" for sc by simp_all
  from runs_bind [OF this] show ?case by (simp add: runs_def)
qed

end
