(* ===== verification/Timeouts.thy ===== *)
theory Timeouts
  imports Options
begin

text \<open>
  Timeouts (\<open>src/src/timeouts.rs\<close>): how long a build and a test may take, from the options and
  the durations of the baseline.  The floating point product is computed by the libraries;
  \<^term>\<open>None\<close> is the panic of \<open>Duration::from_secs_f64\<close>.
\<close>

record timeouts =
  to_build :: "duration option"
  to_test :: "duration option"

definition f64_5 :: f64 where "f64_5 = 0x4014000000000000"

definition FALLBACK_TIMEOUT_SECS :: nat where "FALLBACK_TIMEOUT_SECS = 300"

definition from_secs_int :: "nat \<Rightarrow> duration" where
  "from_secs_int s = s * 10 ^ 9"

definition test_timeout :: "libs \<Rightarrow> duration option \<Rightarrow> options \<Rightarrow> duration option" where
  "test_timeout L baseline_duration o' =
     (case opt_test_timeout o' of
        Some explicit \<Rightarrow> Some explicit
      | None \<Rightarrow>
          (case baseline_duration of
             Some d \<Rightarrow>
               map_option (max (opt_minimum_test_timeout o'))
                 (lib_from_secs_f64 L (lib_ceil L
                    (lib_mul L (lib_as_secs_f64 L d) (unwrap_or (opt_test_timeout_multiplier o') f64_5))))
           | None \<Rightarrow>
               if opt_check_only o' then Some (from_secs_int 0)
               else Some (from_secs_int FALLBACK_TIMEOUT_SECS)))"

text \<open>The outer option is the panic, the inner one the absence of a limit.\<close>

definition build_timeout :: "libs \<Rightarrow> duration option \<Rightarrow> options \<Rightarrow> duration option option" where
  "build_timeout L baseline_duration o' =
     (case opt_build_timeout o' of
        Some t \<Rightarrow> Some (Some t)
      | None \<Rightarrow>
          (case baseline_duration of
             None \<Rightarrow> Some None
           | Some baseline \<Rightarrow>
               (case opt_build_timeout_multiplier o' of
                  None \<Rightarrow> Some None
                | Some k \<Rightarrow> map_option Some
                    (lib_from_secs_f64 L (lib_mul L (lib_as_secs_f64 L baseline) k)))))"

definition timeouts_for_baseline :: "options \<Rightarrow> timeouts" where
  "timeouts_for_baseline o' = \<lparr>to_build = None, to_test = opt_test_timeout o'\<rparr>"

definition timeouts_of :: "libs \<Rightarrow> duration option \<Rightarrow> duration option \<Rightarrow> options \<Rightarrow> timeouts option" where
  "timeouts_of L build_duration test_duration o' =
     (case (build_timeout L build_duration o', test_timeout L test_duration o') of
        (Some b, Some t) \<Rightarrow> Some \<lparr>to_build = b, to_test = Some t\<rparr>
      | _ \<Rightarrow> None)"

definition timeouts_from_baseline :: "libs \<Rightarrow> scenario_outcome \<Rightarrow> options \<Rightarrow> timeouts option" where
  "timeouts_from_baseline L baseline o' =
     timeouts_of L (map_option pr_duration (phase_result_of baseline Build))
       (map_option pr_duration (phase_result_of baseline Test)) o'"

definition timeouts_without_baseline :: "libs \<Rightarrow> options \<Rightarrow> timeouts option" where
  "timeouts_without_baseline L o' = timeouts_of L None None o'"

definition timeout_of_phase :: "timeouts \<Rightarrow> phase \<Rightarrow> duration option" where
  "timeout_of_phase t p = (case p of Test \<Rightarrow> to_test t | _ \<Rightarrow> to_build t)"

subsection \<open>Lemmas\<close>

lemma test_timeout_floor:
  "opt_test_timeout o' = None \<Longrightarrow> test_timeout L (Some d) o' = Some t \<Longrightarrow> opt_minimum_test_timeout o' \<le> t"
  by (auto simp: test_timeout_def)

lemma phase_results_of_success:
  assumes "phases_ran [Build, Test] (so_phase_results o')" "length (so_phase_results o') = 2"
  shows "\<exists>b t. so_phase_results o' = [b, t] \<and> phase_result_of o' Build = Some b \<and> phase_result_of o' Test = Some t"
proof -
  have "so_phase_results o' \<noteq> []" using assms by auto
  from classify_build_test [OF assms(1) this] obtain b t where
    "so_phase_results o' = [b, t]" "pr_phase b = Build" "pr_phase t = Test" using assms(2) by auto
  then show ?thesis by (simp add: phase_result_of_def)
qed

subsection \<open>Properties\<close>

text \<open>The limits that a passing baseline gives: an explicit limit always wins; otherwise the
  test limit is the scaled duration of the baseline's own test phase but never below the minimum,
  and a build is limited only if a multiplier was given, by the scaled duration of the build phase.\<close>

theorem baseline_sets_timeouts:
  assumes "phases_ran [Build, Test] (so_phase_results base)" "so_phase_results base = [b, t]"
    and "timeouts_from_baseline L base o' = Some ts"
  shows "(case opt_test_timeout o' of
      Some e \<Rightarrow> to_test ts = Some e
    | None \<Rightarrow> (\<exists>d s. to_test ts = Some d \<and> opt_minimum_test_timeout o' \<le> d
        \<and> lib_from_secs_f64 L (lib_ceil L (lib_mul L (lib_as_secs_f64 L (pr_duration t))
              (unwrap_or (opt_test_timeout_multiplier o') f64_5))) = Some s
        \<and> d = max (opt_minimum_test_timeout o') s))
    \<and> (case (opt_build_timeout o', opt_build_timeout_multiplier o') of
      (Some e, _) \<Rightarrow> to_build ts = Some e
    | (None, None) \<Rightarrow> to_build ts = None
    | (None, Some k) \<Rightarrow> to_build ts = lib_from_secs_f64 L (lib_mul L (lib_as_secs_f64 L (pr_duration b)) k)
        \<and> to_build ts \<noteq> None)"
proof -
  have p: "phase_result_of base Build = Some b" "phase_result_of base Test = Some t"
    using phase_results_of_success [OF assms(1)] assms(2) by auto
  with assms(3) show ?thesis
    by (auto simp: timeouts_from_baseline_def timeouts_of_def test_timeout_def build_timeout_def
        split: option.splits dest: sym [of "Some _"])
qed

definition example_options :: options where
  "example_options =
     \<lparr>opt_annotations = ResolvedNone, opt_baseline = BaselineRun, opt_cap_lints = False,
      opt_check_only = False, opt_copy_vcs = False, opt_gitignore = False, opt_copy_target = False,
      opt_detect_equivalent_mutants = False, opt_in_place = False, opt_jobserver = True,
      opt_jobserver_tasks = None, opt_leak_dirs = False, opt_test_timeout = None,
      opt_test_timeout_multiplier = None, opt_test_package = TPMutated, opt_build_timeout = None,
      opt_build_timeout_multiplier = None, opt_minimum_test_timeout = 20 * 10 ^ 9,
      opt_print_caught = False, opt_print_unviable = False, opt_show_times = True,
      opt_show_all_logs = False, opt_show_line_col = True, opt_shuffle = False,
      opt_skip_calls = [''with_capacity''], opt_skip_uncovered = False, opt_profile = None,
      opt_additional_cargo_args = [], opt_additional_cargo_test_args = [], opt_features = [],
      opt_no_default_features = False, opt_all_features = False, opt_examine_globset = None,
      opt_exclude_globset = None, opt_examine_name_re = [], opt_exclude_name_re = [],
      opt_output_in_dir = None, opt_jobs = None, opt_error_values = [], opt_colors = ColorsAuto,
      opt_emit_json = False,
      opt_common = \<lparr>cm_emit_diffs = None, cm_test_tool = None, cm_sharding = None\<rparr>\<rparr>"

lemma baseline_sets_timeouts_witness:
  "\<exists>d. timeouts_from_baseline example_libs
      (example_run [example_phase Build ExitSuccess, example_phase Test ExitSuccess]) example_options
    = Some \<lparr>to_build = None, to_test = Some d\<rparr> \<and> 20 * 10 ^ 9 \<le> d"
proof -
  let ?b = "example_phase Build ExitSuccess" let ?t = "example_phase Test ExitSuccess"
  let ?o = "example_run [?b, ?t]"
  have r: "so_phase_results ?o = [?b, ?t]" "phases_ran [Build, Test] (so_phase_results ?o)"
    by (simp_all add: example_run_def example_phase_def new_outcome_def phases_ran_def pr_is_success_def)
  have "timeouts_from_baseline example_libs ?o example_options
      = Some \<lparr>to_build = None, to_test = Some (20 * 10 ^ 9)\<rparr>"
    using r by (simp add: timeouts_from_baseline_def timeouts_of_def test_timeout_def build_timeout_def
        phase_result_of_def example_phase_def example_libs_def example_options_def)
  with baseline_sets_timeouts [OF r(2,1) this] show ?thesis
    by (auto simp: example_options_def)
qed

end
