(* ===== verification/VisitProps.thy ===== *)
theory VisitProps
  imports VisitFacts Timeouts
begin

text \<open>
  What the discovery of mutants in a file promises: it returns, what it finds is justified by the
  syntax tree and allowed by the options, and what is excluded is left alone.
\<close>

subsection \<open>Walking a file\<close>

lemma state_ok_new [simp]: "state_ok R new_visitor"
  by (simp add: state_ok_def new_visitor_def)

lemma walk_file_advances:
  assumes "source_ok sf" "parsed_error_exprs P (opt_error_values o') = Ok errs"
    and "ps_source P (sf_code sf) = Some R" "shaped R" "unique_ids R"
  shows "\<exists>v. walk_file L o' P sf = Some (visitor_result v)
    \<and> visit_all (walk_ctx L o' P sf errs R) R new_visitor = Some v
    \<and> advances (walk_ctx L o' P sf errs R) R new_visitor v"
proof -
  let ?C = "walk_ctx L o' P sf errs R"
  have "source_ok (vc_source_file ?C)" using assms(1) by (simp add: walk_ctx_def)
  from runsD [OF visit_runs(1) [OF this assms(5,4) subnodes_self] state_ok_new]
  show ?thesis using assms(2,3) by (auto simp: walk_file_def parse_file_def)
qed

lemma walk_file_mutants:
  assumes "source_ok sf" "parsed_error_exprs P (opt_error_values o') = Ok errs"
    and "ps_source P (sf_code sf) = Some R" "shaped R" "unique_ids R"
    and "walk_file L o' P sf = Some (Ok (ms, mods))"
  shows "list_all (collectable (walk_ctx L o' P sf errs R) R new_visitor) ms \<and> [] \<notin> set mods"
proof -
  obtain v where v: "walk_file L o' P sf = Some (visitor_result v)"
    "advances (walk_ctx L o' P sf errs R) R new_visitor v"
    using walk_file_advances [OF assms(1-5)] by blast
  with assms(6) have "ms = dv_mutants v" "mods = dv_external_mods v"
    by (auto simp: visitor_result_def split: option.splits)
  with v(2) show ?thesis by (auto simp: advances_def new_visitor_def list_all_iff)
qed

text \<open>C24: Walking a file that parses never panics: no assertion on the stacks of names, functions and
  modules fails, no depth counter goes below zero, no part of a node is missed and no mutant lacks what
  its name needs.  At the end every stack and counter is as it was at the start, so that nothing of one
  item's scope reaches the next, and the outcome is the visitor's, an error if an attribute was bad.\<close>

theorem walk_file_returns:
  assumes "source_ok sf" "parsed_error_exprs P (opt_error_values o') = Ok errs"
    and "ps_source P (sf_code sf) = Some R" "shaped R" "unique_ids R"
  shows "\<exists>v. visit_all (walk_ctx L o' P sf errs R) R new_visitor = Some v \<and> scopes v = scopes new_visitor
    \<and> walk_file L o' P sf = Some (visitor_result v)"
  using walk_file_advances [OF assms] by (auto simp: advances_def)

text \<open>C6: Every mutant found in a file belongs to that file, is well formed, and is justified by a node of
  its syntax tree: a binary operator is replaced by one of the operators of the table, a unary operator is
  \<open>!\<close> or \<open>-\<close> and is deleted, a condition that is replaced by \<open>false\<close> guards a block that no loop exit
  leaves, a deleted arm has no guard and belongs to a match with a catch-all, a deleted statement is a
  call, method call or assignment that is not skipped and holds no \<open>return\<close>, \<open>break\<close> or \<open>continue\<close>, a
  function's body or returned value is replaced by a value of a declared return type that differs from
  what is there, and a boolean literal is negated.\<close>

theorem discovered_mutants_justified:
  assumes "source_ok sf" "parsed_error_exprs P (opt_error_values o') = Ok errs"
    and "ps_source P (sf_code sf) = Some R" "shaped R" "unique_ids R"
    and "walk_file L o' P sf = Some (Ok (ms, mods))" "m \<in> set ms"
  shows "mu_source_file m = sf \<and> mutant_ok m
    \<and> justifies (walk_ctx L o' P sf errs R) R (mu_genre m) (mu_span m) (mu_replacement m)"
  using walk_file_mutants [OF assms(1-6)] assms(7)
  by (auto simp: list_all_iff collectable_def walk_ctx_def)

text \<open>Every mutant found in a file passes the name filters of the options, except that mutants that
  delete a field of a struct expression are not asked about.\<close>

theorem discovered_mutants_allowed:
  assumes "source_ok sf" "parsed_error_exprs P (opt_error_values o') = Ok errs"
    and "ps_source P (sf_code sf) = Some R" "shaped R" "unique_ids R"
    and "walk_file L o' P sf = Some (Ok (ms, mods))" "m \<in> set ms" "mu_genre m \<noteq> StructField"
  shows "allows_mutant L o' m = Some True"
  using walk_file_mutants [OF assms(1-6)] assms(7,8)
  by (auto simp: list_all_iff collectable_def walk_ctx_def)

subsection \<open>What is left alone\<close>

text \<open>The nodes whose visit ends at once.\<close>

definition checks_attrs :: "node_kind \<Rightarrow> bool" where
  "checks_attrs k \<longleftrightarrow>
     (case k of
        KFile \<Rightarrow> True | KItemConst \<Rightarrow> True | KItemStatic \<Rightarrow> True | KImplItemConst \<Rightarrow> True
      | KTraitItemConst \<Rightarrow> True | KItemMod _ _ \<Rightarrow> True | KItemImpl _ _ \<Rightarrow> True | KItemTrait _ \<Rightarrow> True
      | KItemFn _ \<Rightarrow> True | KImplItemFn _ \<Rightarrow> True | KTraitItemFn _ _ \<Rightarrow> True
      | KCall \<Rightarrow> True | KMethodCall _ \<Rightarrow> True | KBinary _ _ \<Rightarrow> True | KUnary _ _ \<Rightarrow> True | KIf \<Rightarrow> True
      | KWhile \<Rightarrow> True | KMatch \<Rightarrow> True | KStruct _ _ \<Rightarrow> True | _ \<Rightarrow> False)"

definition fn_left_alone :: "node \<Rightarrow> bool" where
  "fn_left_alone n \<longleftrightarrow>
     (case nd_kind n of
        KItemFn sg \<Rightarrow> sg_unsafe sg
      | KImplItemFn sg \<Rightarrow> sg_unsafe sg \<or> sg_ident sg = ''new''
      | KTraitItemFn sg d \<Rightarrow> sg_unsafe sg \<or> sg_ident sg = ''new'' \<or> \<not> d
      | _ \<Rightarrow> False)"

definition left_alone :: "node \<Rightarrow> bool" where
  "left_alone n \<longleftrightarrow> (checks_attrs (nd_kind n) \<and> attrs_excluded (nd_attrs n)) \<or> fn_left_alone n
     \<or> (case fn_parts n of Some (sg, b) \<Rightarrow> nd_kids b = [] | None \<Rightarrow> False)
     \<or> (case nd_kind n of KPattern _ _ \<Rightarrow> True | _ \<Rightarrow> False)"

text \<open>An item or expression marked \<open>#[mutants::skip]\<close>, \<open>#[cfg(test)]\<close> or \<open>#[test]\<close>, an unsafe function, a
  method called \<open>new\<close>, a function with an empty body, a trait function without a default and a pattern
  are left alone with everything below them: visiting them changes nothing of the visitor, so no
  mutant, no module to follow and no error comes from there.\<close>

theorem excluded_nodes_left_alone:
  assumes "left_alone n" "shaped n"
  shows "visit_all C n s = Some s"
proof (cases n)
  case (Node i k as sp ts kids)
  with assms shaped_kids [OF assms(2)] show ?thesis
    by (cases k)
      (auto simp: left_alone_def checks_attrs_def fn_left_alone_def visit_node_def visit_file_def visit_const_def
        visit_item_mod_def visit_item_impl_def visit_item_trait_def visit_item_fn_def visit_impl_item_fn_def
        visit_trait_item_fn_def visit_expr_call_def visit_expr_method_call_def visit_expr_binary_def
        visit_expr_unary_def visit_expr_if_def visit_expr_while_def visit_expr_match_def visit_expr_struct_def
        fn_parts_def shaped_here_def fn_sig_excluded_def block_is_empty_def last_opt_def)
qed

subsection \<open>What is found below a node\<close>

definition adds :: "node \<Rightarrow> (mutant \<Rightarrow> bool) \<Rightarrow> visit \<Rightarrow> bool" where
  "adds R P f \<longleftrightarrow>
     (\<forall>s s'. state_ok R s \<longrightarrow> f s = Some s' \<longrightarrow> (\<exists>ms. dv_mutants s' = dv_mutants s @ ms \<and> list_all P ms))"

lemma addsI:
  "(\<And>s s'. state_ok R s \<Longrightarrow> f s = Some s' \<Longrightarrow> \<exists>ms. dv_mutants s' = dv_mutants s @ ms \<and> list_all P ms) \<Longrightarrow> adds R P f"
  by (simp add: adds_def)

lemma addsD:
  "adds R P f \<Longrightarrow> state_ok R s \<Longrightarrow> f s = Some s' \<Longrightarrow> \<exists>ms. dv_mutants s' = dv_mutants s @ ms \<and> list_all P ms"
  by (simp add: adds_def)

lemma adds_in_const_eval_scope:
  assumes "\<And>sc. runs C R sc f"
  shows "adds R mu_const_eval (in_const_eval_scope f)"
proof (rule addsI)
  fix s s' assume st: "state_ok R s" and r: "in_const_eval_scope f s = Some s'"
  let ?s1 = "s\<lparr>dv_const_eval_depth := dv_const_eval_depth s + 1\<rparr>"
  have "state_ok R ?s1" using st by (simp add: state_ok_def)
  from runsD [OF assms this] obtain s2 where s2: "f ?s1 = Some s2" "advances C R ?s1 s2" by blast
  then obtain ms where "dv_mutants s2 = dv_mutants s @ ms" "list_all (collectable C R ?s1) ms"
    by (auto simp: advances_def)
  moreover have "dv_mutants s' = dv_mutants s2" using r s2(1) by (auto simp: in_const_eval_scope_def split: if_splits)
  ultimately show "\<exists>ms. dv_mutants s' = dv_mutants s @ ms \<and> list_all mu_const_eval ms"
    by (auto simp: collectable_def list_all_iff)
qed

lemma adds_in_function:
  assumes "sg_const sg" "\<And>sc. runs C R sc body"
  shows "adds R mu_const_eval (in_function sg sp body)"
proof (rule addsI)
  fix s s' assume st: "state_ok R s" and r: "in_function sg sp body s = Some s'"
  obtain s1 f where ef: "enter_function sg sp s = (s1, f)" by fastforce
  then have s1: "state_ok R s1" "dv_mutants s1 = dv_mutants s"
    using st by (auto simp: enter_function_def Let_def state_ok_def)
  from r obtain s2 where s2: "in_const_eval_scope body s1 = Some s2" "leave_function f s2 = Some s'"
    by (auto simp: in_function_def ef assms(1) split: bind_splits)
  have "dv_mutants s' = dv_mutants s2" using s2(2) by (auto simp: leave_function_def split: bind_splits if_splits)
  with addsD [OF adds_in_const_eval_scope [OF assms(2)] s1(1) s2(1)] s1(2)
  show "\<exists>ms. dv_mutants s' = dv_mutants s @ ms \<and> list_all mu_const_eval ms" by simp
qed

lemma adds_in_exclude_re_scope:
  assumes "adds R P f"
  shows "adds R P (in_exclude_re_scope C as f)"
proof (rule addsI)
  fix s s' assume st: "state_ok R s" and r: "in_exclude_re_scope C as f s = Some s'"
  show "\<exists>ms. dv_mutants s' = dv_mutants s @ ms \<and> list_all P ms"
  proof (cases rule: push_exclude_re_cases [of C as s])
    case (err msg)
    with r show ?thesis by (auto simp: in_exclude_re_scope_def set_error_def)
  next
    case none
    with r addsD [OF assms st] show ?thesis by (simp add: in_exclude_re_scope_def)
  next
    case (some ps)
    let ?s1 = "s\<lparr>dv_exclude_re_stack := dv_exclude_re_stack s @ [ps]\<rparr>"
    have st1: "state_ok R ?s1" using st by (simp add: state_ok_def)
    from r some obtain s2 where s2: "f ?s1 = Some s2" "pop_exclude_re s2 = Some s'"
      by (auto simp: in_exclude_re_scope_def split: bind_splits)
    then have "dv_mutants s' = dv_mutants s2" by (auto simp: pop_exclude_re_def)
    with addsD [OF assms st1 s2(1)] show ?thesis by simp
  qed
qed

lemma adds_Some: "adds R P Some"
  by (simp add: adds_def)

lemma adds_visit_fn:
  assumes "source_ok (vc_source_file C)" "n \<in> set (subnodes R)" "\<And>sc. runs C R sc descend" "sg_const sg"
    "fn_parts n = Some (sg, b)" "nd_kids b \<noteq> []"
  shows "adds R mu_const_eval (visit_fn C n sg b descend)"
proof -
  have "fn_of R sg b" using assms(2,5) by (auto simp: fn_of_def)
  from runs_visit_body [OF assms(1,6) this assms(3)] show ?thesis
    unfolding visit_fn_def by (intro adds_in_exclude_re_scope adds_in_function [OF assms(4)])
qed

text \<open>The constructs that are evaluated when the program is compiled.\<close>

definition compile_time :: "node_kind \<Rightarrow> bool" where
  "compile_time k \<longleftrightarrow>
     (case k of
        KItemConst \<Rightarrow> True | KItemStatic \<Rightarrow> True | KImplItemConst \<Rightarrow> True | KTraitItemConst \<Rightarrow> True
      | KTypeArray \<Rightarrow> True | KGenericArgument c \<Rightarrow> c
      | KItemFn sg \<Rightarrow> sg_const sg | KImplItemFn sg \<Rightarrow> sg_const sg | KTraitItemFn sg _ \<Rightarrow> sg_const sg
      | _ \<Rightarrow> False)"

text \<open>C26: Every mutant found in a construct that is evaluated when the program is compiled, however deep
  inside it, is marked so: in the initialiser of a \<open>const\<close> or \<open>static\<close>, the body of a \<open>const fn\<close>, the length
  of an array type or a const generic argument.\<close>

theorem compile_time_mutants_marked:
  assumes "source_ok (vc_source_file C)" "unique_ids R" "shaped n" "n \<in> set (subnodes R)"
    and "compile_time (nd_kind n)" "state_ok R s"
  shows "\<exists>s' ms. visit_all C n s = Some s' \<and> dv_mutants s' = dv_mutants s @ ms \<and> list_all mu_const_eval ms"
proof -
  obtain i k as sp ts kids where n: "n = Node i k as sp ts kids" by (cases n)
  let ?descend = "\<lambda>s1. visit_kids C kids s1"
  have kids: "set kids \<subseteq> set (subnodes R)"
    using nd_kids_subnodes [of n] subnodes_trans(1) [OF assms(4)] n by auto
  have d: "runs C R sc ?descend" for sc
    using visit_runs(2) [OF assms(1,2) _ kids] assms(3) by (simp add: n shaped_Node)
  note const = adds_in_const_eval_scope [OF d] and fn = adds_visit_fn [OF assms(1,4) d]
  have kind: "nd_kind n = k" "nd_kids n = kids" by (simp_all add: n)
  have "adds R mu_const_eval (visit_node C n ?descend)"
    using assms(5) shaped_kids [OF assms(3)] const fn adds_Some [of R mu_const_eval]
    by (cases k) (auto simp: kind compile_time_def visit_node_def visit_const_def visit_type_array_def
        visit_generic_argument_def visit_item_fn_def visit_impl_item_fn_def visit_trait_item_fn_def
        block_is_empty_def last_opt_def fn_parts_def shaped_here_def adds_def)
  moreover obtain s' where "visit_all C n s = Some s'"
    using runsD [OF visit_runs(1) [OF assms(1-4)] assms(6)] by blast
  ultimately show ?thesis using addsD [OF _ assms(6)] by (auto simp: n)
qed

text \<open>The nodes whose attributes can carry \<open>#[mutants::exclude_re]\<close>.\<close>

definition takes_exclude_re :: "node_kind \<Rightarrow> bool" where
  "takes_exclude_re k \<longleftrightarrow>
     (case k of
        KFile \<Rightarrow> True | KItemFn _ \<Rightarrow> True | KImplItemFn _ \<Rightarrow> True | KTraitItemFn _ _ \<Rightarrow> True
      | KItemMod _ _ \<Rightarrow> True | KItemImpl _ _ \<Rightarrow> True | KItemTrait _ \<Rightarrow> True
      | KCall \<Rightarrow> True | KMethodCall _ \<Rightarrow> True | KUnary _ _ \<Rightarrow> True | KIf \<Rightarrow> True
      | KWhile \<Rightarrow> True | KMatch \<Rightarrow> True | KStruct _ _ \<Rightarrow> True | _ \<Rightarrow> False)"

lemma visit_all_scoped:
  assumes "source_ok (vc_source_file C)" "unique_ids R" "shaped n" "n \<in> set (subnodes R)"
    and "takes_exclude_re (nd_kind n)"
  shows "scoped C R n (visit_all C n)"
proof -
  obtain i k as sp ts kids where n: "n = Node i k as sp ts kids" by (cases n)
  let ?descend = "\<lambda>s1. visit_kids C kids s1"
  have kids: "set kids \<subseteq> set (subnodes R)"
    using nd_kids_subnodes [of n] subnodes_trans(1) [OF assms(4)] n by auto
  have d: "runs C R sc ?descend" for sc
    using visit_runs(2) [OF assms(1,2) _ kids] assms(3) by (simp add: n shaped_Node)
  have here: "shaped_here n" "list_all shaped_here (nd_kids n)"
    using shaped_kids [OF assms(3)] shaped_kids by (auto simp: list_all_iff)
  have kind: "nd_kind n = k" "nd_kids n = kids" by (simp_all add: n)
  have "scoped C R n (visit_node C n ?descend)"
    using assms(1,2,4,5) here d
    by (cases k) (simp_all add: kind takes_exclude_re_def visit_node_def shaped_here_def scoped_visits)
  then show ?thesis by (simp add: scoped_def n)
qed


subsection \<open>An example\<close>

text \<open>\<open>const A:bool=true;\<close>, first without attributes and then with \<open>#![mutants::exclude_re("b")]\<close>.\<close>

definition const_code :: string where
  "const_code = ''const A:bool=true;''"

definition const_source :: source_file where
  "const_source = example_source\<lparr>sf_code := const_code, sf_line_index := line_index_new const_code\<rparr>"

definition const_item :: node where
  "const_item = Node 2 KItemConst [] (quad 1 1 1 19) [] [Node 3 (KLit (Some True)) [] (quad 1 14 1 18) [] []]"

definition const_file :: "attribute list \<Rightarrow> node" where
  "const_file as = Node 1 KFile as (quad 1 1 1 19) [] [const_item]"

definition exclude_attr :: attribute where
  "exclude_attr = \<lparr>at_path = [''mutants'', ''exclude_re''], at_span = quad 1 1 1 1, at_args = LitArg ''b'' False,
     at_nested = [], at_nested_ok = False, at_path_value = None\<rparr>"

definition skip_attr :: attribute where
  "skip_attr = \<lparr>at_path = [''mutants'', ''skip''], at_span = quad 1 1 1 1, at_args = NoLiteral ''none'',
     at_nested = [], at_nested_ok = False, at_path_value = None\<rparr>"

definition const_parser :: parser where
  "const_parser =
     \<lparr>ps_expr = (\<lambda>_. None), ps_source = (\<lambda>c. if c = const_code then Some (const_file []) else None),
      ps_get_ident = documented_get_ident, ps_regex_error = (\<lambda>_. ''bad regex'')\<rparr>"

definition const_mutant :: mutant where
  "const_mutant = new_discovered const_source None (quad 1 14 1 18) None ''false'' BoolLiteral None True"

lemma const_source_ok: "source_ok const_source"
  by (simp add: source_ok_def const_source_def const_code_def example_source_def utf8_def lead_len_def
      ascent_def components_def is_absolute_def starts_with_def to_slash_path_def)

lemma const_file_parts:
  "shaped (const_file as)" "unique_ids (const_file as)" "shaped const_item" "const_item \<in> set (subnodes (const_file as))"
  by (simp_all add: shaped_def shaped_here_def const_file_def const_item_def unique_ids_def is_expr_def is_block_def)

lemma const_parsed:
  "parsed_error_exprs const_parser (opt_error_values example_options) = Ok []"
  "ps_source const_parser (sf_code const_source) = Some (const_file [])"
  by (simp_all add: const_parser_def const_source_def example_options_def)

lemma const_walk: "walk_file example_libs example_options const_parser const_source = Some (Ok ([const_mutant], []))"
  by (simp add: walk_file_def const_parsed parse_file_def const_file_def const_item_def visit_node_def visit_file_def
      attrs_excluded_def in_exclude_re_scope_def push_exclude_re_def attrs_exclude_re_patterns_def visit_const_def
      in_const_eval_scope_def visit_expr_lit_def new_visitor_def collect_mutant_def excluded_by_attr_re_def
      allows_mutant_def walk_ctx_def example_options_def push_mutant_def visitor_result_def new_mutant_def
      const_mutant_def)

lemma walk_file_returns_witness:
  "\<exists>v. scopes v = scopes new_visitor
     \<and> walk_file example_libs example_options const_parser const_source = Some (visitor_result v)"
  using walk_file_returns [OF const_source_ok const_parsed const_file_parts(1,2)] by blast

lemma discovered_mutants_justified_witness:
  "justifies (walk_ctx example_libs example_options const_parser const_source [] (const_file [])) (const_file [])
     BoolLiteral (quad 1 14 1 18) ''false''"
  using discovered_mutants_justified [OF const_source_ok const_parsed const_file_parts(1,2) const_walk, of const_mutant]
  by (simp add: const_mutant_def new_discovered_def)

lemma discovered_mutants_allowed_witness:
  "allows_mutant example_libs example_options const_mutant = Some True"
  using discovered_mutants_allowed [OF const_source_ok const_parsed const_file_parts(1,2) const_walk, of const_mutant]
  by (simp add: const_mutant_def new_discovered_def)

lemma excluded_nodes_left_alone_witness:
  "visit_all (walk_ctx example_libs example_options const_parser const_source [] (const_file [skip_attr]))
     (const_file [skip_attr]) new_visitor = Some new_visitor"
proof (rule excluded_nodes_left_alone)
  show "left_alone (const_file [skip_attr])"
    by (simp add: left_alone_def const_file_def checks_attrs_def attrs_excluded_def attr_is_mutants_skip_def
        path_is_def skip_attr_def)
qed (rule const_file_parts)

abbreviation const_ctx :: visit_ctx where
  "const_ctx \<equiv> walk_ctx (example_libs\<lparr>lib_regex_match := \<lambda>r s. False\<rparr>) example_options const_parser const_source []
     (const_file [exclude_attr])"

lemma compile_time_mutants_marked_witness:
  "\<exists>s' ms. visit_all const_ctx const_item new_visitor = Some s' \<and> dv_mutants s' = ms \<and> list_all mu_const_eval ms"
proof -
  have "source_ok (vc_source_file const_ctx)" "compile_time (nd_kind const_item)"
    using const_source_ok by (simp_all add: walk_ctx_def const_item_def compile_time_def)
  from compile_time_mutants_marked [OF this(1) const_file_parts(2-4) this(2) state_ok_new]
  show ?thesis by (simp add: new_visitor_def)
qed


subsection \<open>Fields of struct expressions\<close>

text \<open>The options are not asked about a mutant that deletes a field: here is one that they do not allow, and
  it is collected all the same.\<close>

lemma struct_field_ignores_options:
  assumes "source_ok (vc_source_file C)" "nd_kind fv = KFieldValue (Some f) comma" "dv_exclude_re_stack s = []"
    and "opt_examine_name_re (vc_options C) = []" "opt_exclude_name_re (vc_options C) = [r]"
    and "\<And>name. lib_regex_match (vc_libs C) r name"
  shows "\<exists>m. delete_field C sname fv s = Some (push_mutant m s)
    \<and> allows_mutant (vc_libs C) (vc_options C) m = Some False"
proof -
  have "\<exists>b. allows_mutant (vc_libs C) (vc_options C) (new_mutant C s sp None [] StructField t) = Some False" for sp t
    using full_name_total [OF new_mutant_ok [OF assms(1), of StructField s None sp "[]" t]] assms(4-6)
    by (auto simp: allows_mutant_def regex_set_match_def)
  then show ?thesis using assms(2,3)
    by (cases comma) (auto simp: delete_field_def excluded_by_attr_re_def Let_def)
qed

end
