(* ===== verification/WalkTree.thy ===== *)
theory WalkTree
  imports VisitProps
begin

text \<open>
  Walking the source tree (the first part of \<open>src/src/visit.rs\<close>): finding the file of a module, walking
  the files of a level on a pool of threads, following \<open>mod\<close> statements level by level from the top
  files of a package, and all packages in turn.
\<close>

subsection \<open>The world\<close>

text \<open>The file system, the parser and the options, which do not change during the walk.\<close>

record walk_env =
  we_read :: "path \<Rightarrow> string option"
  we_is_file :: "path \<Rightarrow> bool"
  we_parser :: parser
  we_libs :: libs
  we_options :: options
  we_workspace_dir :: path

type_synonym walked_file = "(source_file \<times> mutant list \<times> mod_namespace list list) option"
type_synonym file_outcome = "(walk_error, walked_file) rresult"

subsection \<open>One file\<close>

definition read_source :: "walk_env \<Rightarrow> path \<Rightarrow> (walk_error, string) rresult" where
  "read_source E p = (case we_read E p of None \<Rightarrow> Err (LoadFailed p) | Some s \<Rightarrow> Ok s)"

definition load_and_walk_file :: "walk_env \<Rightarrow> package \<Rightarrow> path \<times> bool \<Rightarrow> file_outcome option" where
  "load_and_walk_file E pkg pending =
     (case pending of
        (p, package_top) \<Rightarrow>
          (case load (read_source E) (we_workspace_dir E) p pkg package_top of
             Err e \<Rightarrow> Some (Err e)
           | Ok None \<Rightarrow> Some (Ok None)
           | Ok (Some sf) \<Rightarrow>
               map_option (\<lambda>r. rbind r (\<lambda>(mutants, external_mods). Ok (Some (sf, mutants, external_mods))))
                 (walk_file (we_libs E) (we_options E) (we_parser E) sf)))"

subsection \<open>The file of a module\<close>

fun extend_path :: "path \<Rightarrow> path list \<Rightarrow> path" where
  "extend_path p [] = p"
| "extend_path p (q # qs) = extend_path (join_path p q) qs"

definition search_dir :: "source_file \<Rightarrow> mod_namespace \<Rightarrow> mod_namespace list \<Rightarrow> path option" where
  "search_dir parent mod_child mod_parents =
     (let parent_path = sf_tree_relative_path parent in
      map_option (\<lambda>d. extend_path d (map get_filesystem_name mod_parents))
        (if sf_is_top parent \<or> path_ends_with_component parent_path ''mod.rs''
            \<or> (mn_path_attribute mod_child \<noteq> None \<and> mod_parents = [])
         then path_parent parent_path
         else Some (without_extension parent_path)))"

definition mod_child_candidates :: "path \<Rightarrow> mod_namespace \<Rightarrow> path list" where
  "mod_child_candidates dir mod_child =
     (case mn_path_attribute mod_child of
        Some filesystem_name \<Rightarrow> [join_path dir filesystem_name]
      | None \<Rightarrow> map (\<lambda>tail. join_path dir (mn_name mod_child @ tail)) [''.rs'', ''/mod.rs''])"

text \<open>The outer \<^const>\<open>None\<close> is a failed \<open>expect\<close>.\<close>

definition find_mod_source :: "walk_env \<Rightarrow> source_file \<Rightarrow> mod_namespace list \<Rightarrow> path option option" where
  "find_mod_source E parent parts =
     Option.bind (pop parts) (\<lambda>(mod_parents, mod_child).
       map_option (\<lambda>dir.
           find (\<lambda>relative_path. we_is_file E (join_path (we_workspace_dir E) relative_path))
             (mod_child_candidates dir mod_child))
         (search_dir parent mod_child mod_parents))"

subsection \<open>A pool of threads\<close>

text \<open>\<open>walk_files\<close>: \<open>f i\<close> is what the thread for file \<open>i\<close> reports, \<^const>\<open>None\<close> if it panicked.  The threads
  that run are \<open>in_flight\<close>; which of them reports next is up to the scheduler, whose choice is the
  parameter \<open>sched\<close> of the number of files not reported yet.\<close>

function pool_loop ::
  "(nat \<Rightarrow> 'r option) \<Rightarrow> nat \<Rightarrow> (nat \<Rightarrow> nat) \<Rightarrow> nat list \<Rightarrow> nat \<Rightarrow> 'r option list \<Rightarrow> 'r option list option" where
  "pool_loop f n sched in_flight next_idx results =
     (if in_flight = [] then Some results
      else
        (let idx = in_flight ! (sched (length in_flight + (n - next_idx)) mod length in_flight) in
         case f idx of
           None \<Rightarrow> None
         | Some outcome \<Rightarrow>
             (let results = results[idx := Some outcome];
                  in_flight = remove1 idx in_flight
              in if next_idx < n then pool_loop f n sched (in_flight @ [next_idx]) (next_idx + 1) results
                 else pool_loop f n sched in_flight next_idx results)))"
  by pat_completeness auto
termination
  by (relation "measure (\<lambda>(f, n, sched, in_flight, next_idx, results). 2 * (n - next_idx) + length in_flight)")
    (auto simp: length_remove1)

declare pool_loop.simps [simp del]

definition run_pool :: "(nat \<Rightarrow> 'r option) \<Rightarrow> nat \<Rightarrow> nat \<Rightarrow> (nat \<Rightarrow> nat) \<Rightarrow> 'r option list option" where
  "run_pool f n concurrency sched =
     pool_loop f n sched [0..<min concurrency n] (min concurrency n) (replicate n None)"

text \<open>The results in order; the first error ends the collection.  \<^const>\<open>None\<close> is a missing result.\<close>

fun collect_results :: "('e, 'a) rresult option list \<Rightarrow> ('e, 'a list) rresult option" where
  "collect_results [] = Some (Ok [])"
| "collect_results (None # rs) = None"
| "collect_results (Some (Err e) # rs) = Some (Err e)"
| "collect_results (Some (Ok a) # rs) = map_option (\<lambda>r. rbind r (\<lambda>as. Ok (a # as))) (collect_results rs)"

definition walk_files ::
  "walk_env \<Rightarrow> package \<Rightarrow> nat \<Rightarrow> (nat \<Rightarrow> nat) \<Rightarrow> (path \<times> bool) list \<Rightarrow> (walk_error, walked_file list) rresult option" where
  "walk_files E pkg concurrency sched pending =
     Option.bind (run_pool (\<lambda>i. load_and_walk_file E pkg (pending ! i)) (length pending) concurrency sched)
       collect_results"

subsection \<open>A package\<close>

text \<open>What the walk has gathered, with the counters shown as progress.\<close>

record walk_state =
  wk_mutants :: "mutant list"
  wk_files :: "source_file list"
  wk_pending :: "(path \<times> bool) list"
  wk_files_done :: nat
  wk_mutants_found :: nat

definition push_pending :: "path \<Rightarrow> walk_state \<Rightarrow> walk_state" where
  "push_pending p w = w\<lparr>wk_pending := wk_pending w @ [(p, False)]\<rparr>"

fun follow_mods :: "walk_env \<Rightarrow> source_file \<Rightarrow> mod_namespace list list \<Rightarrow> walk_state \<Rightarrow> walk_state option" where
  "follow_mods E sf [] w = Some w"
| "follow_mods E sf (r # rs) w =
     (case find_mod_source E sf r of
        None \<Rightarrow> None
      | Some None \<Rightarrow> follow_mods E sf rs w
      | Some (Some p) \<Rightarrow> follow_mods E sf rs (push_pending p w))"

fun take_outcomes :: "walk_env \<Rightarrow> walked_file list \<Rightarrow> walk_state \<Rightarrow> walk_state option" where
  "take_outcomes E [] w = Some w"
| "take_outcomes E (None # os) w = take_outcomes E os w"
| "take_outcomes E (Some (sf, file_mutants, external_mods) # os) w =
     Option.bind
       (follow_mods E sf external_mods
          (w\<lparr>wk_files_done := wk_files_done w + 1, wk_mutants_found := wk_mutants_found w + length file_mutants\<rparr>))
       (\<lambda>w1.
         if \<not> allows_source_file_path (we_libs E) (we_options E) (sf_tree_relative_path sf)
         then take_outcomes E os w1
         else take_outcomes E os (w1\<lparr>wk_mutants := wk_mutants w1 @ file_mutants, wk_files := wk_files w1 @ [sf]\<rparr>))"

datatype 'a run = Returned "(walk_error, 'a) rresult" | Interrupted | Panicked | OutOfFuel

text \<open>The machine: how many threads it runs, which of them reports next in each level, and before which
  levels the interrupt key was pressed.\<close>

record machine =
  mc_parallelism :: nat
  mc_sched :: "nat \<Rightarrow> nat \<Rightarrow> nat"
  mc_interrupted :: "nat \<Rightarrow> bool"

fun walk_levels :: "walk_env \<Rightarrow> machine \<Rightarrow> package \<Rightarrow> nat \<Rightarrow> nat \<Rightarrow> walk_state \<Rightarrow> walk_state run" where
  "walk_levels E M pkg 0 level w = OutOfFuel"
| "walk_levels E M pkg (Suc fuel) level w =
     (if wk_pending w = [] then Returned (Ok w)
      else if mc_interrupted M level then Interrupted
      else (case walk_files E pkg (mc_parallelism M) (mc_sched M level) (wk_pending w) of
              None \<Rightarrow> Panicked
            | Some (Err e) \<Rightarrow> Returned (Err e)
            | Some (Ok walked) \<Rightarrow>
                (case take_outcomes E walked (w\<lparr>wk_pending := []\<rparr>) of
                   None \<Rightarrow> Panicked
                 | Some w1 \<Rightarrow> walk_levels E M pkg fuel (level + 1) w1)))"

definition start_package :: "package \<Rightarrow> walk_state \<Rightarrow> walk_state" where
  "start_package pkg w = w\<lparr>wk_pending := map (\<lambda>p. (p, True)) (pkg_top_sources pkg)\<rparr>"

definition walk_package :: "walk_env \<Rightarrow> machine \<Rightarrow> package \<Rightarrow> nat \<Rightarrow> walk_state \<Rightarrow> walk_state run" where
  "walk_package E M pkg fuel w = walk_levels E M pkg fuel 0 (start_package pkg w)"

subsection \<open>All packages\<close>

text \<open>\<open>walk_tree\<close>; each package has a machine of its own, as its levels are counted anew.\<close>

definition new_walk :: walk_state where
  "new_walk = \<lparr>wk_mutants = [], wk_files = [], wk_pending = [], wk_files_done = 0, wk_mutants_found = 0\<rparr>"

fun walk_packages :: "walk_env \<Rightarrow> (package \<Rightarrow> machine) \<Rightarrow> nat \<Rightarrow> package list \<Rightarrow> walk_state \<Rightarrow> walk_state run" where
  "walk_packages E M fuel [] w = Returned (Ok w)"
| "walk_packages E M fuel (pkg # pkgs) w =
     (case walk_package E (M pkg) pkg fuel w of
        Returned (Ok w1) \<Rightarrow> walk_packages E M fuel pkgs w1
      | r \<Rightarrow> r)"

record discovered =
  di_mutants :: "mutant list"
  di_files :: "source_file list"

definition walk_tree :: "walk_env \<Rightarrow> (package \<Rightarrow> machine) \<Rightarrow> nat \<Rightarrow> package list \<Rightarrow> discovered run" where
  "walk_tree E M fuel pkgs =
     (case walk_packages E M fuel pkgs new_walk of
        Returned (Ok w) \<Rightarrow> Returned (Ok \<lparr>di_mutants = wk_mutants w, di_files = wk_files w\<rparr>)
      | Returned (Err e) \<Rightarrow> Returned (Err e)
      | Interrupted \<Rightarrow> Interrupted | Panicked \<Rightarrow> Panicked | OutOfFuel \<Rightarrow> OutOfFuel)"

text \<open>\<open>Workspace::discover\<close>, whose error in choosing packages is returned before the walk.\<close>

definition discover ::
  "walk_env \<Rightarrow> (package \<Rightarrow> machine) \<Rightarrow> nat \<Rightarrow> (path \<Rightarrow> (ws_error, path) rresult) \<Rightarrow> workspace \<Rightarrow> package_filter
     \<Rightarrow> (ws_error, discovered run) rresult" where
  "discover E M fuel locate ws flt =
     rbind (filter_packages locate ws flt) (\<lambda>sel.
       Ok (walk_tree (E\<lparr>we_workspace_dir := ws_root ws\<rparr>) M fuel (expand_selection ws sel)))"

text \<open>\<open>Discovered::remove_previously_caught\<close>; \<^const>\<open>None\<close> where a name panics.\<close>

fun retain_not_caught :: "string list \<Rightarrow> mutant list \<Rightarrow> mutant list option" where
  "retain_not_caught caught [] = Some []"
| "retain_not_caught caught (m # ms) =
     Option.bind (if caught = [] then Some False else map_option (\<lambda>n. n \<in> set caught) (full_name m)) (\<lambda>c.
       map_option (\<lambda>rest. if c then rest else m # rest) (retain_not_caught caught ms))"

definition remove_previously_caught :: "string list \<Rightarrow> discovered \<Rightarrow> discovered option" where
  "remove_previously_caught caught d =
     map_option (\<lambda>ms. d\<lparr>di_mutants := ms\<rparr>) (retain_not_caught caught (di_mutants d))"

subsection \<open>The pool\<close>

text \<open>What is reported so far: the results of the files that were started and are not running.\<close>

definition pool_inv ::
  "(nat \<Rightarrow> 'r option) \<Rightarrow> nat \<Rightarrow> nat list \<Rightarrow> nat \<Rightarrow> 'r option list \<Rightarrow> bool" where
  "pool_inv f n in_flight next_idx results \<longleftrightarrow>
     next_idx \<le> n \<and> distinct in_flight \<and> set in_flight \<subseteq> {..<next_idx} \<and> length results = n
     \<and> (\<forall>i<n. results ! i = (if i < next_idx \<and> i \<notin> set in_flight then f i else None))
     \<and> (\<forall>i<next_idx. i \<notin> set in_flight \<longrightarrow> f i \<noteq> None)
     \<and> (next_idx < n \<longrightarrow> in_flight \<noteq> [])"

definition pool_result :: "(nat \<Rightarrow> 'r option) \<Rightarrow> nat \<Rightarrow> 'r option list option" where
  "pool_result f n = (if \<exists>i<n. f i = None then None else Some (map f [0..<n]))"

lemma pool_inv_report:
  assumes "pool_inv f n in_flight next_idx results" "idx \<in> set in_flight" "f idx = Some r"
  shows "next_idx < n \<Longrightarrow>
      pool_inv f n (remove1 idx in_flight @ [next_idx]) (Suc next_idx) (results[idx := Some r])"
    and "\<not> next_idx < n \<Longrightarrow> pool_inv f n (remove1 idx in_flight) next_idx (results[idx := Some r])"
proof -
  have idx: "idx < next_idx" "idx < length results" using assms by (auto simp: pool_inv_def)
  have rest: "set (remove1 idx in_flight) = set in_flight - {idx}" using assms by (simp add: pool_inv_def)
  show "next_idx < n \<Longrightarrow>
      pool_inv f n (remove1 idx in_flight @ [next_idx]) (Suc next_idx) (results[idx := Some r])"
    "\<not> next_idx < n \<Longrightarrow> pool_inv f n (remove1 idx in_flight) next_idx (results[idx := Some r])"
    using assms idx unfolding pool_inv_def
    by (auto simp: nth_list_update rest less_Suc_eq split: if_splits)
qed

lemma pool_loop_result:
  "pool_inv f n in_flight next_idx results \<Longrightarrow>
     pool_loop f n sched in_flight next_idx results = pool_result f n"
proof (induction f n sched in_flight next_idx results rule: pool_loop.induct)
  case (1 f n sched in_flight next_idx results)
  show ?case
  proof (cases "in_flight = []")
    case True
    with 1(3) have "next_idx = n" "length results = n" "\<forall>i<n. results ! i = f i" "\<forall>i<n. f i \<noteq> None"
      by (auto simp: pool_inv_def)
    with True show ?thesis
      by (subst pool_loop.simps) (auto simp: pool_result_def intro: nth_equalityI)
  next
    case False
    let ?idx = "in_flight ! (sched (length in_flight + (n - next_idx)) mod length in_flight)"
    have idx: "?idx \<in> set in_flight" using False by simp
    show ?thesis
    proof (cases "f ?idx")
      case None
      moreover have "?idx < n" using idx 1(3) by (auto simp: pool_inv_def)
      ultimately show ?thesis using False
        by (subst pool_loop.simps) (auto simp: pool_result_def)
    next
      case (Some r)
      note inv = pool_inv_report [OF 1(3) idx Some]
      show ?thesis
      proof (cases "next_idx < n")
        case True
        from 1(1) [OF False refl Some refl refl True] inv(1) [OF True] show ?thesis
          using False Some True by (subst pool_loop.simps) (simp add: Let_def)
      next
        case no: False
        from 1(2) [OF False refl Some refl refl no] inv(2) [OF no] show ?thesis
          using False Some no by (subst pool_loop.simps) (simp add: Let_def)
      qed
    qed
  qed
qed

lemma run_pool_result: "0 < concurrency \<Longrightarrow> run_pool f n concurrency sched = pool_result f n"
  unfolding run_pool_def by (rule pool_loop_result) (auto simp: pool_inv_def)

lemma walk_files_ordered:
  assumes "0 < concurrency"
  shows "walk_files E pkg concurrency sched pending =
    (if None \<in> set (map (load_and_walk_file E pkg) pending) then None
     else collect_results (map (load_and_walk_file E pkg) pending))"
proof -
  have "map (\<lambda>i. load_and_walk_file E pkg (pending ! i)) [0..<length pending] = map (load_and_walk_file E pkg) pending"
    by (simp add: map_equality_iff)
  moreover have "(\<exists>i<length pending. load_and_walk_file E pkg (pending ! i) = None)
      \<longleftrightarrow> None \<in> set (map (load_and_walk_file E pkg) pending)"
    by (force simp: in_set_conv_nth)
  ultimately show ?thesis
    by (simp add: walk_files_def run_pool_result [OF assms] pool_result_def)
qed

text \<open>C28: The files of a level are walked as a serial walk in the order of the list would: however many
  threads the pool has, and in whatever order they report, the outcomes come out in input order and the
  error, if any, is that of the first file in the list that fails; a thread that panics makes the whole
  walk panic.\<close>

theorem walk_files_in_order:
  assumes "0 < concurrency"
  shows "walk_files E pkg concurrency sched pending =
    (if None \<in> set (map (load_and_walk_file E pkg) pending) then None
     else collect_results (map (load_and_walk_file E pkg) pending))"
  using assms by (rule walk_files_ordered)

subsection \<open>What a level leaves behind\<close>

lemma collect_results_Ok:
  "collect_results rs = Some (Ok as) \<Longrightarrow> rs = map (\<lambda>a. Some (Ok a)) as"
proof (induction rs arbitrary: as rule: collect_results.induct)
  case (4 a rs)
  then show ?case by (auto simp: rbind_Ok_iff)
qed auto

lemma collect_results_total: "None \<notin> set rs \<Longrightarrow> collect_results rs \<noteq> None"
  by (induction rs rule: collect_results.induct) auto

text \<open>A module's file, as found from the file \<open>p\<close>.\<close>

definition mod_of :: "walk_env \<Rightarrow> package \<Rightarrow> path \<times> bool \<Rightarrow> path \<Rightarrow> bool" where
  "mod_of E pkg pending q \<longleftrightarrow>
     (\<exists>sf ms mods r. load_and_walk_file E pkg pending = Some (Ok (Some (sf, ms, mods)))
        \<and> r \<in> set mods \<and> find_mod_source E sf r = Some (Some q))"

lemma follow_mods_Some:
  "follow_mods E sf rs w = Some w' \<Longrightarrow>
     \<exists>qs. wk_pending w' = wk_pending w @ map (\<lambda>q. (q, False)) qs
       \<and> (\<forall>q\<in>set qs. \<exists>r\<in>set rs. find_mod_source E sf r = Some (Some q))
       \<and> wk_mutants w' = wk_mutants w \<and> wk_files w' = wk_files w"
proof (induction E sf rs w rule: follow_mods.induct)
  case (2 E sf r rs w)
  show ?case
  proof (cases "find_mod_source E sf r")
    case (Some o')
    show ?thesis
    proof (cases o')
      case None
      with 2(1) [OF Some] 2(3) Some show ?thesis by fastforce
    next
      case o: (Some q)
      with 2(2) [OF Some o] 2(3) Some obtain qs where
        "wk_pending w' = wk_pending w @ [(q, False)] @ map (\<lambda>q. (q, False)) qs"
        "\<forall>q\<in>set qs. \<exists>r\<in>set rs. find_mod_source E sf r = Some (Some q)"
        "wk_mutants w' = wk_mutants w" "wk_files w' = wk_files w"
        by (auto simp: push_pending_def)
      with Some o show ?thesis by (intro exI [of _ "q # qs"]) auto
    qed
  qed (use 2 in simp)
qed simp

definition listed :: "walk_env \<Rightarrow> package \<Rightarrow> source_file \<Rightarrow> bool" where
  "listed E pkg sf \<longleftrightarrow> allows_source_file_path (we_libs E) (we_options E) (sf_tree_relative_path sf)
     \<and> (\<exists>pending ms mods. load_and_walk_file E pkg pending = Some (Ok (Some (sf, ms, mods))))"

definition found_at :: "walk_env \<Rightarrow> package \<Rightarrow> source_file \<Rightarrow> mutant \<Rightarrow> bool" where
  "found_at E pkg sf m \<longleftrightarrow>
     (\<exists>pending ms mods. load_and_walk_file E pkg pending = Some (Ok (Some (sf, ms, mods))) \<and> m \<in> set ms)"

definition found_in :: "walk_env \<Rightarrow> package \<Rightarrow> walk_state \<Rightarrow> walk_state \<Rightarrow> bool" where
  "found_in E pkg w w' \<longleftrightarrow>
     (\<exists>ms sfs. wk_mutants w' = wk_mutants w @ ms \<and> wk_files w' = wk_files w @ sfs
        \<and> (\<forall>m\<in>set ms. \<exists>sf\<in>set sfs. found_at E pkg sf m) \<and> (\<forall>sf\<in>set sfs. listed E pkg sf))"

lemma found_in_refl: "wk_mutants w' = wk_mutants w \<Longrightarrow> wk_files w' = wk_files w \<Longrightarrow> found_in E pkg w w'"
  by (auto simp: found_in_def)

lemma found_in_trans:
  assumes "found_in E pkg u v" "found_in E pkg v w"
  shows "found_in E pkg u w"
proof -
  from assms(1) obtain ms sfs where v: "wk_mutants v = wk_mutants u @ ms" "wk_files v = wk_files u @ sfs"
    "\<forall>m\<in>set ms. \<exists>sf\<in>set sfs. found_at E pkg sf m" "\<forall>sf\<in>set sfs. listed E pkg sf"
    by (auto simp: found_in_def)
  from assms(2) obtain ms' sfs' where w: "wk_mutants w = wk_mutants v @ ms'" "wk_files w = wk_files v @ sfs'"
    "\<forall>m\<in>set ms'. \<exists>sf\<in>set sfs'. found_at E pkg sf m" "\<forall>sf\<in>set sfs'. listed E pkg sf"
    by (auto simp: found_in_def)
  show ?thesis
    unfolding found_in_def by (rule exI [of _ "ms @ ms'"], rule exI [of _ "sfs @ sfs'"]) (use v w in auto)
qed

lemma take_outcomes_Some:
  "take_outcomes E walked w = Some w' \<Longrightarrow>
   (\<And>o'. o' \<in> set walked \<Longrightarrow> \<exists>p\<in>set ps. load_and_walk_file E pkg p = Some (Ok o')) \<Longrightarrow>
     found_in E pkg w w'
     \<and> (\<forall>q top. (q, top) \<in> set (wk_pending w') \<longrightarrow> (q, top) \<in> set (wk_pending w) \<or> (\<exists>p\<in>set ps. mod_of E pkg p q))"
proof (induction E walked w rule: take_outcomes.induct)
  case (1 E w)
  then show ?case by (simp add: found_in_refl)
next
  case (2 E os w)
  then show ?case by simp
next
  case (3 E sf fms mods os w)
  let ?w = "w\<lparr>wk_files_done := wk_files_done w + 1, wk_mutants_found := wk_mutants_found w + length fms\<rparr>"
  from 3(3) obtain w1 where w1: "follow_mods E sf mods ?w = Some w1" by (cases "follow_mods E sf mods ?w") auto
  obtain p where p: "p \<in> set ps" "load_and_walk_file E pkg p = Some (Ok (Some (sf, fms, mods)))"
    using 3(4) [of "Some (sf, fms, mods)"] by auto
  from follow_mods_Some [OF w1] obtain qs where qs:
    "wk_pending w1 = wk_pending w @ map (\<lambda>q. (q, False)) qs" "wk_mutants w1 = wk_mutants w" "wk_files w1 = wk_files w"
    "\<forall>q\<in>set qs. \<exists>r\<in>set mods. find_mod_source E sf r = Some (Some q)"
    by auto
  then have mods: "\<forall>q\<in>set qs. mod_of E pkg p q" using p(2) by (auto simp: mod_of_def)
  have others: "\<And>o'. o' \<in> set os \<Longrightarrow> \<exists>p\<in>set ps. load_and_walk_file E pkg p = Some (Ok o')" using 3(4) by simp
  show ?case
  proof (cases "allows_source_file_path (we_libs E) (we_options E) (sf_tree_relative_path sf)")
    case False
    with 3(1) [of w1] 3(3) w1 others have r: "found_in E pkg w1 w'"
        "\<forall>q top. (q, top) \<in> set (wk_pending w') \<longrightarrow> (q, top) \<in> set (wk_pending w1) \<or> (\<exists>p\<in>set ps. mod_of E pkg p q)"
      by simp_all
    have "found_in E pkg w w'" using found_in_trans [OF found_in_refl r(1)] qs(2,3) by simp
    moreover have "(q, top) \<in> set (wk_pending w) \<or> (\<exists>p\<in>set ps. mod_of E pkg p q)"
      if "(q, top) \<in> set (wk_pending w')" for q top
      using r(2) that qs(1) mods p(1) by fastforce
    ultimately show ?thesis by blast
  next
    case True
    let ?w1 = "w1\<lparr>wk_mutants := wk_mutants w1 @ fms, wk_files := wk_files w1 @ [sf]\<rparr>"
    from True 3(2) [of w1] 3(3) w1 others have r: "found_in E pkg ?w1 w'"
        "\<forall>q top. (q, top) \<in> set (wk_pending w') \<longrightarrow> (q, top) \<in> set (wk_pending w1) \<or> (\<exists>p\<in>set ps. mod_of E pkg p q)"
      by simp_all
    have "found_at E pkg sf m" if "m \<in> set fms" for m using p(2) that unfolding found_at_def by blast
    moreover have "listed E pkg sf" using True p(2) unfolding listed_def by blast
    ultimately have "found_in E pkg w ?w1"
      unfolding found_in_def
      by (intro exI [of _ fms] exI [of _ "[sf]"]) (use qs(2,3) in auto)
    from found_in_trans [OF this r(1)] have "found_in E pkg w w'" .
    moreover have "(q, top) \<in> set (wk_pending w) \<or> (\<exists>p\<in>set ps. mod_of E pkg p q)"
      if "(q, top) \<in> set (wk_pending w')" for q top
      using r(2) that qs(1) mods p(1) by fastforce
    ultimately show ?thesis by blast
  qed
qed

lemma walk_files_Ok:
  assumes "walk_files E pkg c sched pending = Some (Ok walked)" "0 < c" "o' \<in> set walked"
  shows "\<exists>p\<in>set pending. load_and_walk_file E pkg p = Some (Ok o')"
proof -
  have "collect_results (map (load_and_walk_file E pkg) pending) = Some (Ok walked)"
    using assms(1) by (simp add: walk_files_ordered [OF assms(2)] split: if_splits)
  then have "map (load_and_walk_file E pkg) pending = map (\<lambda>a. Some (Ok a)) walked" by (rule collect_results_Ok)
  with assms(3) have "Some (Ok o') \<in> set (map (load_and_walk_file E pkg) pending)" by simp
  then show ?thesis by auto
qed

subsection \<open>The walk ends\<close>

text \<open>Modules do not lead back to the files they were found from: following one lowers a rank.\<close>

definition mods_descend :: "walk_env \<Rightarrow> (path \<Rightarrow> nat) \<Rightarrow> bool" where
  "mods_descend E rank \<longleftrightarrow> (\<forall>pkg p top q. mod_of E pkg (p, top) q \<longrightarrow> rank q < rank p)"

lemma walk_levels_ends:
  assumes "mods_descend E rank" "0 < mc_parallelism M"
  shows "(\<And>p top. (p, top) \<in> set (wk_pending w) \<Longrightarrow> rank p < k) \<Longrightarrow> k < fuel \<Longrightarrow>
    walk_levels E M pkg fuel level w \<noteq> OutOfFuel"
proof (induction k arbitrary: fuel level w)
  case 0
  have "wk_pending w = []" using 0(1) by (cases "wk_pending w") auto
  with 0 show ?case by (cases fuel) auto
next
  case (Suc k)
  then obtain fuel' where fuel: "fuel = Suc fuel'" "k < fuel'" by (cases fuel) auto
  show ?case
  proof (cases "\<exists>walked w1. walk_files E pkg (mc_parallelism M) (mc_sched M level) (wk_pending w) = Some (Ok walked)
      \<and> take_outcomes E walked (w\<lparr>wk_pending := []\<rparr>) = Some w1")
    case False
    then show ?thesis by (auto simp: fuel split: option.split sum.split)
  next
    case True
    then obtain walked w1 where r: "walk_files E pkg (mc_parallelism M) (mc_sched M level) (wk_pending w) = Some (Ok walked)"
      "take_outcomes E walked (w\<lparr>wk_pending := []\<rparr>) = Some w1" by blast
    have "rank q < k" if "(q, top) \<in> set (wk_pending w1)" for q top
    proof -
      from take_outcomes_Some [OF r(2) walk_files_Ok [OF r(1) assms(2)]] that
      obtain p where p: "p \<in> set (wk_pending w)" "mod_of E pkg p q" by auto
      with assms(1) Suc(2) [of "fst p" "snd p"] show ?thesis
        by (cases p) (fastforce simp: mods_descend_def)
    qed
    from Suc(1) [OF this fuel(2)] show ?thesis by (simp add: fuel(1) r)
  qed
qed

subsection \<open>What the walk relies on\<close>

text \<open>What \<open>syn\<close> builds is shaped as the visitor expects, every node with an identity of its own; files are
  read as UTF-8; reading a directory or the root is an error.\<close>

definition parser_ok :: "parser \<Rightarrow> bool" where
  "parser_ok P \<longleftrightarrow> (\<forall>c R. ps_source P c = Some R \<longrightarrow> shaped R \<and> unique_ids R)"

definition reads_ok :: "walk_env \<Rightarrow> bool" where
  "reads_ok E \<longleftrightarrow> (\<forall>p s. we_read E p = Some s \<longrightarrow> utf8 s)
     \<and> (\<forall>rel. path_parent rel = None \<longrightarrow> we_read E (join_path (we_workspace_dir E) rel) = None)"

lemma load_and_walk_file_cases:
  assumes "parser_ok (we_parser E)" "reads_ok E"
  shows "load_and_walk_file E pkg p \<noteq> None"
    and "load_and_walk_file E pkg p = Some (Ok (Some (sf, ms, mods))) \<Longrightarrow>
      source_ok sf \<and> path_parent (sf_tree_relative_path sf) \<noteq> None \<and> sf_package sf = pkg \<and> [] \<notin> set mods
      \<and> (\<forall>m\<in>set ms. mu_source_file m = sf \<and> mutant_ok m)"
proof -
  obtain rel top where p: "p = (rel, top)" by fastforce
  have rd: "utf8 s" if "read_source E q = Ok s" for q s
    using that assms(2) by (auto simp: read_source_def reads_ok_def split: option.splits)
  have walk: "walk_file (we_libs E) (we_options E) (we_parser E) sf \<noteq> None
      \<and> (\<forall>ms mods. walk_file (we_libs E) (we_options E) (we_parser E) sf = Some (Ok (ms, mods)) \<longrightarrow>
            [] \<notin> set mods \<and> (\<forall>m\<in>set ms. mu_source_file m = sf \<and> mutant_ok m))"
    if "source_ok sf" for sf
  proof (cases "parsed_error_exprs (we_parser E) (opt_error_values (we_options E))")
    case (Inr errs)
    show ?thesis
    proof (cases "ps_source (we_parser E) (sf_code sf)")
      case (Some R)
      then have R: "shaped R" "unique_ids R" using assms(1) by (auto simp: parser_ok_def)
      from walk_file_advances [OF that Inr Some R, of "we_libs E"]
        walk_file_mutants [OF that Inr Some R, of "we_libs E"]
      show ?thesis by (auto simp: list_all_iff collectable_def walk_ctx_def)
    qed (simp add: walk_file_def parse_file_def Inr)
  qed (simp add: walk_file_def)
  have ok: "source_ok sf" if "load (read_source E) (we_workspace_dir E) rel pkg top = Ok (Some sf)" for sf
    using load_source_ok [OF that rd] by simp
  have rel: "path_parent (sf_tree_relative_path sf) \<noteq> None \<and> sf_package sf = pkg"
    if "load (read_source E) (we_workspace_dir E) rel pkg top = Ok (Some sf)" for sf
  proof -
    have "sf_tree_relative_path sf = rel" "sf_package sf = pkg"
      "\<exists>body. read_source E (join_path (we_workspace_dir E) rel) = Ok body"
      using that by (auto simp: load_def rbind_Ok_iff Let_def split: if_splits)
    then show ?thesis using assms(2) by (auto simp: reads_ok_def read_source_def split: option.splits)
  qed
  show "load_and_walk_file E pkg p \<noteq> None"
    using walk ok by (auto simp: p load_and_walk_file_def split: sum.split option.split)
  show "source_ok sf \<and> path_parent (sf_tree_relative_path sf) \<noteq> None \<and> sf_package sf = pkg \<and> [] \<notin> set mods
      \<and> (\<forall>m\<in>set ms. mu_source_file m = sf \<and> mutant_ok m)"
    if r: "load_and_walk_file E pkg p = Some (Ok (Some (sf, ms, mods)))"
  proof -
    from r have "load (read_source E) (we_workspace_dir E) rel pkg top = Ok (Some sf)"
      "walk_file (we_libs E) (we_options E) (we_parser E) sf = Some (Ok (ms, mods))"
      by (auto simp: p load_and_walk_file_def rbind_Ok_iff split: sum.splits option.splits)
    with walk ok rel show ?thesis by blast
  qed
qed

lemma find_mod_source_total:
  assumes "path_parent (sf_tree_relative_path sf) \<noteq> None" "r \<noteq> []"
  shows "find_mod_source E sf r \<noteq> None"
  using assms by (auto simp: find_mod_source_def pop_def search_dir_def Let_def)

lemma follow_mods_total:
  "path_parent (sf_tree_relative_path sf) \<noteq> None \<Longrightarrow> [] \<notin> set rs \<Longrightarrow> follow_mods E sf rs w \<noteq> None"
proof (induction rs arbitrary: w)
  case (Cons r rs)
  then obtain o' where "find_mod_source E sf r = Some o'" using find_mod_source_total [of sf r E] by auto
  with Cons show ?case by (cases o') auto
qed simp

lemma take_outcomes_total:
  assumes "parser_ok (we_parser E)" "reads_ok E"
  shows "(\<And>o'. o' \<in> set walked \<Longrightarrow> \<exists>p. load_and_walk_file E pkg p = Some (Ok o')) \<Longrightarrow> take_outcomes E walked w \<noteq> None"
proof (induction walked arbitrary: w)
  case (Cons o' os)
  show ?case
  proof (cases o')
    case None
    with Cons show ?thesis by simp
  next
    case (Some r)
    obtain sf fms mods where r: "r = (sf, fms, mods)" by (cases r)
    obtain p where p: "load_and_walk_file E pkg p = Some (Ok (Some (sf, fms, mods)))"
      using Cons(2) [of o'] Some r by auto
    from load_and_walk_file_cases(2) [OF assms p] follow_mods_total [of sf mods E]
    obtain w1 where "follow_mods E sf mods
        (w\<lparr>wk_files_done := wk_files_done w + 1, wk_mutants_found := wk_mutants_found w + length fms\<rparr>) = Some w1"
      by blast
    with Cons Some r show ?thesis by simp
  qed
qed simp

lemma walk_levels_no_panic:
  assumes "parser_ok (we_parser E)" "reads_ok E" "0 < mc_parallelism M"
  shows "walk_levels E M pkg fuel level w \<noteq> Panicked"
proof (induction fuel arbitrary: level w)
  case (Suc fuel)
  let ?r = "walk_files E pkg (mc_parallelism M) (mc_sched M level) (wk_pending w)"
  have "None \<notin> set (map (load_and_walk_file E pkg) (wk_pending w))"
    using load_and_walk_file_cases(1) [OF assms(1,2)] by (metis ex_map_conv)
  with collect_results_total [OF this] have "?r \<noteq> None"
    by (simp only: walk_files_ordered [OF assms(3)] if_False not_False_eq_True)
  then obtain r where r: "?r = Some r" by blast
  show ?case
  proof (cases r)
    case (Inr walked)
    then obtain w1 where "take_outcomes E walked (w\<lparr>wk_pending := []\<rparr>) = Some w1"
      using take_outcomes_total [OF assms(1,2)] walk_files_Ok [OF r [unfolded Inr] assms(3)] by blast
    with r Inr Suc show ?thesis by simp
  qed (simp add: r)
qed simp

lemma walk_levels_found_in:
  assumes "0 < mc_parallelism M"
  shows "walk_levels E M pkg fuel level w = Returned (Ok w') \<Longrightarrow> found_in E pkg w w'"
proof (induction fuel arbitrary: level w)
  case (Suc fuel)
  show ?case
  proof (cases "wk_pending w = []")
    case True
    with Suc(2) show ?thesis by (simp add: found_in_refl)
  next
    case False
    with Suc(2) obtain walked w1 where r:
      "walk_files E pkg (mc_parallelism M) (mc_sched M level) (wk_pending w) = Some (Ok walked)"
      "take_outcomes E walked (w\<lparr>wk_pending := []\<rparr>) = Some w1"
      "walk_levels E M pkg fuel (level + 1) w1 = Returned (Ok w')"
      by (auto split: if_splits option.splits sum.splits)
    have "found_in E pkg (w\<lparr>wk_pending := []\<rparr>) w1"
      using take_outcomes_Some [OF r(2) walk_files_Ok [OF r(1) assms]] by simp
    from found_in_trans [OF found_in_refl this] have "found_in E pkg w w1" by simp
    with Suc(1) [OF r(3)] show ?thesis by (rule found_in_trans [rotated])
  qed
qed simp

lemma walk_tree_ends:
  assumes "parser_ok (we_parser E)" "reads_ok E" "\<And>pkg. 0 < mc_parallelism (M pkg)" "mods_descend E rank"
  shows "\<exists>k. \<forall>fuel\<ge>k. (\<exists>r. walk_tree E M fuel pkgs = Returned r) \<or> walk_tree E M fuel pkgs = Interrupted"
proof -
  define top where "top = Max (insert 0 (rank ` (\<Union>pkg\<in>set pkgs. set (pkg_top_sources pkg))))"
  have one: "walk_package E (M pkg) pkg fuel w \<noteq> OutOfFuel \<and> walk_package E (M pkg) pkg fuel w \<noteq> Panicked"
    if "pkg \<in> set pkgs" "top + 1 < fuel" for pkg fuel w
  proof -
    have "rank p < top + 1" if "(p, b) \<in> set (wk_pending (start_package pkg w))" for p b
    proof -
      have "p \<in> set (pkg_top_sources pkg)" using that by (auto simp: start_package_def)
      then have "rank p \<le> top" unfolding top_def using \<open>pkg \<in> set pkgs\<close> by (intro Max_ge) auto
      then show ?thesis by simp
    qed
    from walk_levels_ends [OF assms(4,3) this that(2)] walk_levels_no_panic [OF assms(1-3)]
    show ?thesis by (simp add: walk_package_def)
  qed
  have "walk_packages E M fuel qs w \<noteq> OutOfFuel \<and> walk_packages E M fuel qs w \<noteq> Panicked"
    if "set qs \<subseteq> set pkgs" "top + 1 < fuel" for fuel qs w
    using that(1)
  proof (induction qs arbitrary: w)
    case (Cons pkg qs)
    with one [OF _ that(2), of pkg w] show ?case
      by (cases "walk_package E (M pkg) pkg fuel w") (auto split: sum.split)
  qed simp
  from this [OF subset_refl] show ?thesis
    by (intro exI [of _ "top + 2"]) (auto simp: walk_tree_def split: run.split sum.split)
qed

lemma walk_tree_well_formed:
  assumes "parser_ok (we_parser E)" "reads_ok E" "\<And>pkg. 0 < mc_parallelism (M pkg)"
    and "walk_tree E M fuel pkgs = Returned (Ok d)"
  shows "(\<forall>m\<in>set (di_mutants d). mutant_ok m \<and> mu_source_file m \<in> set (di_files d))
    \<and> (\<forall>sf\<in>set (di_files d). sf_package sf \<in> set pkgs \<and> source_ok sf
         \<and> allows_source_file_path (we_libs E) (we_options E) (sf_tree_relative_path sf))"
proof -
  define good where "good w \<longleftrightarrow> (\<forall>m\<in>set (wk_mutants w). mutant_ok m \<and> mu_source_file m \<in> set (wk_files w))
    \<and> (\<forall>sf\<in>set (wk_files w). sf_package sf \<in> set pkgs \<and> source_ok sf
         \<and> allows_source_file_path (we_libs E) (we_options E) (sf_tree_relative_path sf))" for w :: walk_state
  have step: "good w'" if "walk_package E (M pkg) pkg fuel w = Returned (Ok w')" "good w" "pkg \<in> set pkgs"
    for pkg w w'
  proof -
    have "found_in E pkg (start_package pkg w) w'"
      using walk_levels_found_in [OF assms(3)] that(1) by (simp add: walk_package_def)
    then obtain ms sfs where f: "wk_mutants w' = wk_mutants w @ ms" "wk_files w' = wk_files w @ sfs"
      "\<forall>m\<in>set ms. \<exists>sf\<in>set sfs. found_at E pkg sf m" "\<forall>sf\<in>set sfs. listed E pkg sf"
      by (auto simp: found_in_def start_package_def)
    have at: "mutant_ok m \<and> mu_source_file m = sf" if "found_at E pkg sf m" for sf m
      using that load_and_walk_file_cases(2) [OF assms(1,2)] unfolding found_at_def by blast
    have li: "source_ok sf \<and> sf_package sf = pkg
        \<and> allows_source_file_path (we_libs E) (we_options E) (sf_tree_relative_path sf)" if "listed E pkg sf" for sf
      using that load_and_walk_file_cases(2) [OF assms(1,2)] unfolding listed_def by blast
    have "\<forall>m\<in>set ms. mutant_ok m \<and> mu_source_file m \<in> set sfs" using f(3) at by blast
    moreover have "\<forall>sf\<in>set sfs. sf_package sf \<in> set pkgs \<and> source_ok sf
         \<and> allows_source_file_path (we_libs E) (we_options E) (sf_tree_relative_path sf)"
      using f(4) li that(3) by simp
    ultimately show ?thesis
      using that(2) unfolding good_def f(1,2) set_append ball_Un by blast
  qed
  have all: "good w'" if "walk_packages E M fuel qs w = Returned (Ok w')" "good w" "set qs \<subseteq> set pkgs" for qs w w'
    using that
  proof (induction qs arbitrary: w)
    case (Cons pkg qs)
    from Cons(2) obtain w1 where w1: "walk_package E (M pkg) pkg fuel w = Returned (Ok w1)"
      "walk_packages E M fuel qs w1 = Returned (Ok w')"
      by (auto split: run.splits sum.splits)
    have "pkg \<in> set pkgs" "set qs \<subseteq> set pkgs" using Cons(4) by auto
    then show ?case using Cons(1) [OF w1(2)] step [OF w1(1) Cons(3)] by blast
  qed simp
  obtain w where w: "walk_packages E M fuel pkgs new_walk = Returned (Ok w)"
    "d = \<lparr>di_mutants = wk_mutants w, di_files = wk_files w\<rparr>"
  proof (cases "walk_packages E M fuel pkgs new_walk")
    case (Returned r)
    with assms(4) that show ?thesis by (cases r) (simp_all add: walk_tree_def)
  qed (use assms(4) in \<open>simp_all add: walk_tree_def\<close>)
  have "good new_walk" by (simp add: good_def new_walk_def)
  from all [OF w(1) this subset_refl] show ?thesis unfolding w(2) good_def by simp
qed

text \<open>C8: Walking a source tree ends without a panic, whatever the files hold: if following \<open>mod\<close> statements
  never leads back to a file on the way, some number of levels is enough for every package, and the walk
  returns the mutants and files found, returns the error of a file that cannot be read or parsed or has a
  bad attribute, or stops because it was interrupted.\<close>

theorem walk_tree_returns:
  assumes "parser_ok (we_parser E)" "reads_ok E" "\<And>pkg. 0 < mc_parallelism (M pkg)" "mods_descend E rank"
  shows "\<exists>k. \<forall>fuel\<ge>k. (\<exists>r. walk_tree E M fuel pkgs = Returned r) \<or> walk_tree E M fuel pkgs = Interrupted"
  using walk_tree_ends [OF assms] .

text \<open>C29: Every mutant that a walk of the tree returns is well formed and lies in one of the files it lists,
  and every file it lists belongs to a package that was asked for, stays inside the tree and passes the
  file filters of the options: files that do not pass are walked for the modules they declare, but none of
  their mutants is kept.\<close>

theorem walk_tree_finds_in_listed_files:
  assumes "parser_ok (we_parser E)" "reads_ok E" "\<And>pkg. 0 < mc_parallelism (M pkg)"
    and "walk_tree E M fuel pkgs = Returned (Ok d)"
  shows "(\<forall>m\<in>set (di_mutants d). mutant_ok m \<and> mu_source_file m \<in> set (di_files d))
    \<and> (\<forall>sf\<in>set (di_files d). sf_package sf \<in> set pkgs \<and> source_ok sf
         \<and> allows_source_file_path (we_libs E) (we_options E) (sf_tree_relative_path sf))"
  using walk_tree_well_formed [OF assms] .

subsection \<open>An example\<close>

definition const_env :: walk_env where
  "const_env =
     \<lparr>we_read = (\<lambda>p. if p = ''/w/src/lib.rs'' then Some const_code else None),
      we_is_file = (\<lambda>p. p = ''/w/src/lib.rs''), we_parser = const_parser, we_libs = example_libs,
      we_options = example_options, we_workspace_dir = ''/w''\<rparr>"

definition one_thread :: machine where
  "one_thread = \<lparr>mc_parallelism = 1, mc_sched = (\<lambda>_ _. 0), mc_interrupted = (\<lambda>_. False)\<rparr>"

definition two_threads :: machine where
  "two_threads = \<lparr>mc_parallelism = 2, mc_sched = (\<lambda>_ n. n + 1), mc_interrupted = (\<lambda>_. False)\<rparr>"

lemma const_env_ok: "parser_ok (we_parser const_env)" "reads_ok const_env" "0 < mc_parallelism one_thread"
proof -
  show "parser_ok (we_parser const_env)"
    by (auto simp: parser_ok_def const_env_def const_parser_def const_file_parts split: if_splits)
  have "path_parent rel \<noteq> None" if "join_path ''/w'' rel = ''/w/src/lib.rs''" for rel
  proof -
    from that have "rel = ''/w/src/lib.rs'' \<or> rel = ''src/lib.rs''" by (auto simp: join_path_def split: if_splits)
    then show ?thesis by (auto simp: path_parent_def components_def is_absolute_def starts_with_def)
  qed
  moreover have "utf8 const_code" by (simp add: const_code_def utf8_def lead_len_def)
  ultimately show "reads_ok const_env" by (auto simp: reads_ok_def const_env_def)
qed (simp add: one_thread_def)

lemma const_walk_any:
  "walk_file example_libs example_options const_parser sf = Some (Ok (ms, mods)) \<Longrightarrow> mods = []"
  by (auto simp: walk_file_def const_parsed parse_file_def const_file_def const_item_def visit_node_def visit_file_def
      attrs_excluded_def in_exclude_re_scope_def push_exclude_re_def attrs_exclude_re_patterns_def visit_const_def
      in_const_eval_scope_def visit_expr_lit_def new_visitor_def collect_mutant_def excluded_by_attr_re_def
      allows_mutant_def walk_ctx_def example_options_def push_mutant_def visitor_result_def new_mutant_def
      const_mutant_def const_parser_def split: option.splits if_splits)

lemma const_env_descends: "mods_descend const_env (\<lambda>_. 0)"
proof -
  have "mods = []" if "load_and_walk_file const_env pkg p = Some (Ok (Some (sf, ms, mods)))" for pkg p sf ms mods
    using that const_walk_any
    by (cases p) (auto simp: load_and_walk_file_def const_env_def rbind_Ok_iff split: sum.splits option.splits)
  then show ?thesis unfolding mods_descend_def mod_of_def by fastforce
qed

lemma const_load: "load_and_walk_file const_env example_package (''src/lib.rs'', True)
    = Some (Ok (Some (const_source, [const_mutant], [])))"
proof -
  have "load (read_source const_env) ''/w'' ''src/lib.rs'' example_package True = Ok (Some const_source)"
    by (simp add: load_def read_source_def const_env_def const_source_def example_source_def const_code_def
        join_path_def is_absolute_def starts_with_def ascent_def components_def to_slash_path_def Let_def)
  with const_walk show ?thesis by (simp add: load_and_walk_file_def const_env_def)
qed

lemma walk_files_in_order_witness:
  "walk_files const_env example_package 2 (\<lambda>n. n + 1) [(''src/lib.rs'', True), (''src/lib.rs'', True)]
    = Some (Ok [Some (const_source, [const_mutant], []), Some (const_source, [const_mutant], [])])"
  using walk_files_in_order [of 2 const_env example_package "\<lambda>n. n + 1" "[(''src/lib.rs'', True), (''src/lib.rs'', True)]"]
  by (simp add: const_load)

lemma walk_tree_returns_witness:
  "\<exists>k. \<forall>fuel\<ge>k. (\<exists>r. walk_tree const_env (\<lambda>_. one_thread) fuel [example_package] = Returned r)
     \<or> walk_tree const_env (\<lambda>_. one_thread) fuel [example_package] = Interrupted"
  by (rule walk_tree_returns [OF const_env_ok const_env_descends])

lemma const_walk_tree:
  "walk_tree const_env (\<lambda>_. one_thread) 2 [example_package]
    = Returned (Ok \<lparr>di_mutants = [const_mutant], di_files = [const_source]\<rparr>)"
proof -
  have "allows_source_file_path example_libs example_options p" for p
    by (simp add: allows_source_file_path_def example_options_def)
  moreover have "we_libs const_env = example_libs" "we_options const_env = example_options"
    "pkg_top_sources example_package = [''src/lib.rs'']"
    "mc_parallelism one_thread = 1" "\<And>l. \<not> mc_interrupted one_thread l"
    by (simp_all add: const_env_def example_package_def one_thread_def)
  ultimately show ?thesis
    by (simp add: walk_tree_def walk_package_def start_package_def new_walk_def numeral_2_eq_2
        walk_files_ordered const_load del: One_nat_def)
qed

lemma walk_tree_finds_in_listed_files_witness:
  "mutant_ok const_mutant \<and> mu_source_file const_mutant = const_source
     \<and> allows_source_file_path example_libs example_options (sf_tree_relative_path const_source)"
  using walk_tree_finds_in_listed_files [OF const_env_ok const_walk_tree]
  by (simp add: const_env_def)

subsection \<open>Modules that lead back\<close>

text \<open>A module that the compiler never sees, as in \<open>#[cfg(any())] #[path = "lib.rs"] mod again;\<close>, can name the
  file it stands in.  The walk does not evaluate conditions and does not remember which files it has
  visited, so it never ends.\<close>

definition cycle_attrs :: "attribute list" where
  "cycle_attrs =
     [\<lparr>at_path = [''cfg''], at_span = quad 1 1 1 1, at_args = NoLiteral ''none'',
       at_nested = [\<lparr>nm_path = [''any''], nm_ident = Some ''any'', nm_span = quad 1 1 1 1,
         nm_parens = Ok (NoLiteral ''none''), nm_trailing = False\<rparr>], at_nested_ok = True, at_path_value = None\<rparr>,
      \<lparr>at_path = [''path''], at_span = quad 1 1 1 1, at_args = NoLiteral ''none'',
       at_nested = [], at_nested_ok = False, at_path_value = Some ''lib.rs''\<rparr>]"

definition cycle_file :: node where
  "cycle_file = Node 1 KFile [] (quad 1 1 1 1) [] [Node 2 (KItemMod ''again'' False) cycle_attrs (quad 1 1 1 1) [] []]"

definition cycle_env :: walk_env where
  "cycle_env =
     \<lparr>we_read = (\<lambda>p. if p = ''/w/src/lib.rs'' then Some ''mod again;'' else None),
      we_is_file = (\<lambda>p. p = ''/w/src/lib.rs''),
      we_parser = const_parser\<lparr>ps_source := \<lambda>_. Some cycle_file\<rparr>, we_libs = example_libs,
      we_options = example_options, we_workspace_dir = ''/w''\<rparr>"

definition cycle_mod :: mod_namespace where
  "cycle_mod = \<lparr>mn_name = ''again'', mn_path_attribute = Some ''lib.rs'', mn_source_location = quad 1 1 1 1\<rparr>"

definition cycle_source :: "bool \<Rightarrow> source_file" where
  "cycle_source is_top =
     \<lparr>sf_package = example_package, sf_tree_relative_path = ''src/lib.rs'', sf_code = ''mod again;'', sf_is_top = is_top,
      sf_line_index = line_index_new ''mod again;'', sf_slash_path = ''src/lib.rs''\<rparr>"

lemma cycle_load: "load_and_walk_file cycle_env example_package (''src/lib.rs'', is_top)
    = Some (Ok (Some (cycle_source is_top, [], [[cycle_mod]])))"
proof -
  have "load (read_source cycle_env) ''/w'' ''src/lib.rs'' example_package is_top = Ok (Some (cycle_source is_top))"
    by (simp add: load_def read_source_def cycle_env_def cycle_source_def
        join_path_def is_absolute_def starts_with_def ascent_def components_def to_slash_path_def Let_def)
  moreover have "\<not> attrs_excluded cycle_attrs" "attrs_exclude_re_patterns cycle_attrs = Ok []"
    "find_path_attribute cycle_attrs = Ok (Some ''lib.rs'')"
    by (simp_all add: attrs_excluded_def cycle_attrs_def attr_is_cfg_test_def attr_is_test_def attr_is_mutants_skip_def
        path_is_def path_ends_with_def nested_def last_opt_def attrs_exclude_re_patterns_def starts_with_def)
  moreover have "\<not> attrs_excluded []" by (simp add: attrs_excluded_def)
  ultimately show ?thesis
    by (simp add: load_and_walk_file_def cycle_env_def walk_file_def parse_file_def example_options_def cycle_file_def
        visit_node_def visit_file_def in_exclude_re_scope_def push_exclude_re_def attrs_exclude_re_patterns_def
        visit_item_mod_def in_mod_def in_namespace_def new_visitor_def pop_def visitor_result_def cycle_mod_def)
qed

lemma cycle_found: "find_mod_source cycle_env (cycle_source is_top) [cycle_mod] = Some (Some ''src/lib.rs'')"
proof -
  have "search_dir (cycle_source is_top) cycle_mod [] = Some ''src''"
    by (simp add: search_dir_def cycle_mod_def cycle_source_def path_parent_def components_def is_absolute_def
        starts_with_def path_of_def)
  then show ?thesis
    by (simp add: find_mod_source_def pop_def mod_child_candidates_def cycle_mod_def cycle_env_def join_path_def
        is_absolute_def starts_with_def)
qed

lemma cycle_level:
  assumes "wk_pending w = [(''src/lib.rs'', is_top)]"
  shows "walk_levels cycle_env one_thread example_package fuel level w = OutOfFuel"
  using assms
proof (induction fuel arbitrary: level w is_top)
  case (Suc fuel)
  let ?w = "w\<lparr>wk_pending := []\<rparr>\<lparr>wk_files_done := wk_files_done w + 1\<rparr>"
  have "walk_files cycle_env example_package 1 (mc_sched one_thread level) [(''src/lib.rs'', is_top)]
      = Some (Ok [Some (cycle_source is_top, [], [[cycle_mod]])])"
    by (simp add: walk_files_ordered cycle_load del: One_nat_def)
  moreover obtain w1 where "take_outcomes cycle_env [Some (cycle_source is_top, [], [[cycle_mod]])] (w\<lparr>wk_pending := []\<rparr>)
      = Some w1" "wk_pending w1 = [(''src/lib.rs'', False)]"
    by (cases "allows_source_file_path (we_libs cycle_env) (we_options cycle_env)
        (sf_tree_relative_path (cycle_source is_top))") (auto simp: cycle_found push_pending_def)
  moreover have "mc_parallelism one_thread = 1" "\<not> mc_interrupted one_thread level" by (simp_all add: one_thread_def)
  ultimately show ?case using Suc by simp
qed simp

lemma mod_cycle_never_ends:
  "walk_tree cycle_env (\<lambda>_. one_thread) fuel [example_package] = OutOfFuel"
proof -
  have "wk_pending (start_package example_package new_walk) = [(''src/lib.rs'', True)]"
    by (simp add: start_package_def example_package_def)
  from cycle_level [OF this] show ?thesis by (simp add: walk_tree_def walk_package_def)
qed

end
