(* ===== verification/Outputs.thy ===== *)
theory Outputs
  imports Options
begin

text \<open>
  Output (\<open>src/src/output.rs\<close>): the \<open>mutants.out\<close> directory of a run with its logs, diffs, lists
  and \<open>outcomes.json\<close>, the names of log files, the rotation of an earlier directory, and the names
  that \<open>--iterate\<close> reads back; and the overwriting of files in a build directory
  (\<open>src/src/build_dir.rs\<close>).  Lists are the text of their files.  The JSON in a file is represented by
  the value that was serialised.  Whether a system call succeeds is given to each operation.
\<close>

subsection \<open>Files of a build directory\<close>

datatype fnode = Regular string | Symlink path | Directory | OtherNode

text \<open>The files below the root, by the components of their path.\<close>

type_synonym files = "string list \<Rightarrow> fnode option"

datatype fs_error =
    FsSymlink path | FsNotRegular path | FsWrite path | FsNotFound path | FsStat path

text \<open>
  What the system does with one overwrite: \<open>StatFails\<close> if the metadata cannot be read for another
  reason than absence, \<open>WriteFails left\<close> if the write fails and leaves \<open>left\<close> in the file.
\<close>

datatype write_result = WriteOk | WriteFails string | StatFails

definition overwrite_file ::
  "write_result \<Rightarrow> path \<Rightarrow> path \<Rightarrow> string \<Rightarrow> files \<Rightarrow> files \<times> (fs_error, unit) rresult" where
  "overwrite_file w root rel code fs =
     (let full = join_path root rel; key = components full in
      case w of
        StatFails \<Rightarrow> (fs, Err (FsStat full))
      | _ \<Rightarrow>
          (case fs key of
             Some (Symlink _) \<Rightarrow> (fs, Err (FsSymlink full))
           | Some Directory \<Rightarrow> (fs, Err (FsNotRegular full))
           | Some OtherNode \<Rightarrow> (fs, Err (FsNotRegular full))
           | Some (Regular _) \<Rightarrow>
               (case w of
                  WriteFails left \<Rightarrow> (fs(key \<mapsto> Regular left), Err (FsWrite full))
                | _ \<Rightarrow> (fs(key \<mapsto> Regular code), Ok ()))
           | None \<Rightarrow> (fs, Err (FsNotFound full))))"

subsection \<open>The output directory\<close>

definition OUTDIR_NAME :: string where "OUTDIR_NAME = ''mutants.out''"
definition CAUGHT_TXT :: string where "CAUGHT_TXT = ''caught.txt''"
definition UNVIABLE_TXT :: string where "UNVIABLE_TXT = ''unviable.txt''"
definition PREVIOUSLY_CAUGHT_TXT :: string where "PREVIOUSLY_CAUGHT_TXT = ''previously_caught.txt''"

text \<open>Half a second, in nanoseconds.\<close>

definition OUTCOMES_WRITE_INTERVAL :: duration where "OUTCOMES_WRITE_INTERVAL = 500 * 10 ^ 6"

record output_dir =
  od_path :: path
  od_logs :: "path \<Rightarrow> string option"
  od_diffs :: "path \<Rightarrow> string option"
  od_missed :: string
  od_caught :: string
  od_timeout :: string
  od_unviable :: string
  od_equivalent :: string
  od_uncovered :: string
  od_previously_caught :: "string option"
  od_outcomes_json :: "lab_outcome option"
  od_mutants_json :: "mutant list option"
  od_lab_outcome :: lab_outcome
  od_last_outcomes_write :: "nat option"
  od_used_log_names :: "string \<Rightarrow> nat option"

definition empty_output_dir :: "path \<Rightarrow> output_dir" where
  "empty_output_dir p =
     \<lparr>od_path = p, od_logs = (\<lambda>_. None), od_diffs = (\<lambda>_. None), od_missed = [], od_caught = [],
      od_timeout = [], od_unviable = [], od_equivalent = [], od_uncovered = [],
      od_previously_caught = None, od_outcomes_json = None, od_mutants_json = None,
      od_lab_outcome = new_lab_outcome, od_last_outcomes_write = None,
      od_used_log_names = (\<lambda>_. None)\<rparr>"

text \<open>The directory that holds \<open>mutants.out\<close> and \<open>mutants.out.old\<close>.\<close>

record out_parent =
  op_exists :: bool
  op_current :: "output_dir option"
  op_rotated :: "output_dir option"

datatype out_step =
    CreateParent | LockOld | RemoveRotated | RenameOld | CreateOut | LockNew | CreateLogDir
  | CreateDiffDir | OpenLists

text \<open>A step that fails leaves what the steps before it did.\<close>

definition output_dir_new ::
  "(out_step \<Rightarrow> bool) \<Rightarrow> path \<Rightarrow> out_parent \<Rightarrow> out_parent \<times> (out_step, output_dir) rresult" where
  "output_dir_new ok in_dir op =
     (if \<not> op_exists op \<and> \<not> ok CreateParent then (op, Err CreateParent)
      else
        let op1 = op\<lparr>op_exists := True\<rparr>; had = op_current op1 \<noteq> None in
        if had \<and> \<not> ok LockOld then (op1, Err LockOld)
        else if had \<and> op_rotated op1 \<noteq> None \<and> \<not> ok RemoveRotated then (op1, Err RemoveRotated)
        else
          let op2 = (if had then op1\<lparr>op_rotated := None\<rparr> else op1) in
          if had \<and> \<not> ok RenameOld then (op2, Err RenameOld)
          else
            let op3 = (if had then op2\<lparr>op_rotated := op_current op2, op_current := None\<rparr> else op2) in
            if \<not> ok CreateOut then (op3, Err CreateOut)
            else
              let out = empty_output_dir (join_path in_dir OUTDIR_NAME);
                  op4 = op3\<lparr>op_current := Some out\<rparr> in
              if \<not> ok LockNew then (op4, Err LockNew)
              else if \<not> ok CreateLogDir then (op4, Err CreateLogDir)
              else if \<not> ok CreateDiffDir then (op4, Err CreateDiffDir)
              else if \<not> ok OpenLists then (op4, Err OpenLists)
              else (op4, Ok out))"

subsection \<open>Starting a scenario\<close>

definition scenario_base :: "scenario \<Rightarrow> string" where
  "scenario_base s = (case s of Baseline \<Rightarrow> ''baseline'' | MutantScenario m \<Rightarrow> log_file_name_base m)"

text \<open>The match on the entry of the map: the name and the updated map.\<close>

definition allocate_name :: "string \<Rightarrow> (string \<Rightarrow> nat option) \<Rightarrow> string \<times> (string \<Rightarrow> nat option)" where
  "allocate_name nm used =
     (case used nm of
        Some index \<Rightarrow> (nm @ ''_'' @ pad3 (index + 1), used(nm \<mapsto> index + 1))
      | None \<Rightarrow> (nm, used(nm \<mapsto> 0)))"

record scenario_output =
  sc_output_dir :: path
  sc_log_path :: path
  sc_diff_path :: "path option"

text \<open>\<open>OutPanic\<close> is an \<open>expect\<close> that fails.\<close>

datatype out_error = LogExists path | OutIo | OutPanic

definition append_log :: "path \<Rightarrow> string \<Rightarrow> output_dir \<Rightarrow> output_dir" where
  "append_log p t od = od\<lparr>od_logs := (od_logs od)(p := map_option (\<lambda>x. x @ t) (od_logs od p))\<rparr>"

definition message_text :: "string \<Rightarrow> string" where
  "message_text msg = [newline] @ ''*** '' @ msg @ [newline]"

definition message :: "bool \<Rightarrow> scenario_output \<Rightarrow> string \<Rightarrow> output_dir \<Rightarrow> output_dir \<times> (out_error, unit) rresult" where
  "message ok sc msg od =
     (if ok then (append_log (sc_log_path sc) (message_text msg) od, Ok ()) else (od, Err OutIo))"

definition scenario_output_new ::
  "bool \<Rightarrow> scenario \<Rightarrow> string \<Rightarrow> string \<Rightarrow> output_dir \<Rightarrow> output_dir \<times> (out_error, scenario_output) rresult" where
  "scenario_output_new ok s nm basename od =
     (let log = ''log/'' @ basename @ ''.log'' in
      if od_logs od log \<noteq> None then (od, Err (LogExists log))
      else if \<not> ok then (od, Err OutIo)
      else
        let sc = \<lparr>sc_output_dir = od_path od, sc_log_path = log,
                  sc_diff_path = (if is_mutant s then Some (''diff/'' @ basename @ ''.diff'') else None)\<rparr>;
            od1 = od\<lparr>od_logs := (od_logs od)(log \<mapsto> [])\<rparr>
        in (append_log log (message_text nm) od1, Ok sc))"

text \<open>\<open>nm\<close> is the name of the scenario that is written at the head of its log.\<close>

definition start_scenario ::
  "bool \<Rightarrow> scenario \<Rightarrow> string \<Rightarrow> output_dir \<Rightarrow> output_dir \<times> (out_error, scenario_output) rresult" where
  "start_scenario ok s nm od =
     (let (basename, used) = allocate_name (scenario_base s) (od_used_log_names od)
      in scenario_output_new ok s nm basename (od\<lparr>od_used_log_names := used\<rparr>))"

definition write_diff ::
  "bool \<Rightarrow> bool \<Rightarrow> scenario_output \<Rightarrow> string \<Rightarrow> output_dir \<Rightarrow> output_dir \<times> (out_error, unit) rresult" where
  "write_diff ok_message ok_write sc d od =
     (case message ok_message sc (''mutation diff:'' @ [newline] @ d) od of
        (od1, Err e) \<Rightarrow> (od1, Err e)
      | (od1, Ok _) \<Rightarrow>
          (case sc_diff_path sc of
             None \<Rightarrow> (od1, Err OutPanic)
           | Some p \<Rightarrow>
               if ok_write then (od1\<lparr>od_diffs := (od_diffs od1)(p \<mapsto> d)\<rparr>, Ok ()) else (od1, Err OutIo)))"

subsection \<open>Recording an outcome\<close>

text \<open>Creating the file empties it, so a failure after that leaves no complete JSON in it.\<close>

datatype json_write = JsonOk | JsonCreateFails | JsonWriteFails

definition write_lab_outcome :: "json_write \<Rightarrow> output_dir \<Rightarrow> output_dir \<times> (out_error, unit) rresult" where
  "write_lab_outcome w od =
     (case w of
        JsonOk \<Rightarrow> (od\<lparr>od_outcomes_json := Some (od_lab_outcome od)\<rparr>, Ok ())
      | JsonCreateFails \<Rightarrow> (od, Err OutIo)
      | JsonWriteFails \<Rightarrow> (od\<lparr>od_outcomes_json := None\<rparr>, Err OutIo))"

definition append_list :: "summary_outcome \<Rightarrow> string \<Rightarrow> output_dir \<Rightarrow> output_dir" where
  "append_list s l od =
     (case s of
        MissedMutant \<Rightarrow> od\<lparr>od_missed := od_missed od @ l\<rparr>
      | CaughtMutant \<Rightarrow> od\<lparr>od_caught := od_caught od @ l\<rparr>
      | Timeout \<Rightarrow> od\<lparr>od_timeout := od_timeout od @ l\<rparr>
      | Unviable \<Rightarrow> od\<lparr>od_unviable := od_unviable od @ l\<rparr>
      | Equivalent \<Rightarrow> od\<lparr>od_equivalent := od_equivalent od @ l\<rparr>
      | Uncovered \<Rightarrow> od\<lparr>od_uncovered := od_uncovered od @ l\<rparr>
      | _ \<Rightarrow> od)"

definition has_list :: "summary_outcome \<Rightarrow> bool" where
  "has_list s \<longleftrightarrow> s \<noteq> Success \<and> s \<noteq> Failure"

definition throttled :: "nat \<Rightarrow> output_dir \<Rightarrow> bool" where
  "throttled now od =
     (case od_last_outcomes_write od of None \<Rightarrow> False | Some t \<Rightarrow> now - t < OUTCOMES_WRITE_INTERVAL)"

definition add_scenario_outcome ::
  "json_write \<Rightarrow> bool \<Rightarrow> nat \<Rightarrow> scenario_outcome \<Rightarrow> output_dir \<Rightarrow> output_dir \<times> (out_error, unit) rresult" where
  "add_scenario_outcome ok_json ok_list now o' od =
     (let od1 = od\<lparr>od_lab_outcome := add_outcome o' (od_lab_outcome od)\<rparr>;
          (od2, r) = (if throttled now od1 then (od1, Ok ())
                      else (case write_lab_outcome ok_json od1 of
                              (od', Ok _) \<Rightarrow> (od'\<lparr>od_last_outcomes_write := Some now\<rparr>, Ok ())
                            | (od', Err e) \<Rightarrow> (od', Err e)))
      in case r of
           Err e \<Rightarrow> (od2, Err e)
         | Ok _ \<Rightarrow>
             (case so_scenario o' of
                Baseline \<Rightarrow> (od2, Ok ())
              | MutantScenario m \<Rightarrow>
                  if \<not> has_list (summary o') then (od2, Ok ())
                  else (case full_name m of
                          None \<Rightarrow> (od2, Err OutPanic)
                        | Some name \<Rightarrow>
                            if \<not> ok_list then (od2, Err OutIo)
                            else (append_list (summary o') (name @ [newline]) od2, Ok ()))))"

definition write_mutants_list :: "bool \<Rightarrow> mutant list \<Rightarrow> output_dir \<Rightarrow> output_dir \<times> (out_error, unit) rresult" where
  "write_mutants_list ok ms od =
     (if ok then (od\<lparr>od_mutants_json := Some ms\<rparr>, Ok ()) else (od, Err OutIo))"

definition finish :: "json_write \<Rightarrow> nat \<Rightarrow> output_dir \<Rightarrow> output_dir \<times> (out_error, lab_outcome) rresult" where
  "finish ok now od =
     (let od1 = od\<lparr>od_lab_outcome := (od_lab_outcome od)\<lparr>lo_end_time := Some now\<rparr>\<rparr> in
      case write_lab_outcome ok od1 of
        (od2, Err e) \<Rightarrow> (od2, Err e)
      | (od2, Ok _) \<Rightarrow> (od2, Ok (od_lab_outcome od2)))"

subsection \<open>Iterating\<close>

definition write_previously_caught :: "bool \<Rightarrow> string list \<Rightarrow> output_dir \<Rightarrow> output_dir \<times> (out_error, unit) rresult" where
  "write_previously_caught ok names od =
     (if od_previously_caught od \<noteq> None \<or> \<not> ok then (od, Err OutIo)
      else (od\<lparr>od_previously_caught := Some (concat (map (\<lambda>l. l @ [newline]) names))\<rparr>, Ok ()))"

text \<open>The files are read by \<open>rd\<close>: \<^const>\<open>None\<close> where there is no such file.\<close>

fun load_lines :: "(string \<Rightarrow> (out_error, string) rresult option) \<Rightarrow> string list \<Rightarrow> string list
    \<Rightarrow> (out_error, string list) rresult" where
  "load_lines rd r [] = Ok r"
| "load_lines rd r (f # fs) =
     (case rd f of
        None \<Rightarrow> load_lines rd r fs
      | Some res \<Rightarrow> rbind res (\<lambda>body. load_lines rd (r @ lines body) fs))"

definition load_previously_caught ::
  "(string \<Rightarrow> (out_error, string) rresult option) \<Rightarrow> (out_error, string list) rresult" where
  "load_previously_caught rd = load_lines rd [] [CAUGHT_TXT, UNVIABLE_TXT, PREVIOUSLY_CAUGHT_TXT]"

text \<open>Reading the files of an output directory.\<close>

definition read_of :: "output_dir option \<Rightarrow> string \<Rightarrow> (out_error, string) rresult option" where
  "read_of cur f =
     (case cur of
        None \<Rightarrow> None
      | Some od \<Rightarrow>
          if f = CAUGHT_TXT then Some (Ok (od_caught od))
          else if f = UNVIABLE_TXT then Some (Ok (od_unviable od))
          else if f = PREVIOUSLY_CAUGHT_TXT then map_option Ok (od_previously_caught od)
          else None)"

subsection \<open>Log names\<close>

definition name_at :: "string \<Rightarrow> nat \<Rightarrow> string" where
  "name_at nm k = (if k = 0 then nm else nm @ ''_'' @ pad3 k)"

lemma first_sep_unique:
  "x @ d # a = y @ d # b \<Longrightarrow> d \<notin> set x \<Longrightarrow> d \<notin> set y \<Longrightarrow> x = y \<and> a = b"
proof (induction x arbitrary: y)
  case Nil
  then show ?case by (cases y) auto
next
  case (Cons c x)
  then show ?case by (cases y) auto
qed

lemma last_sep_unique:
  assumes "a @ d # x = b @ d # y" "d \<notin> set x" "d \<notin> set y"
  shows "a = b \<and> x = y"
proof -
  have "rev x @ d # rev a = rev y @ d # rev b" using arg_cong [OF assms(1), of rev] by simp
  from first_sep_unique [OF this] show ?thesis using assms(2,3) by simp
qed

lemma pad3_no_underscore [simp]: "CHR ''_'' \<notin> set (pad3 k)"
proof
  assume "CHR ''_'' \<in> set (pad3 k)"
  then have "is_digit CHR ''_''" using pad3_digits [of k] by (auto simp: list_all_iff)
  then show False by simp
qed

text \<open>
  The interface to the names of scenarios: no name is another one with a number appended.  Then
  numbering repeated names keeps all names apart.
\<close>

locale log_names =
  fixes base :: "'a \<Rightarrow> string"
  assumes no_suffix: "base a \<noteq> base b @ ''_'' @ pad3 k"
begin

lemma name_at_inject:
  assumes "name_at (base a) j = name_at (base b) k"
  shows "base a = base b \<and> j = k"
proof (cases "j = 0 \<or> k = 0")
  case True
  then show ?thesis
    using assms no_suffix [of a b k] no_suffix [of b a j] by (auto simp: name_at_def split: if_splits)
next
  case False
  then have "base a @ CHR ''_'' # pad3 j = base b @ CHR ''_'' # pad3 k"
    using assms by (simp add: name_at_def)
  from last_sep_unique [OF this] show ?thesis by simp
qed

lemma allocate_fresh:
  assumes inv: "\<And>p. p \<in> taken \<Longrightarrow> \<exists>b k n. p = name_at (base b) k \<and> used (base b) = Some n \<and> k \<le> n"
    and al: "allocate_name (base a) used = (nm, used')"
  shows "nm \<notin> taken"
    and "p \<in> insert nm taken \<Longrightarrow> \<exists>b k n. p = name_at (base b) k \<and> used' (base b) = Some n \<and> k \<le> n"
proof -
  define i where "i = (case used (base a) of Some n \<Rightarrow> n + 1 | None \<Rightarrow> 0)"
  have al': "nm = name_at (base a) i" "used' = used(base a \<mapsto> i)"
    using al by (auto simp: allocate_name_def name_at_def i_def split: option.splits)
  have lt: "used (base a) = Some n \<Longrightarrow> n < i" for n by (simp add: i_def)
  show "nm \<notin> taken"
  proof
    assume "nm \<in> taken"
    with inv al'(1) obtain b k n where "name_at (base a) i = name_at (base b) k"
      "used (base b) = Some n" "k \<le> n" by metis
    with name_at_inject [of a i b k] lt show False by (metis leD)
  qed
  assume "p \<in> insert nm taken"
  then consider "p = nm" | "p \<in> taken" by auto
  then show "\<exists>b k n. p = name_at (base b) k \<and> used' (base b) = Some n \<and> k \<le> n"
  proof cases
    case 1
    then show ?thesis using al' by (intro exI [of _ a] exI [of _ i]) simp
  next
    case 2
    from inv [OF 2] obtain b k n where b: "p = name_at (base b) k" "used (base b) = Some n" "k \<le> n" by blast
    show ?thesis
    proof (cases "base b = base a")
      case True
      with b lt [of n] al' show ?thesis by (intro exI [of _ b] exI [of _ k] exI [of _ i]) simp
    next
      case False
      with b al' show ?thesis by (intro exI [of _ b] exI [of _ k] exI [of _ n]) simp
    qed
  qed
qed

end

lemma scenario_base_cases:
  obtains "scenario_base s = ''baseline''"
  | x k where "scenario_base s = (x @ ''_col'') @ CHR ''_'' # show_nat k"
proof (cases s)
  case (MutantScenario m)
  then show thesis
    by (intro that(2) [of "clean_filename (sf_slash_path (mu_source_file m))
        @ ''_line_'' @ show_nat (lc_line (sp_start (mu_span m)))" "lc_column (sp_start (mu_span m))"])
      (simp add: scenario_base_def log_file_name_base_def)
qed (simp add: that(1) scenario_base_def)

interpretation ln: log_names scenario_base
proof
  fix a b k
  show "scenario_base a \<noteq> scenario_base b @ ''_'' @ pad3 k"
  proof
    assume eq: "scenario_base a = scenario_base b @ ''_'' @ pad3 k"
    show False
    proof (cases a rule: scenario_base_cases)
      case 1
      have "CHR ''_'' \<in> set (scenario_base b @ ''_'' @ pad3 k)" by simp
      then show False using 1 unfolding eq [symmetric] by simp
    next
      case (2 x m)
      then have "(x @ ''_col'') @ CHR ''_'' # show_nat m = scenario_base b @ CHR ''_'' # pad3 k"
        using eq by simp
      from last_sep_unique [OF this] have b: "scenario_base b = x @ ''_col''" by simp
      show False
      proof (cases b rule: scenario_base_cases)
        case 1
        then have "last ''baseline'' = last (x @ ''_col'')" using b by simp
        then show False by simp
      next
        case (2 y n)
        then have "last (show_nat n) = last (x @ ''_col'')" using b by (metis last_appendR last_ConsR show_nat_nonempty list.distinct(1))
        moreover have "is_digit (last (show_nat n))" using show_nat_mem [of "last (show_nat n)" n] by simp
        ultimately show False by simp
      qed
    qed
  qed
qed

subsection \<open>The life of an output directory\<close>

text \<open>The operations on an open output directory, in any order and with any failures.\<close>

inductive od_step :: "output_dir \<Rightarrow> output_dir \<Rightarrow> bool" where
  step_start: "start_scenario ok s nm od = (od', r) \<Longrightarrow> od_step od od'"
| step_message: "message ok sc msg od = (od', r) \<Longrightarrow> od_step od od'"
| step_diff: "write_diff ok1 ok2 sc d od = (od', r) \<Longrightarrow> od_step od od'"
| step_add: "add_scenario_outcome w ok now o' od = (od', r) \<Longrightarrow> od_step od od'"
| step_list: "write_mutants_list ok ms od = (od', r) \<Longrightarrow> od_step od od'"
| step_previous: "write_previously_caught ok names od = (od', r) \<Longrightarrow> od_step od od'"

definition log_path_of :: "string \<Rightarrow> path" where
  "log_path_of nm = ''log/'' @ nm @ ''.log''"

lemma log_path_of_inject [simp]: "log_path_of a = log_path_of b \<longleftrightarrow> a = b"
  by (simp add: log_path_of_def)

definition logs_inv :: "output_dir \<Rightarrow> bool" where
  "logs_inv od \<longleftrightarrow> (\<forall>p. od_logs od p \<noteq> None \<longrightarrow>
     (\<exists>s k n. p = log_path_of (name_at (scenario_base s) k)
        \<and> od_used_log_names od (scenario_base s) = Some n \<and> k \<le> n))"

lemma logs_inv_frame:
  "logs_inv od \<Longrightarrow> od_used_log_names od' = od_used_log_names od
    \<Longrightarrow> (\<And>p. od_logs od' p \<noteq> None \<Longrightarrow> od_logs od p \<noteq> None) \<Longrightarrow> logs_inv od'"
  by (auto simp: logs_inv_def)

lemma append_log_frame [frame_simps]:
  "od_used_log_names (append_log p t od) = od_used_log_names od"
  "(od_logs (append_log p t od) q = None) = (od_logs od q = None)"
  "od_path (append_log p t od) = od_path od"
  "od_lab_outcome (append_log p t od) = od_lab_outcome od"
  by (auto simp: append_log_def)

lemma append_list_frame [frame_simps]:
  "od_used_log_names (append_list s l od) = od_used_log_names od"
  "od_logs (append_list s l od) = od_logs od"
  "od_lab_outcome (append_list s l od) = od_lab_outcome od"
  "od_outcomes_json (append_list s l od) = od_outcomes_json od"
  "od_last_outcomes_write (append_list s l od) = od_last_outcomes_write od"
  by (cases s; simp add: append_list_def)+

lemma add_scenario_outcome_frame:
  assumes "add_scenario_outcome w ok now o' od = (od', r)"
  shows "od_used_log_names od' = od_used_log_names od" "od_logs od' = od_logs od"
    "od_lab_outcome od' = add_outcome o' (od_lab_outcome od)"
  using assms
  by (auto simp: add_scenario_outcome_def write_lab_outcome_def Let_def frame_simps
      split: if_splits prod.splits sum.splits scenario.splits option.splits json_write.splits)

lemma start_scenario_fresh:
  assumes inv: "logs_inv od" and st: "start_scenario ok s nm od = (od', r)"
  shows "logs_inv od'" "\<nexists>p. r = Err (LogExists p)"
    and "r = Ok sc \<Longrightarrow> od_logs od (sc_log_path sc) = None \<and> od_logs od' (sc_log_path sc) = Some (message_text nm)"
proof -
  obtain b used where al: "allocate_name (scenario_base s) (od_used_log_names od) = (b, used)"
    by (cases "allocate_name (scenario_base s) (od_used_log_names od)")
  let ?T = "{x. od_logs od (log_path_of x) \<noteq> None}"
  have T: "p \<in> ?T \<Longrightarrow> \<exists>b k n. p = name_at (scenario_base b) k
      \<and> od_used_log_names od (scenario_base b) = Some n \<and> k \<le> n" for p
    using inv [unfolded logs_inv_def, rule_format, of "log_path_of p"] by auto
  have "b \<notin> ?T" by (rule ln.allocate_fresh(1) [OF T al])
  then have b: "od_logs od (log_path_of b) = None" by simp
  have used: "x \<in> insert b ?T \<Longrightarrow> \<exists>b k n. x = name_at (scenario_base b) k
      \<and> used (scenario_base b) = Some n \<and> k \<le> n" for x
    by (rule ln.allocate_fresh(2) [OF T al])
  have od': "od_used_log_names od' = used" "od_logs od' q \<noteq> None \<Longrightarrow> od_logs od q \<noteq> None \<or> q = log_path_of b" for q
    using st b by (auto simp: start_scenario_def al scenario_output_new_def Let_def append_log_def
        log_path_of_def split: if_splits)
  show "logs_inv od'"
    unfolding logs_inv_def
  proof (intro allI impI)
    fix p assume "od_logs od' p \<noteq> None"
    then consider "p = log_path_of b" | "od_logs od p \<noteq> None" using od'(2) by blast
    then obtain x where "p = log_path_of x" "x \<in> insert b ?T"
      using inv by cases (auto simp: logs_inv_def)
    with used [of x] od'(1) show "\<exists>s k n. p = log_path_of (name_at (scenario_base s) k)
        \<and> od_used_log_names od' (scenario_base s) = Some n \<and> k \<le> n" by metis
  qed
  show "\<nexists>p. r = Err (LogExists p)"
    "r = Ok sc \<Longrightarrow> od_logs od (sc_log_path sc) = None \<and> od_logs od' (sc_log_path sc) = Some (message_text nm)"
    using st b by (auto simp: start_scenario_def al scenario_output_new_def Let_def append_log_def
        log_path_of_def split: if_splits)
qed

lemma message_frame:
  assumes "message ok sc msg od = (od', r)"
  shows "od_used_log_names od' = od_used_log_names od" "(od_logs od' q = None) = (od_logs od q = None)"
  using assms by (auto simp: message_def frame_simps split: if_splits)

lemma write_diff_frame:
  assumes "write_diff ok1 ok2 sc d od = (od', r)"
  shows "od_used_log_names od' = od_used_log_names od" "(od_logs od' q = None) = (od_logs od q = None)"
  using assms
  by (auto simp: write_diff_def message_def frame_simps split: if_splits prod.splits sum.splits option.splits)

lemma od_step_inv: "od_step od od' \<Longrightarrow> logs_inv od \<Longrightarrow> logs_inv od'"
proof (induction rule: od_step.induct)
  case (step_start ok s nm od od' r)
  then show ?case using start_scenario_fresh(1) by blast
next
  case (step_message ok sc msg od od' r)
  then show ?case using logs_inv_frame message_frame by metis
next
  case (step_diff ok1 ok2 sc d od od' r)
  then show ?case using logs_inv_frame write_diff_frame by metis
next
  case (step_add w ok now o' od od' r)
  then show ?case using logs_inv_frame add_scenario_outcome_frame by metis
next
  case (step_list ok ms od od' r)
  then show ?case by (auto simp: write_mutants_list_def logs_inv_def split: if_splits)
next
  case (step_previous ok names od od' r)
  then show ?case by (auto simp: write_previously_caught_def logs_inv_def split: if_splits)
qed

lemma od_steps_inv: "od_step\<^sup>*\<^sup>* (empty_output_dir p) od \<Longrightarrow> logs_inv od"
proof (induction rule: rtranclp_induct)
  case base
  show ?case by (simp add: logs_inv_def empty_output_dir_def)
next
  case (step od od')
  then show ?case using od_step_inv by blast
qed

subsection \<open>Lists and lines\<close>

definition list_text :: "summary_outcome \<Rightarrow> output_dir \<Rightarrow> string" where
  "list_text s od =
     (case s of MissedMutant \<Rightarrow> od_missed od | CaughtMutant \<Rightarrow> od_caught od | Timeout \<Rightarrow> od_timeout od
      | Unviable \<Rightarrow> od_unviable od | Equivalent \<Rightarrow> od_equivalent od | Uncovered \<Rightarrow> od_uncovered od
      | _ \<Rightarrow> [])"

definition name_line :: "scenario \<Rightarrow> string" where
  "name_line s =
     (case s of Baseline \<Rightarrow> [] | MutantScenario m \<Rightarrow> (case full_name m of None \<Rightarrow> [] | Some n \<Rightarrow> n @ [newline]))"

definition mutant_lines :: "summary_outcome \<Rightarrow> scenario_outcome list \<Rightarrow> string" where
  "mutant_lines s os = concat (map (\<lambda>o'. name_line (so_scenario o')) (filter (\<lambda>o'. summary o' = s) os))"

fun add_all :: "(nat \<times> scenario_outcome) list \<Rightarrow> output_dir \<Rightarrow> output_dir \<times> (out_error, unit) rresult" where
  "add_all [] od = (od, Ok ())"
| "add_all ((now, o') # os) od =
     (case add_scenario_outcome JsonOk True now o' od of
        (od', Ok _) \<Rightarrow> add_all os od'
      | (od', Err e) \<Rightarrow> (od', Err e))"

definition outcome_ok :: "scenario_outcome \<Rightarrow> bool" where
  "outcome_ok o' \<longleftrightarrow> (case so_scenario o' of Baseline \<Rightarrow> True | MutantScenario m \<Rightarrow> mutant_ok m)"

lemma list_text_append: "list_text s (append_list s' l od) = list_text s od @ (if s = s' \<and> has_list s then l else [])"
  by (cases s; cases s') (simp_all add: list_text_def append_list_def has_list_def)

lemma add_scenario_outcome_ok:
  assumes "outcome_ok o'"
  shows "\<exists>od'. add_scenario_outcome JsonOk True now o' od = (od', Ok ())
    \<and> (\<forall>s. has_list s \<longrightarrow> list_text s od' = list_text s od
          @ (if summary o' = s then name_line (so_scenario o') else []))"
proof -
  define od2 where "od2 = (let od1 = od\<lparr>od_lab_outcome := add_outcome o' (od_lab_outcome od)\<rparr> in
    if throttled now od1 then od1
    else od1\<lparr>od_outcomes_json := Some (od_lab_outcome od1), od_last_outcomes_write := Some now\<rparr>)"
  have same: "list_text s od2 = list_text s od" for s
    by (simp add: od2_def list_text_def Let_def split: summary_outcome.splits)
  show ?thesis
  proof (cases "so_scenario o'")
    case Baseline
    then have "add_scenario_outcome JsonOk True now o' od = (od2, Ok ())"
      by (simp add: add_scenario_outcome_def od2_def Let_def write_lab_outcome_def)
    with same Baseline show ?thesis by (simp add: name_line_def)
  next
    case (MutantScenario m)
    then obtain n where n: "full_name m = Some n"
      using assms name_total [of m True] by (auto simp: outcome_ok_def name_of_def write_name_def)
    have "add_scenario_outcome JsonOk True now o' od
        = (if has_list (summary o') then append_list (summary o') (n @ [newline]) od2 else od2, Ok ())"
      using MutantScenario n by (simp add: add_scenario_outcome_def od2_def Let_def write_lab_outcome_def)
    then show ?thesis using same MutantScenario n
      by (auto simp: name_line_def list_text_append)
  qed
qed

lemma add_all_ok:
  assumes "\<forall>(t, o') \<in> set os. outcome_ok o'"
  shows "\<exists>od'. add_all os od = (od', Ok ())
    \<and> od_lab_outcome od' = fold add_outcome (map snd os) (od_lab_outcome od)
    \<and> (\<forall>s. has_list s \<longrightarrow> list_text s od' = list_text s od @ mutant_lines s (map snd os))"
  using assms
proof (induction os arbitrary: od)
  case Nil
  show ?case by (simp add: mutant_lines_def)
next
  case (Cons p os)
  obtain t o' where p: "p = (t, o')" by (cases p)
  with Cons.prems have "outcome_ok o'" by simp
  from add_scenario_outcome_ok [OF this, of t od] obtain od1 where
    1: "add_scenario_outcome JsonOk True t o' od = (od1, Ok ())"
    "\<forall>s. has_list s \<longrightarrow> list_text s od1 = list_text s od
          @ (if summary o' = s then name_line (so_scenario o') else [])" by blast
  from Cons.IH [of od1] Cons.prems obtain od' where
    2: "add_all os od1 = (od', Ok ())"
    "od_lab_outcome od' = fold add_outcome (map snd os) (od_lab_outcome od1)"
    "\<forall>s. has_list s \<longrightarrow> list_text s od' = list_text s od1 @ mutant_lines s (map snd os)" by auto
  show ?case
    using 1 2 add_scenario_outcome_frame(3) [OF 1(1)] by (auto simp: p mutant_lines_def)
qed

definition line_safe :: "string \<Rightarrow> bool" where
  "line_safe n \<longleftrightarrow> newline \<notin> set n \<and> (n = [] \<or> last n \<noteq> creturn)"

lemma split_inclusive_line:
  "newline \<notin> set n \<Longrightarrow> split_inclusive (n @ newline # s) = (n @ [newline]) # split_inclusive s"
  by (induction n) auto

lemma lines_of_lines: "list_all line_safe ns \<Longrightarrow> lines (concat (map (\<lambda>n. n @ [newline]) ns)) = ns"
proof (induction ns)
  case (Cons n ns)
  then have "newline \<notin> set n" "strip_line_end (n @ [newline]) = n"
    by (auto simp: line_safe_def strip_line_end_def)
  with Cons show ?case by (simp add: lines_def split_inclusive_line)
qed (simp add: lines_def)

lemma split_inclusive_pieces: "l \<in> set (split_inclusive s) \<Longrightarrow> newline \<notin> set (butlast l)"
  by (induction s arbitrary: l rule: split_inclusive.induct)
    (auto split: if_splits list.splits)

lemma lines_no_newline: "n \<in> set (lines s) \<Longrightarrow> newline \<notin> set n"
proof -
  assume "n \<in> set (lines s)"
  then obtain l where l: "l \<in> set (split_inclusive s)" "n = strip_line_end l" by (auto simp: lines_def)
  have "newline \<notin> set (butlast l)" by (rule split_inclusive_pieces [OF l(1)])
  moreover have "newline \<notin> set l" if "last l \<noteq> newline" "newline \<notin> set (butlast l)"
    using that by (cases l rule: rev_cases) auto
  ultimately show ?thesis
    unfolding l(2) strip_line_end_def by (auto simp: Let_def dest: in_set_butlastD)
qed

lemma load_lines_no_newline:
  "load_lines rd r fs = Ok r' \<Longrightarrow> (\<forall>n\<in>set r. newline \<notin> set n) \<Longrightarrow> n \<in> set r' \<Longrightarrow> newline \<notin> set n"
  by (induction rd r fs rule: load_lines.induct)
    (auto simp: rbind_Ok_iff dest: lines_no_newline split: option.splits)

subsection \<open>Properties\<close>

text \<open>C19: Whatever is done with an output directory since it was made, in any order and with any
  failure, starting a scenario never finds its log file already there: the name it allocates is new,
  and the log it creates starts with the name of the scenario.\<close>

theorem log_names_never_collide:
  assumes "od_step\<^sup>*\<^sup>* (empty_output_dir p) od" "start_scenario ok s nm od = (od', r)"
  shows "r \<noteq> Err (LogExists q)
    \<and> (\<forall>sc. r = Ok sc \<longrightarrow> od_logs od (sc_log_path sc) = None
          \<and> od_logs od' (sc_log_path sc) = Some (message_text nm))"
  using start_scenario_fresh [OF od_steps_inv [OF assms(1)] assms(2)] by blast

lemma log_names_never_collide_witness:
  "snd (start_scenario True Baseline ''baseline'' (fst (start_scenario True Baseline ''baseline'' (empty_output_dir ''o''))))
    \<noteq> Err (LogExists ''log/baseline_001.log'')"
proof -
  let ?s = "start_scenario True Baseline ''baseline''"
  have "od_step (empty_output_dir ''o'') (fst (?s (empty_output_dir ''o'')))"
    by (rule step_start [of _ _ _ _ _ "snd (?s (empty_output_dir ''o''))"]) simp
  then have "od_step\<^sup>*\<^sup>* (empty_output_dir ''o'') (fst (?s (empty_output_dir ''o'')))" by blast
  from log_names_never_collide [OF this, of True Baseline "''baseline''"] show ?thesis
    by (metis prod.collapse)
qed

text \<open>C18: After any outcomes have been recorded without I/O errors, every list file holds the full names
  of exactly the mutants with its summary, in order, one per line; and finishing writes the complete
  outcome to \<open>outcomes.json\<close>, however recently it was written before.\<close>

theorem lists_and_json_complete:
  assumes "\<forall>(t, o') \<in> set os. outcome_ok o'"
  shows "\<exists>od. add_all os (empty_output_dir p) = (od, Ok ())
    \<and> (\<forall>s. has_list s \<longrightarrow> list_text s od = mutant_lines s (map snd os))
    \<and> (\<exists>od' lo. finish JsonOk now od = (od', Ok lo) \<and> od_outcomes_json od' = Some lo
        \<and> lo_outcomes lo = map snd os \<and> lo_end_time lo = Some now
        \<and> lab_exit_code lo = lab_exit_code (fold add_outcome (map snd os) new_lab_outcome))"
proof -
  from add_all_ok [OF assms, of "empty_output_dir p"] obtain od where
    od: "add_all os (empty_output_dir p) = (od, Ok ())"
    "od_lab_outcome od = fold add_outcome (map snd os) new_lab_outcome"
    "\<forall>s. has_list s \<longrightarrow> list_text s od = mutant_lines s (map snd os)"
    by (auto simp: empty_output_dir_def list_text_def split: summary_outcome.splits)
  let ?lo = "(od_lab_outcome od)\<lparr>lo_end_time := Some now\<rparr>"
  have "finish JsonOk now od = (od\<lparr>od_lab_outcome := ?lo, od_outcomes_json := Some ?lo\<rparr>, Ok ?lo)"
    by (simp add: finish_def write_lab_outcome_def)
  moreover have "lab_exit_code ?lo = lab_exit_code (od_lab_outcome od)" by (simp add: lab_exit_code_def)
  ultimately show ?thesis using od outcomes_fold [of "map snd os" new_lab_outcome]
    by (auto simp: new_lab_outcome_def)
qed

lemma lists_and_json_complete_witness:
  "\<exists>od. add_all [(0, example_run [example_phase Build ExitSuccess, example_phase Test (ExitFailure 1)])]
      (empty_output_dir ''o'') = (od, Ok ())
    \<and> od_caught od = ''src/lib.rs:2:1: replace f with ()'' @ [newline]"
proof -
  let ?r = "example_run [example_phase Build ExitSuccess, example_phase Test (ExitFailure 1)]"
  have ok: "\<forall>(t, o') \<in> set [(0 :: nat, ?r)]. outcome_ok o'"
    by (simp add: outcome_ok_def example_run_def new_outcome_def example_mutant_ok)
  have s: "summary ?r = CaughtMutant"
    by (simp add: summary_def example_run_def new_outcome_def example_phase_def check_or_build_failed_def
        has_timeout_def mutant_caught_def last_phase_def last_phase_result_def last_opt_def)
  have l: "mutant_lines CaughtMutant [?r] = ''src/lib.rs:2:1: replace f with ()'' @ [newline]"
    using s by (simp add: mutant_lines_def name_line_def mutant_names_agree_example)
      (simp add: example_run_def new_outcome_def mutant_names_agree_example)
  show ?thesis
    using lists_and_json_complete [OF ok, of "''o''" 0] l
    by (auto simp: has_list_def list_text_def dest!: spec [of _ CaughtMutant])
qed

text \<open>C20: Reading back what earlier runs caught gives the caught names, then the unviable ones, then the
  ones remembered before, each as it was written, provided each is one line; and no name with a
  newline in it is ever read back, so such a mutant is tried again by \<open>--iterate\<close>.\<close>

theorem previously_caught_round_trip:
  assumes "list_all line_safe (cs @ us @ ps)"
    and "od_caught od = concat (map (\<lambda>n. n @ [newline]) cs)"
    and "od_unviable od = concat (map (\<lambda>n. n @ [newline]) us)"
    and "od_previously_caught od = None"
  shows "load_previously_caught (read_of (Some (fst (write_previously_caught True ps od)))) = Ok (cs @ us @ ps)
    \<and> load_previously_caught (read_of None) = Ok []
    \<and> (\<forall>rd r n. load_previously_caught rd = Ok r \<and> newline \<in> set n \<longrightarrow> n \<notin> set r)"
proof -
  have l: "lines (concat (map (\<lambda>n. n @ [newline]) ns)) = ns" if "ns = cs \<or> ns = us \<or> ns = ps" for ns
    using assms(1) that by (intro lines_of_lines) auto
  have "load_previously_caught (read_of (Some (fst (write_previously_caught True ps od)))) = Ok (cs @ us @ ps)"
    using assms(2-4) l
    by (simp add: load_previously_caught_def read_of_def write_previously_caught_def CAUGHT_TXT_def
        UNVIABLE_TXT_def PREVIOUSLY_CAUGHT_TXT_def)
  moreover have "load_previously_caught (read_of None) = Ok []"
    by (simp add: load_previously_caught_def read_of_def)
  moreover have "\<forall>rd r n. load_previously_caught rd = Ok r \<and> newline \<in> set n \<longrightarrow> n \<notin> set r"
    unfolding load_previously_caught_def using load_lines_no_newline [where r = "[]"]
    by (auto simp del: load_lines.simps)
  ultimately show ?thesis by blast
qed

lemma previously_caught_round_trip_witness:
  "load_previously_caught (read_of (Some (fst (write_previously_caught True [''c'']
      ((empty_output_dir ''o'')\<lparr>od_caught := ''a'' @ [newline], od_unviable := ''b'' @ [newline]\<rparr>)))))
    = Ok [''a'', ''b'', ''c'']"
  using previously_caught_round_trip [of "[''a'']" "[''b'']" "[''c'']"
      "(empty_output_dir ''o'')\<lparr>od_caught := ''a'' @ [newline], od_unviable := ''b'' @ [newline]\<rparr>"]
  by (simp add: line_safe_def empty_output_dir_def)

text \<open>Making a new output directory: when it succeeds the new directory is empty and the
  previous one, if any, is now the rotated one; and whichever step fails, the output of the previous
  run is still there, in its place or rotated.\<close>

theorem rotation_keeps_last_run:
  assumes "output_dir_new ok in_dir op = (op', r)" "op_current op = Some prev"
  shows "(op_current op' = Some prev \<or> op_rotated op' = Some prev)
    \<and> (\<forall>out. r = Ok out \<longrightarrow> op_current op' = Some out \<and> op_rotated op' = Some prev
          \<and> out = empty_output_dir (join_path in_dir OUTDIR_NAME))"
  using assms by (auto simp: output_dir_new_def Let_def split: if_splits)

lemma rotation_keeps_last_run_witness:
  "op_rotated (fst (output_dir_new (\<lambda>s. s \<noteq> CreateLogDir) ''d''
      \<lparr>op_exists = True, op_current = Some (empty_output_dir ''x''), op_rotated = None\<rparr>))
    = Some (empty_output_dir ''x'')"
proof -
  let ?op = "\<lparr>op_exists = True, op_current = Some (empty_output_dir ''x''), op_rotated = None\<rparr>"
  obtain op' r where n: "output_dir_new (\<lambda>s. s \<noteq> CreateLogDir) ''d'' ?op = (op', r)" by fastforce
  then have "op_current op' = Some (empty_output_dir (join_path ''d'' OUTDIR_NAME))"
    by (auto simp: output_dir_new_def)
  moreover have "empty_output_dir (join_path ''d'' OUTDIR_NAME) \<noteq> empty_output_dir ''x''"
    by (simp add: empty_output_dir_def join_path_def is_absolute_def starts_with_def OUTDIR_NAME_def)
  ultimately show ?thesis using rotation_keeps_last_run [OF n, of "empty_output_dir ''x''"] n by auto
qed

end
