(* ===== verification/Copying.thy ===== *)
theory Copying
  imports Outputs Timeouts
begin

text \<open>
  Making a build directory: the copy of the source tree (\<open>src/src/copy_tree.rs\<close>,
  \<open>src/src/copy_tree/unix.rs\<close>), the paths rewritten in the manifest and in cargo's configuration
  (\<open>src/src/manifest.rs\<close>), and their composition (\<open>src/src/build_dir.rs\<close>).  The file system is one map from
  the components of absolute paths to what is there; reading and writing a file follow symbolic links as
  the system does.  The \<open>ignore\<close> crate's walk, the \<open>toml\<close> crate's parser and printer, and which system
  calls succeed are given to the operations.
\<close>

subsection \<open>Files behind links\<close>

text \<open>
  Following a path from the real directory \<open>dir\<close>: each link is replaced by its target, a link of
  an absolute target starting again at the root, and the system gives up after \<open>MAX_LINKS\<close> links.
\<close>

definition MAX_LINKS :: nat where "MAX_LINKS = 40"

function resolve :: "nat \<Rightarrow> files \<Rightarrow> string list \<Rightarrow> string list \<Rightarrow> string list option" where
  "resolve n fs dir [] = Some dir"
| "resolve n fs dir (c # cs) =
     (if c = ''.'' then resolve n fs dir cs
      else if c = ''..'' then resolve n fs (if length dir \<le> 1 then dir else butlast dir) cs
      else (case fs (dir @ [c]) of
              Some (Symlink target) \<Rightarrow>
                (case n of
                   0 \<Rightarrow> None
                 | Suc m \<Rightarrow> resolve m fs (if is_absolute target then [] else dir) (components target @ cs))
            | Some Directory \<Rightarrow> resolve n fs (dir @ [c]) cs
            | _ \<Rightarrow> if cs = [] then Some (dir @ [c]) else None))"
  by pat_completeness auto
termination
  by (relation "measures [\<lambda>(n, fs, dir, cs). n, \<lambda>(n, fs, dir, cs). length cs]") auto

definition real_path :: "files \<Rightarrow> path \<Rightarrow> string list option" where
  "real_path fs p = resolve MAX_LINKS fs [] (components p)"

definition path_exists :: "files \<Rightarrow> path \<Rightarrow> bool" where
  "path_exists fs p = (case real_path fs p of None \<Rightarrow> False | Some k \<Rightarrow> fs k \<noteq> None)"

definition canonicalize :: "files \<Rightarrow> path \<Rightarrow> path option" where
  "canonicalize fs p =
     (case real_path fs p of
        None \<Rightarrow> None
      | Some k \<Rightarrow> if fs k = None then None else Some (path_of k))"

text \<open>\<open>read_to_string\<close> and \<open>write\<close>, which creates the file if it is not there.\<close>

definition read_text :: "files \<Rightarrow> path \<Rightarrow> string option" where
  "read_text fs p =
     (case real_path fs p of
        None \<Rightarrow> None
      | Some k \<Rightarrow> (case fs k of Some (Regular s) \<Rightarrow> if utf8 s then Some s else None | _ \<Rightarrow> None))"

definition write_text :: "bool \<Rightarrow> path \<Rightarrow> string \<Rightarrow> files \<Rightarrow> files option" where
  "write_text ok p s fs =
     (case real_path fs p of
        None \<Rightarrow> None
      | Some k \<Rightarrow>
          (case fs k of
             Some Directory \<Rightarrow> None
           | Some OtherNode \<Rightarrow> None
           | _ \<Rightarrow> if ok then Some (fs(k \<mapsto> Regular s)) else None))"

subsection \<open>The walk\<close>

datatype file_kind = KindFile | KindDir | KindSymlink | KindOther

text \<open>An entry of the walk: its path below the source directory, and its type if it has one.\<close>

record walk_entry =
  en_rel :: "string list"
  en_kind :: "file_kind option"

record walk_settings =
  st_git_ignore :: bool
  st_git_exclude :: bool
  st_git_global :: bool
  st_hidden :: bool
  st_ignore :: bool
  st_require_git :: bool

definition VCS_DIRS :: "string list" where
  "VCS_DIRS = [''.git'', ''.hg'', ''.bzr'', ''.svn'', ''_darcs'', ''.jj'', ''.pijul'']"

definition walk_settings_of :: "options \<Rightarrow> walk_settings" where
  "walk_settings_of o' =
     \<lparr>st_git_ignore = opt_gitignore o', st_git_exclude = opt_gitignore o', st_git_global = opt_gitignore o',
      st_hidden = False, st_ignore = False, st_require_git = True\<rparr>"

text \<open>The filter of the walk, for the entry at \<open>rel\<close> below \<open>from\<close>.\<close>

definition filter_entry :: "options \<Rightarrow> string list \<Rightarrow> string list \<Rightarrow> bool" where
  "filter_entry o' from rel =
     (let name = last (from @ rel);
          is_top_level_target = (name = ''target'' \<and> rel \<noteq> [] \<and> from @ butlast rel = from)
      in name \<noteq> ''mutants.out'' \<and> name \<noteq> ''mutants.out.old''
         \<and> (opt_copy_target o' \<or> \<not> is_top_level_target)
         \<and> (opt_copy_vcs o' \<or> name \<notin> set VCS_DIRS))"

subsection \<open>Copying one entry\<close>

datatype copy_error =
    CreateTemp | TempNotUtf8 | CopyInterrupted | WalkFailed | NotUtf8 path | NoFileType path
  | SetMtime path | NoMetadata path | CopyFailed path | CreateDirFailed path
  | ReadLinkFailed path | SymlinkFailed path
  | CanonicalizeSource | ReadManifest | ParseManifest | SerializeManifest | WriteManifest
  | ReadConfig | ParseConfig | SerializeConfig | WriteConfig

text \<open>What the system does: the name of the temporary directory, the walk, and the outcome of the calls.\<close>

record copy_world =
  cw_temp :: "string \<Rightarrow> path option"
  cw_walk :: "walk_settings \<Rightarrow> (string list \<Rightarrow> bool) \<Rightarrow> (unit, walk_entry) rresult list"
  cw_interrupted :: "nat \<Rightarrow> bool"
  cw_reflink :: "string list \<Rightarrow> bool"
  cw_mtime_ok :: "string list \<Rightarrow> bool"
  cw_metadata_ok :: "string list \<Rightarrow> bool"
  cw_copy_ok :: "string list \<Rightarrow> bool"
  cw_create_dir_ok :: "string list \<Rightarrow> bool"
  cw_read_link_ok :: "string list \<Rightarrow> bool"
  cw_symlink_ok :: "string list \<Rightarrow> bool"
  cw_manifest_write_ok :: bool
  cw_config_write_ok :: bool

record copy_state =
  cs_files :: files
  cs_reflink_supported :: bool
  cs_total_bytes :: nat
  cs_total_files :: nat

text \<open>A new node in the copy, whose parent has to be there; nothing is written over a directory.\<close>

definition new_node :: "string list \<Rightarrow> fnode \<Rightarrow> files \<Rightarrow> files option" where
  "new_node k nd fs =
     (if fs (butlast k) = Some Directory \<and> fs k \<noteq> Some Directory then Some (fs(k \<mapsto> nd)) else None)"

definition source_text :: "files \<Rightarrow> string list \<Rightarrow> string option" where
  "source_text fs k = (case fs k of Some (Regular s) \<Rightarrow> Some s | _ \<Rightarrow> None)"

definition copy_file ::
  "copy_world \<Rightarrow> string list \<Rightarrow> string list \<Rightarrow> string list \<Rightarrow> copy_state \<Rightarrow> copy_state \<times> (copy_error, nat) rresult" where
  "copy_file w rel src dest st =
     (let copied = Option.bind (source_text (cs_files st) src) (\<lambda>s.
            map_option (\<lambda>fs. (s, fs)) (new_node dest (Regular s) (cs_files st)));
          fall_back = (\<lambda>st. case copied of
              Some (s, fs) \<Rightarrow>
                if cw_copy_ok w rel then (st\<lparr>cs_files := fs\<rparr>, Ok (length s))
                else (st, Err (CopyFailed (path_of rel)))
            | None \<Rightarrow> (st, Err (CopyFailed (path_of rel))))
      in if cs_reflink_supported st
         then (case copied of
                 Some (s, fs) \<Rightarrow>
                   if cw_reflink w rel
                   then (if \<not> cw_mtime_ok w rel then (st\<lparr>cs_files := fs\<rparr>, Err (SetMtime (path_of rel)))
                         else if \<not> cw_metadata_ok w rel then (st\<lparr>cs_files := fs\<rparr>, Err (NoMetadata (path_of rel)))
                         else (st\<lparr>cs_files := fs\<rparr>, Ok (length s)))
                   else fall_back (st\<lparr>cs_reflink_supported := False\<rparr>)
               | None \<Rightarrow> fall_back (st\<lparr>cs_reflink_supported := False\<rparr>))
         else fall_back st)"

text \<open>\<open>create_dir_all\<close>: the directories that are not there yet, from the root down.\<close>

fun create_dirs :: "string list \<Rightarrow> string list \<Rightarrow> files \<Rightarrow> files option" where
  "create_dirs base [] fs = Some fs"
| "create_dirs base (c # cs) fs =
     (case fs (base @ [c]) of
        None \<Rightarrow> create_dirs (base @ [c]) cs (fs(base @ [c] \<mapsto> Directory))
      | Some Directory \<Rightarrow> create_dirs (base @ [c]) cs fs
      | _ \<Rightarrow> None)"

definition copy_symlink ::
  "copy_world \<Rightarrow> string list \<Rightarrow> string list \<Rightarrow> string list \<Rightarrow> files \<Rightarrow> files \<times> (copy_error, unit) rresult" where
  "copy_symlink w rel src dest fs =
     (case (if cw_read_link_ok w rel then fs src else None) of
        Some (Symlink link_target) \<Rightarrow>
          (case (if fs dest = None \<and> cw_symlink_ok w rel then new_node dest (Symlink link_target) fs else None) of
             Some fs' \<Rightarrow> (fs', Ok ())
           | None \<Rightarrow> (fs, Err (SymlinkFailed (path_of rel))))
      | _ \<Rightarrow> (fs, Err (ReadLinkFailed (path_of rel))))"

definition copy_entry ::
  "copy_world \<Rightarrow> string list \<Rightarrow> string list \<Rightarrow> walk_entry \<Rightarrow> copy_state \<Rightarrow> copy_state \<times> (copy_error, unit) rresult" where
  "copy_entry w from dest e st =
     (let rel = en_rel e; k = dest @ rel in
      if \<not> utf8 (path_of k) then (st, Err (NotUtf8 (path_of rel)))
      else (case en_kind e of
              None \<Rightarrow> (st, Err (NoFileType (path_of rel)))
            | Some KindFile \<Rightarrow>
                (case copy_file w rel (from @ rel) k st of
                   (st1, Err x) \<Rightarrow> (st1, Err x)
                 | (st1, Ok n) \<Rightarrow>
                     (st1\<lparr>cs_total_bytes := cs_total_bytes st1 + n, cs_total_files := cs_total_files st1 + 1\<rparr>, Ok ()))
            | Some KindDir \<Rightarrow>
                (case (if cw_create_dir_ok w rel then create_dirs [] k (cs_files st) else None) of
                   None \<Rightarrow> (st, Err (CreateDirFailed (path_of rel)))
                 | Some fs \<Rightarrow> (st\<lparr>cs_files := fs\<rparr>, Ok ()))
            | Some KindSymlink \<Rightarrow>
                (case copy_symlink w rel (from @ rel) k (cs_files st) of
                   (fs, r) \<Rightarrow> (st\<lparr>cs_files := fs\<rparr>, r))
            | Some KindOther \<Rightarrow> (st, Ok ())))"

subsection \<open>Copying the tree\<close>

fun copy_entries ::
  "copy_world \<Rightarrow> string list \<Rightarrow> string list \<Rightarrow> nat \<Rightarrow> (unit, walk_entry) rresult list \<Rightarrow> copy_state
     \<Rightarrow> copy_state \<times> (copy_error, unit) rresult" where
  "copy_entries w from dest i [] st = (st, Ok ())"
| "copy_entries w from dest i (r # rs) st =
     (if cw_interrupted w i then (st, Err CopyInterrupted)
      else (case r of
              Err _ \<Rightarrow> (st, Err WalkFailed)
            | Ok e \<Rightarrow>
                (case copy_entry w from dest e st of
                   (st1, Err x) \<Rightarrow> (st1, Err x)
                 | (st1, Ok _) \<Rightarrow> copy_entries w from dest (i + 1) rs st1)))"

text \<open>Dropping a \<open>TempDir\<close> removes it with all it holds.\<close>

definition remove_tree :: "path \<Rightarrow> files \<Rightarrow> files" where
  "remove_tree p fs = (\<lambda>k. if prefix (components p) k then None else fs k)"

definition copy_tree ::
  "copy_world \<Rightarrow> path \<Rightarrow> string \<Rightarrow> options \<Rightarrow> files \<Rightarrow> files \<times> (copy_error, path) rresult" where
  "copy_tree w from_path name_base o' fs =
     (case cw_temp w name_base of
        None \<Rightarrow> (fs, Err CreateTemp)
      | Some tmp \<Rightarrow>
          if \<not> utf8 tmp then (fs, Err TempNotUtf8)
          else
            let from = components from_path; dest = components tmp in
            (case copy_entries w from dest 0 (cw_walk w (walk_settings_of o') (filter_entry o' from))
                    \<lparr>cs_files = fs(dest \<mapsto> Directory), cs_reflink_supported = True, cs_total_bytes = 0,
                     cs_total_files = 0\<rparr> of
               (st, Err x) \<Rightarrow> (remove_tree tmp (cs_files st), Err x)
             | (st, Ok _) \<Rightarrow> (cs_files st, Ok tmp)))"

subsection \<open>Manifests\<close>

text \<open>Values of the \<open>toml\<close> crate.  A float is its value, \<^const>\<open>None\<close> for not-a-number, which is not equal to
  itself.\<close>

datatype toml =
    TString string | TInteger int | TFloat "string option" | TBoolean bool | TDatetime string
  | TArray "toml list" | TTable "(string \<times> toml) list"

type_synonym toml_table = "(string \<times> toml) list"

fun toml_eq :: "toml \<Rightarrow> toml \<Rightarrow> bool" and toml_eqs :: "toml list \<Rightarrow> toml list \<Rightarrow> bool"
  and table_eq :: "toml_table \<Rightarrow> toml_table \<Rightarrow> bool" where
  "toml_eq (TString a) (TString b) = (a = b)"
| "toml_eq (TInteger a) (TInteger b) = (a = b)"
| "toml_eq (TFloat a) (TFloat b) = (a \<noteq> None \<and> a = b)"
| "toml_eq (TBoolean a) (TBoolean b) = (a = b)"
| "toml_eq (TDatetime a) (TDatetime b) = (a = b)"
| "toml_eq (TArray a) (TArray b) = toml_eqs a b"
| "toml_eq (TTable a) (TTable b) = table_eq a b"
| "toml_eq _ _ = False"
| "toml_eqs [] [] = True"
| "toml_eqs (a # as) (b # bs) = (toml_eq a b \<and> toml_eqs as bs)"
| "toml_eqs _ _ = False"
| "table_eq [] [] = True"
| "table_eq ((k, a) # as) ((l, b) # bs) = (k = l \<and> toml_eq a b \<and> table_eq as bs)"
| "table_eq _ _ = False"

text \<open>\<open>get_mut\<close> and what is done with the value.\<close>

fun update_key :: "string \<Rightarrow> (toml \<Rightarrow> toml) \<Rightarrow> toml_table \<Rightarrow> toml_table" where
  "update_key key f [] = []"
| "update_key key f ((k, v) # r) = (if k = key then (k, f v) # r else (k, v) # update_key key f r)"

definition fix_path_value :: "path \<Rightarrow> toml \<Rightarrow> toml" where
  "fix_path_value src v =
     (case v of
        TString s \<Rightarrow> (case fix_path s src of Some new_path \<Rightarrow> TString new_path | None \<Rightarrow> v)
      | _ \<Rightarrow> v)"

definition fix_dependency :: "path \<Rightarrow> toml \<Rightarrow> toml" where
  "fix_dependency src v =
     (case v of TTable t \<Rightarrow> TTable (update_key ''path'' (fix_path_value src) t) | _ \<Rightarrow> v)"

definition fix_dependency_table :: "path \<Rightarrow> toml \<Rightarrow> toml" where
  "fix_dependency_table src dependencies =
     (case dependencies of
        TTable t \<Rightarrow> TTable (map (\<lambda>(name, v). (name, fix_dependency src v)) t)
      | _ \<Rightarrow> dependencies)"

definition fix_patch :: "path \<Rightarrow> toml \<Rightarrow> toml" where
  "fix_patch src patch_table =
     (case patch_table of
        TTable t \<Rightarrow> TTable (map (\<lambda>(name, dependencies). (name, fix_dependency_table src dependencies)) t)
      | _ \<Rightarrow> patch_table)"

definition fix_top_table :: "path \<Rightarrow> toml_table \<Rightarrow> toml_table" where
  "fix_top_table src top_table =
     update_key ''patch'' (fix_patch src)
       (update_key ''replace'' (fix_dependency_table src)
         (update_key ''dependencies'' (fix_dependency_table src) top_table))"

definition fix_manifest_toml ::
  "(string \<Rightarrow> toml_table option) \<Rightarrow> string \<Rightarrow> path \<Rightarrow> (copy_error, toml_table option) rresult" where
  "fix_manifest_toml parse manifest_toml src =
     (case parse manifest_toml of
        None \<Rightarrow> Err ParseManifest
      | Some original \<Rightarrow>
          let fixed = fix_top_table src original
          in if table_eq fixed original then Ok None else Ok (Some fixed))"

definition fix_manifest ::
  "(string \<Rightarrow> toml_table option) \<Rightarrow> (toml_table \<Rightarrow> string option) \<Rightarrow> bool \<Rightarrow> path \<Rightarrow> path \<Rightarrow> files
     \<Rightarrow> files \<times> (copy_error, unit) rresult" where
  "fix_manifest parse pretty ok manifest_path src fs =
     (case read_text fs manifest_path of
        None \<Rightarrow> (fs, Err ReadManifest)
      | Some toml_str \<Rightarrow>
          (case fix_manifest_toml parse toml_str src of
             Err e \<Rightarrow> (fs, Err e)
           | Ok None \<Rightarrow> (fs, Ok ())
           | Ok (Some changed_toml) \<Rightarrow>
               (case pretty changed_toml of
                  None \<Rightarrow> (fs, Err SerializeManifest)
                | Some new_str \<Rightarrow>
                    (case write_text ok manifest_path new_str fs of
                       None \<Rightarrow> (fs, Err WriteManifest)
                     | Some fs' \<Rightarrow> (fs', Ok ())))))"

subsection \<open>Cargo's configuration\<close>

fun fix_path_list :: "path \<Rightarrow> toml list \<Rightarrow> bool \<Rightarrow> toml list \<times> bool" where
  "fix_path_list src [] changed = ([], changed)"
| "fix_path_list src (v # vs) changed =
     (let fixes = (case v of TString s \<Rightarrow> fix_path s src \<noteq> None | _ \<Rightarrow> False)
      in case fix_path_list src vs (changed \<or> fixes) of
           (ws, changed') \<Rightarrow> ((if fixes then fix_path_value src v else v) # ws, changed'))"

definition fix_cargo_config_toml ::
  "(string \<Rightarrow> toml_table option) \<Rightarrow> (toml_table \<Rightarrow> string option) \<Rightarrow> string \<Rightarrow> path
     \<Rightarrow> (copy_error, string option) rresult" where
  "fix_cargo_config_toml parse pretty config_toml src =
     (case parse config_toml of
        None \<Rightarrow> Err ParseConfig
      | Some top_table \<Rightarrow>
          (case map_of top_table ''paths'' of
             Some (TArray paths) \<Rightarrow>
               (case fix_path_list src paths False of
                  (fixed, changed) \<Rightarrow>
                    if changed
                    then (case pretty (update_key ''paths'' (\<lambda>_. TArray fixed) top_table) of
                            None \<Rightarrow> Err SerializeConfig
                          | Some s \<Rightarrow> Ok (Some s))
                    else Ok None)
           | _ \<Rightarrow> Ok None))"

definition fix_cargo_config ::
  "(string \<Rightarrow> toml_table option) \<Rightarrow> (toml_table \<Rightarrow> string option) \<Rightarrow> bool \<Rightarrow> path \<Rightarrow> path \<Rightarrow> files
     \<Rightarrow> files \<times> (copy_error, unit) rresult" where
  "fix_cargo_config parse pretty ok build_path src fs =
     (let config_path = join_path build_path ''.cargo/config.toml'' in
      if \<not> path_exists fs config_path then (fs, Ok ())
      else (case read_text fs config_path of
              None \<Rightarrow> (fs, Err ReadConfig)
            | Some toml_str \<Rightarrow>
                (case fix_cargo_config_toml parse pretty toml_str src of
                   Err e \<Rightarrow> (fs, Err e)
                 | Ok None \<Rightarrow> (fs, Ok ())
                 | Ok (Some changed_toml) \<Rightarrow>
                     (case write_text ok (join_path build_path config_path) changed_toml fs of
                        None \<Rightarrow> (fs, Err WriteConfig)
                      | Some fs' \<Rightarrow> (fs', Ok ())))))"

subsection \<open>Build directories\<close>

text \<open>\<open>bd_temp\<close>: whether the directory is removed when it is no longer used.\<close>

record build_dir =
  bd_path :: path
  bd_temp :: bool

definition name_base_of :: "path \<Rightarrow> string" where
  "name_base_of source =
     (case file_name source of
        Some name \<Rightarrow> ''cargo-mutants-'' @ name @ ''-''
      | None \<Rightarrow> ''cargo-mutants-'')"

definition copy_from ::
  "copy_world \<Rightarrow> (string \<Rightarrow> toml_table option) \<Rightarrow> (toml_table \<Rightarrow> string option) \<Rightarrow> path \<Rightarrow> options \<Rightarrow> files
     \<Rightarrow> files \<times> (copy_error, build_dir) rresult" where
  "copy_from w parse pretty source o' fs =
     (case canonicalize fs source of
        None \<Rightarrow> (fs, Err CanonicalizeSource)
      | Some source_abs \<Rightarrow>
          (case copy_tree w source (name_base_of source) o' fs of
             (fs1, Err e) \<Rightarrow> (fs1, Err e)
           | (fs1, Ok tmp) \<Rightarrow>
               (case fix_manifest parse pretty (cw_manifest_write_ok w) (join_path tmp ''Cargo.toml'') source_abs fs1 of
                  (fs2, Err e) \<Rightarrow> (remove_tree tmp fs2, Err e)
                | (fs2, Ok _) \<Rightarrow>
                    (case fix_cargo_config parse pretty (cw_config_write_ok w) tmp source_abs fs2 of
                       (fs3, Err e) \<Rightarrow> (remove_tree tmp fs3, Err e)
                     | (fs3, Ok _) \<Rightarrow> (fs3, Ok \<lparr>bd_path = tmp, bd_temp = (\<not> opt_leak_dirs o')\<rparr>)))))"

definition in_place :: "path \<Rightarrow> files \<Rightarrow> (copy_error, build_dir) rresult" where
  "in_place source fs =
     (case canonicalize fs source of
        None \<Rightarrow> Err CanonicalizeSource
      | Some p \<Rightarrow> Ok \<lparr>bd_path = p, bd_temp = False\<rparr>)"

definition for_baseline ::
  "copy_world \<Rightarrow> (string \<Rightarrow> toml_table option) \<Rightarrow> (toml_table \<Rightarrow> string option) \<Rightarrow> workspace \<Rightarrow> options \<Rightarrow> files
     \<Rightarrow> files \<times> (copy_error, build_dir) rresult" where
  "for_baseline w parse pretty ws o' fs =
     (if opt_in_place o' then (fs, in_place (ws_root ws) fs)
      else copy_from w parse pretty (ws_root ws) o' fs)"

text \<open>Dropping a build directory.\<close>

definition drop_build_dir :: "build_dir \<Rightarrow> files \<Rightarrow> files" where
  "drop_build_dir bd fs = (if bd_temp bd then remove_tree (bd_path bd) fs else fs)"

subsection \<open>What the fixed manifest holds\<close>

text \<open>The value at a path of keys, the values that are not tables, and the paths of keys at which a
  dependency's \<open>path\<close> stands.\<close>

fun toml_get :: "string list \<Rightarrow> toml \<Rightarrow> toml option" where
  "toml_get [] v = Some v"
| "toml_get (k # ks) v = (case v of TTable t \<Rightarrow> Option.bind (map_of t k) (toml_get ks) | _ \<Rightarrow> None)"

definition is_leaf :: "toml \<Rightarrow> bool" where
  "is_leaf v = (case v of TTable _ \<Rightarrow> False | _ \<Rightarrow> True)"

definition dependency_path :: "string list \<Rightarrow> bool" where
  "dependency_path ks =
     (case ks of
        [section, _, key] \<Rightarrow> (section = ''dependencies'' \<or> section = ''replace'') \<and> key = ''path''
      | [section, _, _, key] \<Rightarrow> section = ''patch'' \<and> key = ''path''
      | _ \<Rightarrow> False)"

lemma table_eq_eq:
  "toml_eq a b \<Longrightarrow> a = b" "toml_eqs as bs \<Longrightarrow> as = bs" "table_eq t u \<Longrightarrow> t = u"
  by (induction a b and as bs and t u rule: toml_eq_toml_eqs_table_eq.induct) auto

lemma map_of_update_key:
  "map_of (update_key key f t) k = (if k = key then map_option f (map_of t k) else map_of t k)"
  by (induction t) auto

lemma map_of_map_values: "map_of (map (\<lambda>(k, v). (k, f v)) t) k = map_option f (map_of t k)"
  by (induction t) auto

lemma fix_path_value_leaf [simp]: "is_leaf (fix_path_value src v) = is_leaf v"
  by (auto simp: fix_path_value_def is_leaf_def split: toml.splits option.splits)

lemma fix_path_value_table [simp]: "fix_path_value src (TTable t) = TTable t"
  by (simp add: fix_path_value_def)

text \<open>A function on values that rewriting the leaves at the paths \<open>P\<close> and leaves the others alone.\<close>

definition rewriting :: "path \<Rightarrow> (string list \<Rightarrow> bool) \<Rightarrow> (toml \<Rightarrow> toml) \<Rightarrow> bool" where
  "rewriting src P f \<longleftrightarrow>
     (\<forall>ks v w. is_leaf w \<longrightarrow>
        (toml_get ks (f v) = Some w)
        = (\<exists>u. is_leaf u \<and> toml_get ks v = Some u \<and> w = (if P ks then fix_path_value src u else u)))"

lemma rewritingI:
  assumes "\<And>ks v w. is_leaf w \<Longrightarrow> (toml_get ks (f v) = Some w)
    = (\<exists>u. is_leaf u \<and> toml_get ks v = Some u \<and> w = (if P ks then fix_path_value src u else u))"
  shows "rewriting src P f"
  using assms by (simp add: rewriting_def)

lemma rewritingD:
  "rewriting src P f \<Longrightarrow> is_leaf w \<Longrightarrow> (toml_get ks (f v) = Some w)
    = (\<exists>u. is_leaf u \<and> toml_get ks v = Some u \<and> w = (if P ks then fix_path_value src u else u))"
  by (simp add: rewriting_def)

lemma rewriting_cong:
  "rewriting src P f \<Longrightarrow> (\<And>ks. P ks = Q ks) \<Longrightarrow> (\<And>v. f v = g v) \<Longrightarrow> rewriting src Q g"
  by (simp add: rewriting_def)

lemma rewriting_path: "rewriting src (\<lambda>ks. ks = []) (fix_path_value src)"
proof (rule rewritingI)
  fix ks v w assume "is_leaf w"
  then show "(toml_get ks (fix_path_value src v) = Some w)
    = (\<exists>u. is_leaf u \<and> toml_get ks v = Some u \<and> w = (if ks = [] then fix_path_value src u else u))"
  proof (cases ks)
    case Nil
    then show ?thesis using \<open>is_leaf w\<close> fix_path_value_leaf [of src v] by auto
  next
    case (Cons k r)
    then show ?thesis using \<open>is_leaf w\<close>
      by (cases v) (auto simp: fix_path_value_def split: option.splits)
  qed
qed

lemma rewriting_key:
  assumes "rewriting src P f"
  shows "rewriting src (\<lambda>ks. \<exists>r. ks = key # r \<and> P r)
    (\<lambda>v. case v of TTable t \<Rightarrow> TTable (update_key key f t) | _ \<Rightarrow> v)"
proof (rule rewritingI)
  fix ks v w assume w: "is_leaf w"
  show "(toml_get ks (case v of TTable t \<Rightarrow> TTable (update_key key f t) | _ \<Rightarrow> v) = Some w)
    = (\<exists>u. is_leaf u \<and> toml_get ks v = Some u
         \<and> w = (if \<exists>r. ks = key # r \<and> P r then fix_path_value src u else u))"
  proof (cases ks)
    case Nil
    then show ?thesis using w by (cases v) (auto simp: is_leaf_def)
  next
    case (Cons k r)
    then show ?thesis using w
      by (cases v; cases "k = key")
        (auto simp: map_of_update_key rewritingD [OF assms w] split: option.splits bind_splits)
  qed
qed

lemma rewriting_values:
  assumes "rewriting src P f"
  shows "rewriting src (\<lambda>ks. \<exists>k r. ks = k # r \<and> P r)
    (\<lambda>v. case v of TTable t \<Rightarrow> TTable (map (\<lambda>(k, x). (k, f x)) t) | _ \<Rightarrow> v)"
proof (rule rewritingI)
  fix ks v w assume w: "is_leaf w"
  show "(toml_get ks (case v of TTable t \<Rightarrow> TTable (map (\<lambda>(k, x). (k, f x)) t) | _ \<Rightarrow> v) = Some w)
    = (\<exists>u. is_leaf u \<and> toml_get ks v = Some u
         \<and> w = (if \<exists>k r. ks = k # r \<and> P r then fix_path_value src u else u))"
  proof (cases ks)
    case Nil
    then show ?thesis using w by (cases v) (auto simp: is_leaf_def)
  next
    case (Cons k r)
    then show ?thesis using w
      by (cases v)
        (auto simp: map_of_map_values rewritingD [OF assms w] split: option.splits bind_splits)
  qed
qed

text \<open>Rewriting in turn at paths of which no two are the same.\<close>

lemma rewriting_comp:
  assumes "rewriting src P f" "rewriting src Q g" "\<And>ks. \<not> (P ks \<and> Q ks)"
  shows "rewriting src (\<lambda>ks. P ks \<or> Q ks) (\<lambda>v. f (g v))"
proof (rule rewritingI)
  fix ks v w assume w: "is_leaf w"
  have "(toml_get ks (f (g v)) = Some w)
    = (\<exists>u. is_leaf u \<and> toml_get ks (g v) = Some u \<and> w = (if P ks then fix_path_value src u else u))"
    by (rule rewritingD [OF assms(1) w])
  also have "\<dots> = (\<exists>u. is_leaf u \<and> (\<exists>x. is_leaf x \<and> toml_get ks v = Some x
      \<and> u = (if Q ks then fix_path_value src x else x)) \<and> w = (if P ks then fix_path_value src u else u))"
    by (rule ex_cong1) (use rewritingD [OF assms(2), of _ ks v] in \<open>simp cong: conj_cong\<close>)
  also have "\<dots> = (\<exists>u. is_leaf u \<and> toml_get ks v = Some u
      \<and> w = (if P ks \<or> Q ks then fix_path_value src u else u))"
    using assms(3) [of ks] by (cases "P ks"; cases "Q ks") auto
  finally show "(toml_get ks (f (g v)) = Some w) = (\<exists>u. is_leaf u \<and> toml_get ks v = Some u
      \<and> w = (if P ks \<or> Q ks then fix_path_value src u else u))" .
qed

lemma rewriting_dependency_table:
  "rewriting src (\<lambda>ks. \<exists>d. ks = [d, ''path'']) (fix_dependency_table src)"
proof -
  have "rewriting src (\<lambda>ks. \<exists>r. ks = ''path'' # r \<and> r = []) (fix_dependency src)"
    using rewriting_key [OF rewriting_path] by (simp add: fix_dependency_def [abs_def])
  from rewriting_values [OF this] show ?thesis
    by (simp add: fix_dependency_table_def [abs_def] rewriting_def)
qed

lemma rewriting_patch: "rewriting src (\<lambda>ks. \<exists>r d. ks = [r, d, ''path'']) (fix_patch src)"
  using rewriting_values [OF rewriting_dependency_table]
  by (rule rewriting_cong) (auto simp: fix_patch_def)

lemma rewriting_top:
  "rewriting src dependency_path (\<lambda>v. case v of TTable t \<Rightarrow> TTable (fix_top_table src t) | _ \<Rightarrow> v)"
proof -
  let ?at = "\<lambda>key f v. case v of TTable t \<Rightarrow> TTable (update_key key f t) | _ \<Rightarrow> (v :: toml)"
  note deps = rewriting_key [OF rewriting_dependency_table, of src "''dependencies''"]
  note repl = rewriting_key [OF rewriting_dependency_table, of src "''replace''"]
  note pat = rewriting_key [OF rewriting_patch, of src "''patch''"]
  have "rewriting src (\<lambda>ks. (\<exists>r. ks = ''patch'' # r \<and> (\<exists>q d. r = [q, d, ''path'']))
      \<or> (\<exists>r. ks = ''replace'' # r \<and> (\<exists>d. r = [d, ''path'']))
      \<or> (\<exists>r. ks = ''dependencies'' # r \<and> (\<exists>d. r = [d, ''path''])))
    (\<lambda>v. ?at ''patch'' (fix_patch src) (?at ''replace'' (fix_dependency_table src)
        (?at ''dependencies'' (fix_dependency_table src) v)))"
    by (rule rewriting_comp [OF pat rewriting_comp [OF repl deps]]) auto
  moreover have "(\<lambda>v. ?at ''patch'' (fix_patch src) (?at ''replace'' (fix_dependency_table src)
        (?at ''dependencies'' (fix_dependency_table src) v)))
    = (\<lambda>v. case v of TTable t \<Rightarrow> TTable (fix_top_table src t) | _ \<Rightarrow> v)"
    by (rule ext) (simp add: fix_top_table_def split: toml.splits)
  moreover have "(\<lambda>ks. (\<exists>r. ks = ''patch'' # r \<and> (\<exists>q d. r = [q, d, ''path'']))
      \<or> (\<exists>r. ks = ''replace'' # r \<and> (\<exists>d. r = [d, ''path'']))
      \<or> (\<exists>r. ks = ''dependencies'' # r \<and> (\<exists>d. r = [d, ''path'']))) = dependency_path"
    by (rule ext) (auto simp: dependency_path_def split: list.splits)
  ultimately show ?thesis by simp
qed

lemma fix_path_value_fixed:
  "is_absolute src \<Longrightarrow> fix_path_value src u = TString p \<Longrightarrow>
     is_absolute p \<or> (\<forall>ps. prefix ps (components p) \<longrightarrow> height ps \<le> 0)"
  using fix_path_None_iff fix_path_absolute
  by (auto simp: fix_path_value_def split: toml.splits option.splits)

lemma fix_manifest_toml_cases:
  "parse s = Some top_table \<Longrightarrow>
     fix_manifest_toml parse s src = Ok (if table_eq (fix_top_table src top_table) top_table then None
       else Some (fix_top_table src top_table))"
  by (simp add: fix_manifest_toml_def Let_def)


definition example_manifest :: toml_table where
  "example_manifest =
     [(''dependencies'', TTable [(''util'', TTable [(''path'', TString ''../util'')])]),
      (''dev-dependencies'', TTable [(''help'', TTable [(''path'', TString ''../help'')])])]"

lemma example_fix:
  "fix_path ''../util'' ''/work/tree'' = Some ''/work/tree/../util''"
  "fix_path ''../help'' ''/work/tree'' = Some ''/work/tree/../help''"
  by (simp_all add: fix_path_def ascent_def components_def is_absolute_def starts_with_def join_path_def)


text \<open>Only those three tables are looked at: a path of a development dependency that climbs out of the tree
  is left as it is, and from the copy leads somewhere else.\<close>

lemma dev_dependencies_left_alone:
  "fix_manifest_toml (\<lambda>_. Some [(''dev-dependencies'', TTable [(''help'', TTable [(''path'', TString ''../help'')])])])
     ''m'' ''/work/tree'' = Ok None \<and> fix_path ''../help'' ''/work/tree'' \<noteq> None"
  by (simp add: fix_manifest_toml_def fix_top_table_def example_fix)

subsection \<open>What the copy holds\<close>

text \<open>A map of files that is a tree below the root.\<close>

definition tree_shaped :: "files \<Rightarrow> bool" where
  "tree_shaped fs \<longleftrightarrow> (\<forall>k c. k \<noteq> [] \<longrightarrow> fs (k @ [c]) \<noteq> None \<longrightarrow> fs k = Some Directory)"

text \<open>The source directory, and where nothing is yet, outside it, the directory to be made.\<close>

definition copy_setting :: "files \<Rightarrow> string list \<Rightarrow> string list \<Rightarrow> bool" where
  "copy_setting fs from dest \<longleftrightarrow>
     tree_shaped fs \<and> fs from = Some Directory \<and> dest \<noteq> []
     \<and> (\<forall>k. prefix dest k \<longrightarrow> fs k = None) \<and> \<not> prefix from dest
     \<and> (\<forall>p. strict_prefix p dest \<and> p \<noteq> [] \<longrightarrow> fs p = Some Directory)"

definition kind_of :: "fnode \<Rightarrow> file_kind" where
  "kind_of n = (case n of Regular _ \<Rightarrow> KindFile | Directory \<Rightarrow> KindDir | Symlink _ \<Rightarrow> KindSymlink | OtherNode \<Rightarrow> KindOther)"

text \<open>The entries the walk is to find: what is there, with no entry on the way to it filtered out.\<close>

definition kept :: "files \<Rightarrow> string list \<Rightarrow> (string list \<Rightarrow> bool) \<Rightarrow> string list \<Rightarrow> bool" where
  "kept fs from keep rel \<longleftrightarrow> fs (from @ rel) \<noteq> None \<and> (\<forall>p. prefix p rel \<and> p \<noteq> [] \<longrightarrow> keep p)"

fun parents_first :: "string list list \<Rightarrow> string list list \<Rightarrow> bool" where
  "parents_first seen [] = True"
| "parents_first seen (r # rs) = (r \<notin> set seen \<and> (r = [] \<or> butlast r \<in> set seen) \<and> parents_first (r # seen) rs)"

text \<open>What the crate's walk promises: every entry to be found once, directories before what they hold,
  each with its type.\<close>

definition walk_lists :: "files \<Rightarrow> string list \<Rightarrow> (string list \<Rightarrow> bool) \<Rightarrow> walk_entry list \<Rightarrow> bool" where
  "walk_lists fs from keep es \<longleftrightarrow>
     (\<forall>rel. rel \<in> en_rel ` set es \<longleftrightarrow> kept fs from keep rel)
     \<and> (\<forall>e \<in> set es. en_kind e = map_option kind_of (fs (from @ en_rel e)))
     \<and> parents_first [] (map en_rel es)"

text \<open>Sockets, devices and the like are not copied.\<close>

definition copied :: "fnode option \<Rightarrow> fnode option" where
  "copied n = (if n = Some OtherNode then None else n)"

definition copy_of :: "files \<Rightarrow> string list \<Rightarrow> string list \<Rightarrow> string list set \<Rightarrow> files" where
  "copy_of fs from dest done' =
     (\<lambda>k. if prefix dest k
          then (if drop (length dest) k = [] then Some Directory
                else if drop (length dest) k \<in> done' then copied (fs (from @ drop (length dest) k)) else None)
          else fs k)"

lemma copy_of_below [simp]:
  "copy_of fs from dest s (dest @ rel)
     = (if rel = [] then Some Directory else if rel \<in> s then copied (fs (from @ rel)) else None)"
  by (simp add: copy_of_def)

lemma copy_of_dest [simp]: "copy_of fs from dest s dest = Some Directory"
  by (simp add: copy_of_def)

lemma copy_of_outside: "\<not> prefix dest k \<Longrightarrow> copy_of fs from dest s k = fs k"
  by (simp add: copy_of_def)

lemma copy_of_insert:
  assumes "rel \<noteq> []" "rel \<notin> s"
  shows "copy_of fs from dest (insert rel s)
    = (case copied (fs (from @ rel)) of
         None \<Rightarrow> copy_of fs from dest s
       | Some n \<Rightarrow> (copy_of fs from dest s)(dest @ rel \<mapsto> n))"
  using assms by (auto simp: copy_of_def prefix_def split: option.splits intro!: ext)

lemma create_dirs_last:
  "cs \<noteq> [] \<Longrightarrow> (\<And>p. strict_prefix p cs \<Longrightarrow> p \<noteq> [] \<Longrightarrow> fs (base @ p) = Some Directory) \<Longrightarrow>
     create_dirs base cs fs
       = (case fs (base @ cs) of
            None \<Rightarrow> Some (fs(base @ cs \<mapsto> Directory)) | Some Directory \<Rightarrow> Some fs | _ \<Rightarrow> None)"
proof (induction base cs fs rule: create_dirs.induct)
  case (2 base c cs fs)
  show ?case
  proof (cases "cs = []")
    case True
    then show ?thesis by (auto split: option.splits fnode.splits)
  next
    case False
    then have dir: "fs (base @ [c]) = Some Directory" using "2.prems"(2) [of "[c]"] by (auto simp: strict_prefix_def)
    have "fs ((base @ [c]) @ p) = Some Directory" if "strict_prefix p cs" "p \<noteq> []" for p
      using "2.prems"(2) [of "c # p"] that by simp
    with "2.IH"(2) [OF dir refl False] dir show ?thesis by (auto split: option.splits fnode.splits)
  qed
qed simp

text \<open>One entry: what it adds to the copy, when it succeeds and when it must.\<close>

definition calls_succeed :: "copy_world \<Rightarrow> bool" where
  "calls_succeed w \<longleftrightarrow>
     (\<forall>i. \<not> cw_interrupted w i) \<and> (\<forall>r. cw_mtime_ok w r \<and> cw_metadata_ok w r \<and> cw_copy_ok w r
       \<and> cw_create_dir_ok w r \<and> cw_read_link_ok w r \<and> cw_symlink_ok w r)"

lemma new_node_Some:
  "new_node k nd fs = Some fs' \<longleftrightarrow> fs (butlast k) = Some Directory \<and> fs k \<noteq> Some Directory \<and> fs' = fs(k \<mapsto> nd)"
  by (auto simp: new_node_def)

lemma copy_file_result:
  assumes "cs_files st src = Some (Regular s)" "cs_files st (butlast k) = Some Directory" "cs_files st k = None"
  shows "copy_file w rel src k st = (st', Ok n) \<Longrightarrow> cs_files st' = (cs_files st)(k \<mapsto> Regular s)"
    and "copy_file w rel src k st = (st', Err x) \<Longrightarrow> j \<noteq> k \<Longrightarrow> cs_files st' j = cs_files st j"
    and "calls_succeed w \<Longrightarrow> \<exists>st' n. copy_file w rel src k st = (st', Ok n)"
  using assms by (auto simp: copy_file_def source_text_def new_node_def Let_def calls_succeed_def split: if_splits)

lemma copy_symlink_result:
  assumes "fs src = Some (Symlink t)" "fs (butlast k) = Some Directory" "fs k = None"
  shows "copy_symlink w rel src k fs = (fs', Ok u) \<Longrightarrow> fs' = fs(k \<mapsto> Symlink t)"
    and "copy_symlink w rel src k fs = (fs', Err x) \<Longrightarrow> fs' = fs"
    and "calls_succeed w \<Longrightarrow> \<exists>fs'. copy_symlink w rel src k fs = (fs', Ok ())"
  using assms by (auto simp: copy_symlink_def new_node_def calls_succeed_def split: if_splits)

lemma from_outside: "copy_setting fs from dest \<Longrightarrow> fs (from @ rel) \<noteq> None \<Longrightarrow> \<not> prefix dest (from @ rel)"
  by (auto simp: copy_setting_def)

lemma parent_of_kept:
  assumes "copy_setting fs from dest" "fs (from @ rel) \<noteq> None" "rel \<noteq> []"
  shows "fs (from @ butlast rel) = Some Directory"
proof -
  obtain r c where rel: "rel = r @ [c]" using assms(3) by (metis rev_exhaust)
  show ?thesis
  proof (cases "from @ r = []")
    case True
    then show ?thesis using assms(1) rel by (simp add: copy_setting_def)
  next
    case False
    then show ?thesis using assms(1,2) rel unfolding copy_setting_def tree_shaped_def by (metis append_assoc butlast_snoc)
  qed
qed

lemma source_in_copy:
  "copy_setting fs from dest \<Longrightarrow> fs (from @ rel) \<noteq> None \<Longrightarrow> copy_of fs from dest s (from @ rel) = fs (from @ rel)"
  using from_outside by (simp add: copy_of_outside)

lemma parents_in_copy:
  assumes setting: "copy_setting fs from dest"
    and a: "\<forall>r \<in> s. fs (from @ r) \<noteq> None \<and> (r \<noteq> [] \<longrightarrow> butlast r \<in> s)" "rel = [] \<or> butlast rel \<in> s"
    "fs (from @ rel) \<noteq> None" "strict_prefix p (dest @ rel)" "p \<noteq> []"
  shows "copy_of fs from dest s p = Some Directory"
proof (cases "prefix dest p")
  case False
  then have "strict_prefix p dest" using a(4) by (auto simp: strict_prefix_def prefix_append)
  then show ?thesis using setting False a(5) by (simp add: copy_setting_def copy_of_outside)
next
  case True
  then obtain q where p: "p = dest @ q" by (auto simp: prefix_def)
  have "q \<noteq> [] \<longrightarrow> q \<in> s \<and> fs (from @ q) = Some Directory" if "strict_prefix q r" "r = [] \<or> butlast r \<in> s"
      "fs (from @ r) \<noteq> None" for r
    using that
  proof (induction r rule: rev_induct)
    case (snoc c r)
    have d: "fs (from @ r) = Some Directory" using parent_of_kept [OF setting, of "r @ [c]"] snoc.prems by simp
    have "q = r \<or> strict_prefix q r" using snoc.prems(1) by (metis prefix_snoc strict_prefix_def)
    then show ?case using snoc d a(1) by auto
  qed simp
  moreover have "strict_prefix q rel" using a(4) p by (auto simp: strict_prefix_def)
  ultimately show ?thesis using a(2,3) p by (simp add: copied_def)
qed

lemma copy_entry_result:
  assumes setting: "copy_setting fs from dest" and files: "cs_files st = copy_of fs from dest s"
    and closed: "\<forall>r \<in> s. fs (from @ r) \<noteq> None \<and> (r \<noteq> [] \<longrightarrow> butlast r \<in> s)"
    and rel: "en_rel e \<notin> s" "en_rel e = [] \<or> butlast (en_rel e) \<in> s"
    and node: "fs (from @ en_rel e) = Some n" "en_kind e = Some (kind_of n)"
  shows "copy_entry w from dest e st = (st', Ok u) \<Longrightarrow> cs_files st' = copy_of fs from dest (insert (en_rel e) s)"
    and "copy_entry w from dest e st = (st', Err x) \<Longrightarrow> \<not> prefix dest k \<Longrightarrow> cs_files st' k = fs k"
    and "calls_succeed w \<Longrightarrow> utf8 (path_of (dest @ en_rel e)) \<Longrightarrow> \<exists>st'. copy_entry w from dest e st = (st', Ok ())"
proof -
  let ?rel = "en_rel e" and ?fs = "copy_of fs from dest s"
  have dest: "dest \<noteq> []" using setting by (simp add: copy_setting_def)
  have some: "fs (from @ ?rel) \<noteq> None" using node by simp
  have src: "cs_files st (from @ ?rel) = Some n" using source_in_copy [OF setting some] files node by simp
  have root: "?rel = [] \<Longrightarrow> n = Directory" using setting node by (simp add: copy_setting_def)
  have empty: "?rel \<noteq> [] \<Longrightarrow> cs_files st (dest @ ?rel) = None" using rel files by simp
  have parent: "?rel \<noteq> [] \<Longrightarrow> cs_files st (butlast (dest @ ?rel)) = Some Directory"
  proof -
    assume ne: "?rel \<noteq> []"
    have "strict_prefix (butlast (dest @ ?rel)) (dest @ ?rel)"
      using ne by (simp add: butlast_append strict_prefix_def prefix_def)
        (metis append_butlast_last_id append_self_conv not_Cons_self2)
    moreover have "butlast (dest @ ?rel) \<noteq> []" using ne dest by (simp add: butlast_append)
    ultimately have "?fs (butlast (dest @ ?rel)) = Some Directory"
      by (rule parents_in_copy [OF setting closed rel(2) some])
    then show ?thesis using files by simp
  qed
  have dirs: "create_dirs [] (dest @ ?rel) ?fs
      = (case ?fs (dest @ ?rel) of
            None \<Rightarrow> Some (?fs(dest @ ?rel \<mapsto> Directory)) | Some Directory \<Rightarrow> Some ?fs | _ \<Rightarrow> None)"
    using create_dirs_last [of "dest @ ?rel" ?fs "[]"] parents_in_copy [OF setting closed rel(2) some] dest rel(1)
    by (cases "?rel = []") simp_all
  have ins: "copy_of fs from dest (insert ?rel s)
      = (if ?rel = [] then ?fs else case copied (Some n) of None \<Rightarrow> ?fs | Some m \<Rightarrow> ?fs(dest @ ?rel \<mapsto> m))"
    using copy_of_insert [of ?rel s fs "from" dest] rel(1) node by (auto simp: copy_of_def)
  have out: "\<not> prefix dest k \<Longrightarrow> ?fs k = fs k \<and> k \<noteq> dest @ ?rel" by (auto simp: copy_of_outside)
  show "copy_entry w from dest e st = (st', Ok u) \<Longrightarrow> cs_files st' = copy_of fs from dest (insert ?rel s)"
    using copy_file_result(1) [OF _ parent empty] copy_symlink_result(1) [OF _ parent empty] src root dirs ins node(2) files rel(1)
    by (cases n; cases "?rel = []")
      (auto simp: copy_entry_def kind_of_def Let_def copied_def split: if_splits prod.splits sum.splits option.splits)
  have link: "copy_symlink w ?rel (from @ ?rel) (dest @ ?rel) ?fs = (fs', Err y) \<Longrightarrow> n = Symlink t \<Longrightarrow> ?rel \<noteq> []
      \<Longrightarrow> fs' = ?fs" for fs' y t
    using copy_symlink_result(2) [OF _ parent empty] src files by simp
  show "copy_entry w from dest e st = (st', Err x) \<Longrightarrow> \<not> prefix dest k \<Longrightarrow> cs_files st' k = fs k"
    using copy_file_result(2) [OF _ parent empty] link src root node(2) files out
    by (cases n; cases "?rel = []")
      (auto simp: copy_entry_def kind_of_def Let_def split: if_splits prod.splits sum.splits option.splits dest: link)
  have reg: "\<exists>st' m. copy_file w ?rel (from @ ?rel) (dest @ ?rel) st = (st', Ok m)"
    if "calls_succeed w" "n = Regular t" "?rel \<noteq> []" for t
    using copy_file_result(3) [OF _ parent empty] src that by simp
  have sym: "\<exists>fs'. copy_symlink w ?rel (from @ ?rel) (dest @ ?rel) ?fs = (fs', Ok ())"
    if "calls_succeed w" "n = Symlink t" "?rel \<noteq> []" for t
    using copy_symlink_result(3) [OF _ parent empty] src files that by simp
  have mk: "calls_succeed w \<Longrightarrow> cw_create_dir_ok w ?rel" by (simp add: calls_succeed_def)
  show "calls_succeed w \<Longrightarrow> utf8 (path_of (dest @ ?rel)) \<Longrightarrow> \<exists>st'. copy_entry w from dest e st = (st', Ok ())"
    using reg sym mk root dirs node(2) files rel(1)
    by (cases n; cases "?rel = []") (auto simp: copy_entry_def kind_of_def Let_def)
qed

lemma copy_entries_result:
  assumes setting: "copy_setting fs from dest"
  shows "cs_files st = copy_of fs from dest (set seen) \<Longrightarrow>
    \<forall>r \<in> set seen. fs (from @ r) \<noteq> None \<and> (r \<noteq> [] \<longrightarrow> butlast r \<in> set seen) \<Longrightarrow>
    parents_first seen (map en_rel es) \<Longrightarrow>
    \<forall>e \<in> set es. fs (from @ en_rel e) \<noteq> None \<and> en_kind e = map_option kind_of (fs (from @ en_rel e)) \<Longrightarrow>
    copy_entries w from dest i (map Ok es) st = (st', res) \<Longrightarrow>
    (res = Ok u \<longrightarrow> cs_files st' = copy_of fs from dest (set seen \<union> en_rel ` set es))
    \<and> (\<not> prefix dest k \<longrightarrow> cs_files st' k = fs k)
    \<and> (calls_succeed w \<and> (\<forall>e \<in> set es. utf8 (path_of (dest @ en_rel e))) \<longrightarrow> res = Ok ())"
proof (induction es arbitrary: seen st i)
  case Nil
  then show ?case by (auto simp: copy_of_outside)
next
  case (Cons e es)
  obtain n where n: "fs (from @ en_rel e) = Some n" "en_kind e = Some (kind_of n)" using Cons.prems(4) by auto
  have new: "en_rel e \<notin> set seen" "en_rel e = [] \<or> butlast (en_rel e) \<in> set seen" using Cons.prems(3) by simp_all
  note step = copy_entry_result [OF setting Cons.prems(1,2) new n, of w]
  show ?case
  proof (cases "cw_interrupted w i")
    case True
    then show ?thesis using Cons.prems(1,5) by (auto simp: copy_of_outside calls_succeed_def)
  next
    case False
    obtain st1 r1 where s1: "copy_entry w from dest e st = (st1, r1)" by fastforce
    show ?thesis
    proof (cases r1)
      case (Inl x)
      then show ?thesis using Cons.prems(5) False s1 step(2) [of st1 x] step(3) by (auto split: if_splits)
    next
      case (Inr v)
      have closed: "\<forall>r \<in> set (en_rel e # seen). fs (from @ r) \<noteq> None
          \<and> (r \<noteq> [] \<longrightarrow> butlast r \<in> set (en_rel e # seen))"
        using Cons.prems(2) new n by auto
      have files: "cs_files st1 = copy_of fs from dest (set (en_rel e # seen))" using step(1) s1 Inr by simp
      have rest: "copy_entries w from dest (i + 1) (map Ok es) st1 = (st', res)"
        using Cons.prems(5) False s1 Inr by simp
      show ?thesis using Cons.IH [OF files closed _ _ rest] Cons.prems(3,4) by simp
    qed
  qed
qed

lemma copy_tree_result:
  assumes "copy_setting fs (components from) (components tmp)" "utf8 tmp" "cw_temp w base = Some tmp"
    and "cw_walk w (walk_settings_of o') (filter_entry o' (components from)) = map Ok es"
    and "walk_lists fs (components from) keep es"
  shows "copy_tree w from base o' fs = (fs', Ok p) \<Longrightarrow>
      p = tmp \<and> fs' = copy_of fs (components from) (components tmp) (en_rel ` set es)"
    and "copy_tree w from base o' fs = (fs', Err x) \<Longrightarrow> fs' = fs"
    and "calls_succeed w \<Longrightarrow> \<forall>e \<in> set es. utf8 (path_of (components tmp @ en_rel e)) \<Longrightarrow>
      is_ok (snd (copy_tree w from base o' fs))"
proof -
  let ?S = "components from" and ?D = "components tmp"
  let ?st = "\<lparr>cs_files = fs(?D \<mapsto> Directory), cs_reflink_supported = True, cs_total_bytes = 0, cs_total_files = 0\<rparr>"
  obtain st' res where run: "copy_entries w ?S ?D 0 (map Ok es) ?st = (st', res)" by fastforce
  have empty: "prefix ?D k \<Longrightarrow> fs k = None" for k using assms(1) by (simp add: copy_setting_def)
  have start: "cs_files ?st = copy_of fs ?S ?D (set [])"
    using empty by (auto simp: copy_of_def prefix_def intro!: ext)
  have listed: "\<forall>e \<in> set es. fs (?S @ en_rel e) \<noteq> None \<and> en_kind e = map_option kind_of (fs (?S @ en_rel e))"
    using assms(5) by (auto simp: walk_lists_def kept_def)
  have result: "(res = Ok () \<longrightarrow> cs_files st' = copy_of fs ?S ?D (en_rel ` set es))
    \<and> (\<not> prefix ?D k \<longrightarrow> cs_files st' k = fs k)
    \<and> (calls_succeed w \<and> (\<forall>e \<in> set es. utf8 (path_of (?D @ en_rel e))) \<longrightarrow> res = Ok ())" for k
    using copy_entries_result [OF assms(1) start _ _ listed run, of "()" k] assms(5) by (simp add: walk_lists_def)
  have tree: "copy_tree w from base o' fs
      = (case res of Err x \<Rightarrow> (remove_tree tmp (cs_files st'), Err x) | Ok _ \<Rightarrow> (cs_files st', Ok tmp))"
    using assms(2,3,4) run by (simp add: copy_tree_def Let_def split: sum.splits)
  have gone: "remove_tree tmp (cs_files st') = fs"
    using result empty by (auto simp: remove_tree_def intro!: ext)
  show "copy_tree w from base o' fs = (fs', Ok p) \<Longrightarrow> p = tmp \<and> fs' = copy_of fs ?S ?D (en_rel ` set es)"
    "copy_tree w from base o' fs = (fs', Err x) \<Longrightarrow> fs' = fs"
    "calls_succeed w \<Longrightarrow> \<forall>e \<in> set es. utf8 (path_of (?D @ en_rel e)) \<Longrightarrow> is_ok (snd (copy_tree w from base o' fs))"
    using tree result gone by (auto split: sum.splits)
qed

lemma copy_of_listed:
  assumes "copy_setting fs from dest" "walk_lists fs from keep es"
  shows "copy_of fs from dest (en_rel ` set es) k = (case strip_prefix dest k of
      None \<Rightarrow> fs k | Some rel \<Rightarrow> if kept fs from keep rel then copied (fs (from @ rel)) else None)"
proof (cases "prefix dest k")
  case True
  then obtain rel where k: "k = dest @ rel" by (auto simp: prefix_def)
  have "kept fs from keep [] \<and> copied (fs from) = Some Directory"
    using assms(1) by (simp add: kept_def copy_setting_def copied_def)
  then show ?thesis using assms(2) k by (auto simp: walk_lists_def)
next
  case False
  then show ?thesis by (cases "strip_prefix dest k") (auto simp: copy_of_outside strip_prefix_Some)
qed


definition example_tree :: files where
  "example_tree = map_of
     [([''/''], Directory), ([''/'', ''t''], Directory), ([''/'', ''w''], Directory),
      ([''/'', ''w'', ''Cargo.toml''], Regular ''m''), ([''/'', ''w'', ''target''], Directory)]"

definition copy_example :: "walk_entry list \<Rightarrow> copy_world" where
  "copy_example es =
     \<lparr>cw_temp = (\<lambda>_. Some ''/t/c''), cw_walk = (\<lambda>_ _. map Ok es), cw_interrupted = (\<lambda>_. False),
      cw_reflink = (\<lambda>_. False), cw_mtime_ok = (\<lambda>_. True), cw_metadata_ok = (\<lambda>_. True), cw_copy_ok = (\<lambda>_. True),
      cw_create_dir_ok = (\<lambda>_. True), cw_read_link_ok = (\<lambda>_. True), cw_symlink_ok = (\<lambda>_. True),
      cw_manifest_write_ok = True, cw_config_write_ok = True\<rparr>"

definition example_entries :: "walk_entry list" where
  "example_entries =
     [\<lparr>en_rel = [], en_kind = Some KindDir\<rparr>, \<lparr>en_rel = [''Cargo.toml''], en_kind = Some KindFile\<rparr>]"

lemma example_components:
  "components ''/w'' = [''/'', ''w'']" "components ''/t/c'' = [''/'', ''t'', ''c'']"
  by (simp_all add: components_def is_absolute_def starts_with_def)

lemma map_of_tree_shaped:
  "list_all (\<lambda>(k, _). length k \<le> 1 \<or> map_of t (butlast k) = Some Directory) t \<Longrightarrow> tree_shaped (map_of t)"
proof -
  assume t: "list_all (\<lambda>(k, _). length k \<le> 1 \<or> map_of t (butlast k) = Some Directory) t"
  have "map_of t k = Some Directory" if "k \<noteq> []" "map_of t (k @ [c]) = Some n" for k c n
  proof -
    have "(k @ [c], n) \<in> set t" using that(2) by (rule map_of_SomeD)
    with t have "length (k @ [c]) \<le> 1 \<or> map_of t (butlast (k @ [c])) = Some Directory"
      unfolding list_all_iff by blast
    with that(1) show ?thesis by auto
  qed
  then show ?thesis unfolding tree_shaped_def by blast
qed

lemma example_setting: "copy_setting example_tree (components ''/w'') (components ''/t/c'')"
proof -
  have "tree_shaped example_tree"
    unfolding example_tree_def by (rule map_of_tree_shaped) simp
  then show ?thesis
    by (auto simp: copy_setting_def example_components example_tree_def strict_prefix_def prefix_Cons)
qed

lemma example_walk:
  "walk_lists example_tree (components ''/w'')
     (filter_entry o' (components ''/w'')) example_entries" if "\<not> opt_copy_target o'"
proof -
  have keep: "filter_entry o' [''/'', ''w''] [''Cargo.toml'']" "\<not> filter_entry o' [''/'', ''w''] [''target'']"
    using that by (simp_all add: filter_entry_def VCS_DIRS_def)
  have "rel \<in> {[], [''Cargo.toml'']} \<longleftrightarrow> kept example_tree [''/'', ''w''] (filter_entry o' [''/'', ''w'']) rel" for rel
    using keep by (auto simp: kept_def example_tree_def prefix_Cons split: if_splits)
  then show ?thesis
    by (simp add: walk_lists_def example_components example_entries_def example_tree_def kind_of_def)
qed


subsection \<open>What making a build directory leaves alone\<close>

text \<open>A path on which no link stands leads to itself, if anywhere.\<close>

lemma resolve_no_links:
  "''.'' \<notin> set cs \<Longrightarrow> ''..'' \<notin> set cs \<Longrightarrow>
   (\<And>p t. prefix p cs \<Longrightarrow> p \<noteq> [] \<Longrightarrow> fs (dir @ p) \<noteq> Some (Symlink t)) \<Longrightarrow>
   resolve n fs dir cs = None \<or> resolve n fs dir cs = Some (dir @ cs)"
proof (induction n fs dir cs rule: resolve.induct)
  case (2 n fs dir c cs)
  have here: "fs (dir @ [c]) \<noteq> Some (Symlink t)" for t using "2.prems"(3) [of "[c]" t] by simp
  have deeper: "fs ((dir @ [c]) @ p) \<noteq> Some (Symlink t)" if "prefix p cs" "p \<noteq> []" for p t
    using "2.prems"(3) [of "c # p" t] that by simp
  have c: "c \<noteq> ''.''" "c \<noteq> ''..''" using "2.prems" by auto
  show ?case
  proof (cases "fs (dir @ [c])")
    case None
    then show ?thesis using c by simp
  next
    case (Some nd)
    then show ?thesis using c here deeper "2.IH"(4) [of nd] "2.prems"(1,2)
      by (cases nd) simp_all
  qed
qed simp

lemma kind_of_iff [simp]:
  "kind_of n = KindDir \<longleftrightarrow> n = Directory" "KindDir = kind_of n \<longleftrightarrow> n = Directory"
  "kind_of n = KindSymlink \<longleftrightarrow> (\<exists>t. n = Symlink t)" "KindSymlink = kind_of n \<longleftrightarrow> (\<exists>t. n = Symlink t)"
  "kind_of Directory = KindDir" "kind_of (Symlink t) = KindSymlink"
  by (auto simp: kind_of_def split: fnode.splits)

text \<open>Only one regular file is written, and it stays one.\<close>

definition rewritten :: "string list \<Rightarrow> files \<Rightarrow> files \<Rightarrow> bool" where
  "rewritten k fs fs' \<longleftrightarrow> fs' = fs \<or> (\<exists>s s'. fs k = Some (Regular s) \<and> fs' = fs(k \<mapsto> Regular s'))"

lemma rewritten_refl [simp]: "rewritten k fs fs"
  by (simp add: rewritten_def)

lemma rewritten_at: "rewritten k fs fs' \<Longrightarrow> j \<noteq> k \<Longrightarrow> fs' j = fs j"
  by (auto simp: rewritten_def)

lemma rewritten_kind: "rewritten k fs fs' \<Longrightarrow> map_option kind_of (fs' j) = map_option kind_of (fs j)"
  by (auto simp: rewritten_def kind_of_def)

lemma read_write_rewritten:
  assumes "real_path fs p = None \<or> real_path fs p = Some k" "read_text fs p = Some s" "write_text ok p s' fs = Some fs'"
  shows "rewritten k fs fs'"
  using assms by (auto simp: read_text_def write_text_def rewritten_def split: option.splits fnode.splits if_splits)

lemma fix_manifest_rewritten:
  assumes "real_path fs p = None \<or> real_path fs p = Some k" "fix_manifest parse pretty ok p src fs = (fs', r)"
  shows "rewritten k fs fs'"
  using assms read_write_rewritten [OF assms(1)]
  by (auto simp: fix_manifest_def split: option.splits sum.splits)

lemma fix_cargo_config_rewritten:
  assumes "join_path d (join_path d ''.cargo/config.toml'') = join_path d ''.cargo/config.toml''"
    "real_path fs (join_path d ''.cargo/config.toml'') = None \<or> real_path fs (join_path d ''.cargo/config.toml'') = Some k"
    "fix_cargo_config parse pretty ok d src fs = (fs', r)"
  shows "rewritten k fs fs'"
  using assms read_write_rewritten [OF assms(2)]
  by (auto simp: fix_cargo_config_def Let_def split: option.splits sum.splits if_splits)

lemma path_in_copy:
  assumes "last d \<noteq> CHR ''/''" "is_absolute d" "\<not> is_absolute p"
  shows "components (join_path d p) = components d @ filter (\<lambda>c. c \<noteq> [] \<and> c \<noteq> ''.'') (split_char CHR ''/'' p)"
  using components_join [of d p] assms by (cases d) (auto simp: is_absolute_def starts_with_def)

lemma remove_copy:
  assumes "\<And>k. prefix (components tmp) k \<Longrightarrow> fs k = None" "\<And>k. \<not> prefix (components tmp) k \<Longrightarrow> fs' k = fs k"
  shows "remove_tree tmp fs' = fs"
  using assms by (auto simp: remove_tree_def intro!: ext)

definition manifest_key :: "string list" where "manifest_key = [''Cargo.toml'']"
definition config_key :: "string list" where "config_key = [''.cargo'', ''config.toml'']"

text \<open>Neither the manifest nor cargo's configuration is reached through a link.\<close>

definition no_links_to_settings :: "files \<Rightarrow> string list \<Rightarrow> bool" where
  "no_links_to_settings fs from \<longleftrightarrow>
     (\<forall>rel \<in> {manifest_key, [''.cargo''], config_key}. \<forall>t. fs (from @ rel) \<noteq> Some (Symlink t))"

definition real_directory :: "path \<Rightarrow> bool" where
  "real_directory p \<longleftrightarrow> is_absolute p \<and> last p \<noteq> CHR ''/'' \<and> ''..'' \<notin> set (components p)"

lemma absolute_no_dot: "is_absolute p \<Longrightarrow> ''.'' \<notin> set (components p)"
  by (simp add: components_def)

lemma real_path_in_copy:
  assumes "real_directory tmp" "\<And>p. prefix p (components tmp) \<Longrightarrow> p \<noteq> [] \<Longrightarrow> fs p = Some Directory"
    and "\<not> is_absolute q" "filter (\<lambda>c. c \<noteq> [] \<and> c \<noteq> ''.'') (split_char CHR ''/'' q) = rel" "''..'' \<notin> set rel"
    and "\<And>p t. prefix p rel \<Longrightarrow> p \<noteq> [] \<Longrightarrow> fs (components tmp @ p) \<noteq> Some (Symlink t)"
  shows "real_path fs (join_path tmp q) = None \<or> real_path fs (join_path tmp q) = Some (components tmp @ rel)"
proof -
  have cs: "components (join_path tmp q) = components tmp @ rel"
    using path_in_copy [of tmp q] assms(1,3,4) by (simp add: real_directory_def)
  have "''.'' \<notin> set rel" using assms(4) by auto
  then have dots: "''.'' \<notin> set (components tmp @ rel)" "''..'' \<notin> set (components tmp @ rel)"
    using assms(1,5) absolute_no_dot by (auto simp: real_directory_def)
  have "fs ([] @ p) \<noteq> Some (Symlink t)" if pre: "prefix p (components tmp @ rel)" "p \<noteq> []" for p t
  proof (cases "prefix p (components tmp)")
    case True
    then show ?thesis using assms(2) pre(2) by simp
  next
    case False
    then obtain us where "p = components tmp @ us" "prefix us rel" "us \<noteq> []"
      using pre(1) by (auto simp: prefix_append)
    then show ?thesis using assms(6) by simp
  qed
  from resolve_no_links [of "components tmp @ rel" fs "[]" MAX_LINKS, OF dots this] show ?thesis by (simp add: real_path_def cs)
qed

lemma map_kind_iff:
  "map_option kind_of x = Some KindDir \<longleftrightarrow> x = Some Directory"
  "map_option kind_of x = Some KindSymlink \<longleftrightarrow> (\<exists>t. x = Some (Symlink t))"
  by (cases x; auto)+

lemma tree_shaped_kinds:
  "tree_shaped fs \<longleftrightarrow> (\<forall>k c. k \<noteq> [] \<longrightarrow> map_option kind_of (fs (k @ [c])) \<noteq> None
     \<longrightarrow> map_option kind_of (fs k) = Some KindDir)"
  by (simp add: tree_shaped_def map_kind_iff)

lemma tree_shaped_rewritten: "rewritten k fs fs' \<Longrightarrow> tree_shaped fs \<Longrightarrow> tree_shaped fs'"
  using rewritten_kind [of k fs fs'] by (simp add: tree_shaped_kinds)

lemma copy_of_tree_shaped:
  assumes "copy_setting fs from dest" "\<forall>r \<in> s. kept fs from keep r" "\<forall>r. kept fs from keep r \<longrightarrow> r \<in> s"
  shows "tree_shaped (copy_of fs from dest s)"
  unfolding tree_shaped_def
proof (intro allI impI)
  fix k c assume k: "k \<noteq> []" and some: "copy_of fs from dest s (k @ [c]) \<noteq> None"
  show "copy_of fs from dest s k = Some Directory"
  proof (cases "prefix dest k")
    case True
    then obtain rel where rel: "k = dest @ rel" by (auto simp: prefix_def)
    with some have kept: "kept fs from keep (rel @ [c])" using assms(2) copy_of_below [of fs "from" dest s "rel @ [c]"]
      by (auto split: if_splits)
    then have "fs (from @ rel) = Some Directory"
      using parent_of_kept [OF assms(1), of "rel @ [c]"] by (simp add: kept_def)
    moreover have "rel \<noteq> [] \<Longrightarrow> rel \<in> s" using kept calculation assms(3) by (simp add: kept_def)
    ultimately show ?thesis using rel by (simp add: copied_def)
  next
    case False
    show ?thesis
    proof (cases "prefix dest (k @ [c])")
      case True
      then have "k @ [c] = dest" using False by auto
      then show ?thesis using assms(1) k False by (auto simp: copy_setting_def copy_of_outside strict_prefix_def)
    next
      case outside: False
      then have "fs (k @ [c]) \<noteq> None" using some by (simp add: copy_of_outside)
      then have "fs k = Some Directory" using assms(1) k unfolding copy_setting_def tree_shaped_def by blast
      then show ?thesis using False by (simp add: copy_of_outside)
    qed
  qed
qed

lemma copy_from_cases:
  assumes "copy_setting fs (components source) (components tmp)" "utf8 tmp" "real_directory tmp"
    and "cw_temp w (name_base_of source) = Some tmp"
    and "cw_walk w (walk_settings_of o') (filter_entry o' (components source)) = map Ok es"
    and "walk_lists fs (components source) keep es" "no_links_to_settings fs (components source)"
    and "copy_from w parse pretty source o' fs = (fs', r)"
  shows "(\<exists>e. r = Err e \<and> fs' = fs)
    \<or> (\<exists>fs2. r = Ok \<lparr>bd_path = tmp, bd_temp = (\<not> opt_leak_dirs o')\<rparr>
         \<and> rewritten (components tmp @ manifest_key) (copy_of fs (components source) (components tmp) (en_rel ` set es)) fs2
         \<and> rewritten (components tmp @ config_key) fs2 fs' \<and> remove_tree tmp fs' = fs)"
proof -
  let ?S = "components source" and ?D = "components tmp"
  let ?fs1 = "copy_of fs ?S ?D (en_rel ` set es)"
  note setting = assms(1)
  note tree = copy_tree_result [OF assms(1,2,4,5,6)]
  have empty: "prefix ?D k \<Longrightarrow> fs k = None" for k using setting by (simp add: copy_setting_def)
  have dir: "?fs1 p = Some Directory" if "prefix p ?D" "p \<noteq> []" for p
    using that setting by (cases "p = ?D") (auto simp: copy_setting_def strict_prefix_def copy_of_outside dest: prefix_order.antisym)
  have links: "?fs1 (?D @ rel) \<noteq> Some (Symlink t)" if "rel \<in> {manifest_key, [''.cargo''], config_key}" for rel t
    using that assms(7) by (auto simp: no_links_to_settings_def copied_def manifest_key_def config_key_def)
  have manifest: "real_path f (join_path tmp ''Cargo.toml'') = None
      \<or> real_path f (join_path tmp ''Cargo.toml'') = Some (?D @ manifest_key)" if "f = ?fs1" for f
    using real_path_in_copy [OF assms(3), of f "''Cargo.toml''" manifest_key] dir links [of manifest_key] that
    by (auto simp: manifest_key_def is_absolute_def starts_with_def prefix_Cons)
  have config: "real_path f (join_path tmp ''.cargo/config.toml'') = None
      \<or> real_path f (join_path tmp ''.cargo/config.toml'') = Some (?D @ config_key)"
    if "rewritten (?D @ manifest_key) ?fs1 f" for f
  proof -
    have same: "map_option kind_of (f j) = map_option kind_of (?fs1 j)" for j using rewritten_kind [OF that] .
    have d: "f p = Some Directory" if "prefix p ?D" "p \<noteq> []" for p
      using dir [OF that] same [of p] map_kind_iff(1) by metis
    have "f (?D @ rel) \<noteq> Some (Symlink t)" if "rel \<in> {[''.cargo''], config_key}" for rel t
      using links [of rel] that same [of "?D @ rel"] map_kind_iff(2) by (metis insertCI)
    then show ?thesis
      using real_path_in_copy [OF assms(3), of f "''.cargo/config.toml''" config_key] d
      by (auto simp: config_key_def is_absolute_def starts_with_def prefix_Cons)
  qed
  note join = join_path_def real_directory_def is_absolute_def
  have same: "join_path tmp (join_path tmp ''.cargo/config.toml'') = join_path tmp ''.cargo/config.toml''"
    using assms(3) join_path_absolute [of tmp "''.cargo/config.toml''"] by (simp add: join_path_def real_directory_def)
  have outside: "f k = fs k"
    if "rewritten (?D @ manifest_key) ?fs1 f2" "rewritten (?D @ config_key) f2 f" "\<not> prefix ?D k" for f f2 k
  proof -
    have "k \<noteq> ?D @ manifest_key" "k \<noteq> ?D @ config_key" using that(3) by auto
    then show ?thesis using rewritten_at [OF that(1)] rewritten_at [OF that(2)] that(3) by (simp add: copy_of_outside)
  qed
  have removed: "remove_tree tmp f = fs"
    if "rewritten (?D @ manifest_key) ?fs1 f2" "rewritten (?D @ config_key) f2 f" for f f2
    by (rule remove_copy [OF empty outside [OF that]])
  consider (bad) e where "r = Err e" "fs' = fs"
    | (good) fs2 where "r = Ok \<lparr>bd_path = tmp, bd_temp = (\<not> opt_leak_dirs o')\<rparr>"
        "rewritten (?D @ manifest_key) ?fs1 fs2" "rewritten (?D @ config_key) fs2 fs'"
    using assms(8) tree(1,2) fix_manifest_rewritten [OF manifest [OF refl]] fix_cargo_config_rewritten [OF same config]
      removed rewritten_refl
    by (fastforce simp: copy_from_def split: option.splits prod.splits sum.splits)
  then show ?thesis
  proof cases
    case good
    then show ?thesis using removed [OF good(2,3)] by blast
  qed blast
qed



text \<open>The condition on links is needed: a manifest that is a link to an absolute path is copied as that link, and
  its rewriting goes through it to the file outside.\<close>

definition linked_tree :: files where
  "linked_tree = map_of
     [([''/''], Directory), ([''/'', ''t''], Directory), ([''/'', ''w''], Directory),
      ([''/'', ''w'', ''Cargo.toml''], Symlink ''/m''), ([''/'', ''m''], Regular ''old'')]"

lemma resolve_link:
  "fs (dir @ [c]) = Some (Symlink t) \<Longrightarrow> c \<noteq> ''.'' \<Longrightarrow> c \<noteq> ''..'' \<Longrightarrow> 0 < n \<Longrightarrow>
     resolve n fs dir (c # cs) = resolve (n - 1) fs (if is_absolute t then [] else dir) (components t @ cs)"
  by (cases n) simp_all

definition linked_entries :: "walk_entry list" where
  "linked_entries =
     [\<lparr>en_rel = [], en_kind = Some KindDir\<rparr>, \<lparr>en_rel = [''Cargo.toml''], en_kind = Some KindSymlink\<rparr>]"

definition linked_copy :: files where
  "linked_copy = linked_tree([''/'', ''t'', ''c''] \<mapsto> Directory,
     [''/'', ''t'', ''c'', ''Cargo.toml''] \<mapsto> Symlink ''/m'')"

lemma linked_copy_at:
  "linked_copy [''/''] = Some Directory" "linked_copy [''/'', ''t''] = Some Directory"
  "linked_copy [''/'', ''t'', ''c''] = Some Directory"
  "linked_copy [''/'', ''t'', ''c'', ''Cargo.toml''] = Some (Symlink ''/m'')"
  "linked_copy [''/'', ''m''] = Some (Regular ''old'')" "linked_copy [''/'', ''t'', ''c'', ''.cargo''] = None"
  by (simp_all add: linked_copy_def linked_tree_def)

lemma linked_copy_made:
  "copy_tree (copy_example linked_entries) ''/w'' b example_options linked_tree = (linked_copy, Ok ''/t/c'')"
  by (simp add: copy_tree_def copy_example_def linked_entries_def example_components copy_entry_def copy_symlink_def
      new_node_def path_of_def utf8_def lead_len_def Let_def linked_tree_def linked_copy_def)

lemma linked_components:
  "components ''/m'' = [''/'', ''m'']"
  "components ''/t/c/Cargo.toml'' = [''/'', ''t'', ''c'', ''Cargo.toml'']"
  "components ''/t/c/.cargo/config.toml'' = [''/'', ''t'', ''c'', ''.cargo'', ''config.toml'']"
  by (simp_all add: components_def is_absolute_def starts_with_def)

lemma linked_real_paths:
  "real_path linked_copy ''/t/c/Cargo.toml'' = Some [''/'', ''m'']"
  "real_path (linked_copy([''/'', ''m''] \<mapsto> n)) ''/t/c/.cargo/config.toml'' = None"
  by (simp_all add: real_path_def linked_components linked_copy_at resolve_link MAX_LINKS_def is_absolute_def
      starts_with_def)

lemma copy_example_writes [simp]:
  "cw_manifest_write_ok (copy_example es)" "cw_config_write_ok (copy_example es)"
  by (simp_all add: copy_example_def)

lemma manifest_written_through_link:
  "fst (copy_from (copy_example linked_entries) (\<lambda>_. Some example_manifest) (\<lambda>_. Some ''new'') ''/w''
      example_options linked_tree) [''/'', ''m''] = Some (Regular ''new'')"
proof -
  have source: "canonicalize linked_tree ''/w'' = Some ''/w''"
    by (simp add: canonicalize_def real_path_def example_components linked_tree_def path_of_def)
  have "fix_path ''../util'' ''/w'' = Some ''/w/../util''"
    by (simp add: fix_path_def ascent_def components_def is_absolute_def starts_with_def join_path_def)
  then have fixed: "fix_manifest_toml (\<lambda>_. Some example_manifest) ''old'' ''/w''
      = Ok (Some (fix_top_table ''/w'' example_manifest))"
    by (simp add: fix_manifest_toml_def Let_def)
      (simp add: fix_top_table_def example_manifest_def fix_dependency_table_def fix_dependency_def fix_path_value_def)
  have "fix_manifest (\<lambda>_. Some example_manifest) (\<lambda>_. Some ''new'') True ''/t/c/Cargo.toml'' ''/w'' linked_copy
      = (linked_copy([''/'', ''m''] \<mapsto> Regular ''new''), Ok ())"
    by (simp add: fix_manifest_def read_text_def write_text_def linked_real_paths linked_copy_at fixed utf8_def lead_len_def)
  moreover have "fix_cargo_config parse pretty True ''/t/c'' src (linked_copy([''/'', ''m''] \<mapsto> Regular ''new''))
      = (linked_copy([''/'', ''m''] \<mapsto> Regular ''new''), Ok ())" for parse pretty src
    by (simp add: fix_cargo_config_def join_path_def is_absolute_def starts_with_def path_exists_def linked_real_paths)
  ultimately show ?thesis
    by (simp add: copy_from_def source linked_copy_made join_path_def is_absolute_def starts_with_def)
qed

end
