(* ===== verification/CargoRun.thy ===== *)
theory CargoRun
  imports Outputs Timeouts
begin

text \<open>
  Running cargo: the command line and environment of each phase (\<open>src/src/cargo.rs\<close>), the loop
  that waits for a child process with a timeout (\<open>src/src/process.rs\<close>, \<open>src/src/process/unix.rs\<close>),
  the test executables and their fingerprint (\<open>src/src/artifacts.rs\<close>) and the lines that the
  baseline covered (\<open>src/src/coverage.rs\<close>).  The environment, the child process, the files that
  cargo built and the hash function are given to the operations.
\<close>

subsection \<open>Command lines\<close>

type_synonym env = "string \<Rightarrow> string option"

definition cargo_bin :: "env \<Rightarrow> string" where
  "cargo_bin env = unwrap_or (env ''CARGO'') ''cargo''"

definition subcommand :: "phase \<Rightarrow> options \<Rightarrow> string list" where
  "subcommand p o' =
     (case p of
        Test \<Rightarrow>
          (case test_tool_of o' of
             ToolCargo \<Rightarrow> [''test'']
               @ (if opt_detect_equivalent_mutants o' \<or> opt_skip_uncovered o'
                  then [''--lib'', ''--bins'', ''--tests''] else [])
           | ToolNextest \<Rightarrow> [''nextest'', ''run''])
      | Build \<Rightarrow>
          (case test_tool_of o' of
             ToolCargo \<Rightarrow> [''test'', ''--no-run'']
           | ToolNextest \<Rightarrow> [''nextest'', ''run'', ''--no-run''])
      | Check \<Rightarrow> [''check'', ''--tests''])"

definition profile_args :: "options \<Rightarrow> string list" where
  "profile_args o' =
     (case opt_profile o' of
        None \<Rightarrow> []
      | Some profile \<Rightarrow>
          (case test_tool_of o' of
             ToolCargo \<Rightarrow> [''--profile='' @ profile]
           | ToolNextest \<Rightarrow> [''--cargo-profile='' @ profile]))"

definition package_args :: "package_selection \<Rightarrow> string list" where
  "package_args ps =
     (case ps of
        SelAll \<Rightarrow> [''--workspace'']
      | SelExplicit packages \<Rightarrow> map (\<lambda>p. ''--package='' @ version_qualified_name p) packages)"

definition feature_args :: "options \<Rightarrow> string list" where
  "feature_args o' =
     (if opt_no_default_features o' then [''--no-default-features''] else [])
     @ (if opt_all_features o' then [''--all-features''] else [])
     @ map (\<lambda>f. ''--features='' @ f) (opt_features o')"

definition cargo_argv :: "env \<Rightarrow> package_selection \<Rightarrow> phase \<Rightarrow> options \<Rightarrow> string list" where
  "cargo_argv env packages p o' =
     [cargo_bin env] @ subcommand p o' @ profile_args o' @ [''--verbose''] @ package_args packages
     @ feature_args o' @ opt_additional_cargo_args o'
     @ (if p = Test then opt_additional_cargo_test_args o' else [])"

definition unit_separator :: string where "unit_separator = [CHR 0x1F]"

definition extra_rustflags :: "options \<Rightarrow> string list" where
  "extra_rustflags o' =
     (if opt_cap_lints o' then [''--cap-lints=warn''] else [])
     @ (if opt_detect_equivalent_mutants o' then [''-Cdebuginfo=0''] else [])"

definition encoded_rustflags :: "env \<Rightarrow> options \<Rightarrow> string option" where
  "encoded_rustflags env o' =
     (let extra_args = extra_rustflags o' in
      if extra_args = [] then None
      else (case env ''CARGO_ENCODED_RUSTFLAGS'' of
              Some encoded \<Rightarrow>
                if encoded = [] then Some (join unit_separator extra_args)
                else Some (join unit_separator (encoded # extra_args))
            | None \<Rightarrow>
                (case env ''RUSTFLAGS'' of
                   Some rustflags \<Rightarrow>
                     if rustflags = [] then Some (join unit_separator extra_args)
                     else Some (join unit_separator
                            (filter (\<lambda>s. s \<noteq> []) (split_char CHR '' '' rustflags) @ extra_args))
                 | None \<Rightarrow> Some (join unit_separator extra_args))))"

text \<open>The variables that are set for the child, in order: of two for the same name the later one
  counts, and a name that is not set here is inherited.\<close>

definition cargo_env :: "env \<Rightarrow> options \<Rightarrow> (string \<times> string) list \<Rightarrow> (string \<times> string) list" where
  "cargo_env env o' extra_env =
     [(''INSTA_UPDATE'', ''no''), (''INSTA_FORCE_PASS'', ''0'')]
     @ (case encoded_rustflags env o' of
          None \<Rightarrow> [] | Some f \<Rightarrow> [(''CARGO_ENCODED_RUSTFLAGS'', f)])
     @ extra_env"

definition child_env :: "env \<Rightarrow> (string \<times> string) list \<Rightarrow> env" where
  "child_env env vars name = (case map_of (rev vars) name of Some v \<Rightarrow> Some v | None \<Rightarrow> env name)"

subsection \<open>Waiting for a process\<close>

definition quote_char :: "char \<Rightarrow> string" where
  "quote_char c =
     (if c = CHR 0x09 then [CHR 0x5C, CHR ''t'']
      else if c = newline then [CHR 0x5C, CHR ''n'']
      else if c = creturn then [CHR 0x5C, CHR ''r'']
      else if c \<in> set [CHR '' '', CHR 0x5C, CHR 0x27, CHR 0x22] then [CHR 0x5C, c]
      else [c])"

fun quote_loop :: "string \<Rightarrow> string list \<Rightarrow> string" where
  "quote_loop r [] = r"
| "quote_loop r (s # ss) =
     quote_loop ((if r = [] then r else r @ '' '') @ concat (map quote_char s)) ss"

definition quote_argv :: "string list \<Rightarrow> string" where
  "quote_argv argv = quote_loop [] argv"

text \<open>
  One round of the loop: how long the process has run, whether an interrupt has come, whether the
  child could be terminated, and what waiting for one poll interval gives: an exit, nothing yet, or an
  error.
\<close>

datatype run_error = Interrupted | TerminateFailed | WaitFailed | SpawnFailed | RunOutput

record observation =
  ob_elapsed :: duration
  ob_interrupted :: bool
  ob_terminate_ok :: bool
  ob_poll :: "(run_error, exit_status option) rresult"

definition wait_step :: "duration option \<Rightarrow> observation \<Rightarrow> (run_error, exit_status option) rresult" where
  "wait_step timeout ob =
     (if is_some_and timeout (\<lambda>t. ob_elapsed ob > t)
      then (if ob_terminate_ok ob then Ok (Some ExitTimeout) else Err TerminateFailed)
      else if ob_interrupted ob
      then (if ob_terminate_ok ob then Err Interrupted else Err TerminateFailed)
      else ob_poll ob)"

text \<open>The loop over the rounds; \<open>None\<close> while it has not ended.\<close>

fun wait_loop :: "duration option \<Rightarrow> observation list \<Rightarrow> (run_error, exit_status) rresult option" where
  "wait_loop timeout [] = None"
| "wait_loop timeout (ob # obs) =
     (case wait_step timeout ob of
        Err e \<Rightarrow> Some (Err e)
      | Ok (Some st) \<Rightarrow> Some (Ok st)
      | Ok None \<Rightarrow> wait_loop timeout obs)"

definition show_exit :: "exit_status \<Rightarrow> string" where
  "show_exit st =
     (case st of
        ExitSuccess \<Rightarrow> ''Success''
      | ExitFailure c \<Rightarrow> ''Failure('' @ (if c < 0 then ''-'' else []) @ show_nat (nat \<bar>c\<bar>) @ '')''
      | ExitTimeout \<Rightarrow> ''Timeout''
      | ExitSignalled s \<Rightarrow> ''Signalled('' @ (if s < 0 then ''-'' else []) @ show_nat (nat \<bar>s\<bar>) @ '')''
      | ExitOther \<Rightarrow> ''Other'')"

text \<open>What the system does with one invocation of a command with an environment.\<close>

record cargo_world =
  cw_message_ok :: bool
  cw_spawn_ok :: bool
  cw_observations :: "observation list"
  cw_result_message_ok :: bool
  cw_interrupted_after :: bool
  cw_elapsed :: duration

text \<open>\<open>Process::run\<close> with the log of the scenario: \<open>None\<close> when the child never ends.\<close>

definition process_run ::
  "cargo_world \<Rightarrow> string list \<Rightarrow> duration option \<Rightarrow> scenario_output \<Rightarrow> output_dir
     \<Rightarrow> (output_dir \<times> (run_error, exit_status) rresult) option" where
  "process_run w argv timeout sc od =
     (case message (cw_message_ok w) sc (quote_argv argv) od of
        (od1, Err _) \<Rightarrow> Some (od1, Err RunOutput)
      | (od1, Ok _) \<Rightarrow>
          if \<not> cw_spawn_ok w then Some (od1, Err SpawnFailed)
          else (case wait_loop timeout (cw_observations w) of
                  None \<Rightarrow> None
                | Some (Err e) \<Rightarrow> Some (od1, Err e)
                | Some (Ok st) \<Rightarrow>
                    (case message (cw_result_message_ok w) sc (''result: '' @ show_exit st) od1 of
                       (od2, Err _) \<Rightarrow> Some (od2, Err RunOutput)
                     | (od2, Ok _) \<Rightarrow> Some (od2, Ok st))))"

type_synonym cargo = "string list \<Rightarrow> (string \<times> string) list \<Rightarrow> cargo_world"

definition run_cargo ::
  "env \<Rightarrow> cargo \<Rightarrow> package_selection \<Rightarrow> phase \<Rightarrow> duration option \<Rightarrow> options \<Rightarrow> (string \<times> string) list
     \<Rightarrow> scenario_output \<Rightarrow> output_dir \<Rightarrow> (output_dir \<times> (run_error, phase_result) rresult) option" where
  "run_cargo env cargo packages p timeout o' extra_env sc od =
     (let argv = cargo_argv env packages p o'; w = cargo argv (cargo_env env o' extra_env) in
      case process_run w argv timeout sc od of
        None \<Rightarrow> None
      | Some (od1, Err e) \<Rightarrow> Some (od1, Err e)
      | Some (od1, Ok st) \<Rightarrow>
          if cw_interrupted_after w then Some (od1, Err Interrupted)
          else Some (od1, Ok \<lparr>pr_phase = p, pr_duration = cw_elapsed w, pr_status = st, pr_argv = argv\<rparr>))"

subsection \<open>Artifacts\<close>

record artifact =
  af_path :: path
  af_is_file :: bool
  af_mode :: nat
  af_contents :: "string option"  \<comment> \<open>None where reading fails\<close>

definition profile_dir_name :: "options \<Rightarrow> string" where
  "profile_dir_name o' =
     (case opt_profile o' of
        None \<Rightarrow> ''debug''
      | Some p \<Rightarrow>
          if p = ''dev'' \<or> p = ''test'' then ''debug''
          else if p = ''release'' \<or> p = ''bench'' then ''release''
          else p)"

definition is_test_executable :: "artifact \<Rightarrow> bool" where
  "is_test_executable a \<longleftrightarrow>
     af_is_file a \<and> and (af_mode a) 73 \<noteq> 0
     \<and> (case extension (af_path a) of
          Some e \<Rightarrow> e \<notin> set [''d'', ''rmeta'', ''rlib'', ''o'', ''dylib'', ''so'']
        | None \<Rightarrow> True)"

definition deps_dir :: "path \<Rightarrow> options \<Rightarrow> path" where
  "deps_dir build_dir o' = join_path (join_path (join_path build_dir ''target'') (profile_dir_name o')) ''deps''"

text \<open>\<open>listing\<close> is what reading the directory gives, \<open>None\<close> if it fails.\<close>

definition test_executables :: "(path \<Rightarrow> artifact list option) \<Rightarrow> path \<Rightarrow> options \<Rightarrow> artifact list" where
  "test_executables listing build_dir o' =
     (case listing (deps_dir build_dir o') of
        None \<Rightarrow> []
      | Some as \<Rightarrow> sort_key (\<lambda>a. path_key (af_path a)) (filter is_test_executable as))"

fun read_artifacts :: "artifact list \<Rightarrow> (string \<times> string) list option" where
  "read_artifacts [] = Some []"
| "read_artifacts (a # as) =
     (case af_contents a of
        None \<Rightarrow> None
      | Some body \<Rightarrow>
          map_option (\<lambda>r. (unwrap_or (file_name (af_path a)) (af_path a), body) # r) (read_artifacts as))"

text \<open>The digest of the names and contents is the parameter \<open>digest\<close>.\<close>

definition fingerprint_build_artifacts ::
  "((string \<times> string) list \<Rightarrow> 'fp) \<Rightarrow> (path \<Rightarrow> artifact list option) \<Rightarrow> path \<Rightarrow> options \<Rightarrow> 'fp option" where
  "fingerprint_build_artifacts digest listing build_dir o' =
     (let executables = test_executables listing build_dir o' in
      if executables = [] then None else map_option digest (read_artifacts executables))"

subsection \<open>Coverage\<close>

record segment =
  sg_line :: nat
  sg_count :: nat
  sg_has_count :: bool

record export_file =
  ef_filename :: path
  ef_segments :: "segment list"

type_synonym line_coverage = "(path \<times> nat list) list"

definition coverage_prefixes :: "path \<Rightarrow> path option \<Rightarrow> path list" where
  "coverage_prefixes build_dir canonical =
     build_dir # (case canonical of Some c \<Rightarrow> if path_eq c build_dir then [] else [c] | None \<Rightarrow> [])"

fun strip_first :: "path list \<Rightarrow> path \<Rightarrow> path option" where
  "strip_first [] p = None"
| "strip_first (b # bs) p = (case path_strip_prefix b p of Some r \<Rightarrow> Some r | None \<Rightarrow> strip_first bs p)"

definition counted_lines :: "segment list \<Rightarrow> nat list" where
  "counted_lines ss = map sg_line (filter (\<lambda>s. sg_has_count s \<and> 0 < sg_count s) ss)"

definition add_export_file :: "path list \<Rightarrow> export_file \<Rightarrow> line_coverage \<Rightarrow> line_coverage" where
  "add_export_file pfs f cov =
     (case strip_first pfs (ef_filename f) of
        None \<Rightarrow> cov
      | Some relative \<Rightarrow>
          let ls = counted_lines (ef_segments f) in
          if ls = [] then cov else extend_lines relative ls cov)"

definition from_export :: "path \<Rightarrow> path option \<Rightarrow> export_file list \<Rightarrow> line_coverage" where
  "from_export build_dir canonical fs = fold (add_export_file (coverage_prefixes build_dir canonical)) fs []"

fun covers :: "line_coverage \<Rightarrow> path \<Rightarrow> nat \<Rightarrow> bool" where
  "covers [] p l = False"
| "covers ((q, ls) # cov) p l = (if path_eq p q then l \<in> set ls else covers cov p l)"

text \<open>\<open>dir_ok\<close> tells whether the directory for the profiles can be created.\<close>

definition instrumented_env :: "bool \<Rightarrow> path \<Rightarrow> string option \<Rightarrow> (string \<times> string) list option" where
  "instrumented_env dir_ok profraw_dir encoded =
     (let f = unwrap_or encoded [];
          flags = (if f = [] then f else f @ unit_separator) @ ''-Cinstrument-coverage''
      in if dir_ok then Some [(''LLVM_PROFILE_FILE'', join_path profraw_dir ''%p-%m.profraw''),
                              (''CARGO_ENCODED_RUSTFLAGS'', flags)]
         else None)"

subsection \<open>Lemmas on flags\<close>

lemma split_char_no_sep: "d \<notin> set s \<Longrightarrow> split_char d s = [s]"
  by (induction s) auto

lemma split_char_join:
  "xs \<noteq> [] \<Longrightarrow> \<forall>x\<in>set xs. d \<notin> set x \<Longrightarrow> split_char d (join [d] xs) = xs"
  by (induction "[d]" xs rule: join.induct) (simp_all add: split_char_no_sep split_char_append_sep)

lemma split_char_subset: "x \<in> set (split_char d r) \<Longrightarrow> set x \<subseteq> set r"
proof (induction d r arbitrary: x rule: split_char.induct)
  case (2 d c cs)
  obtain l ls where s: "split_char d cs = l # ls" by (meson list.exhaust split_char_nonempty)
  have IH: "y \<in> set (l # ls) \<Longrightarrow> set y \<subseteq> set cs" for y using 2(1,2) s by (cases "c = d") metis+
  show ?case
  proof (cases "c = d \<or> x \<in> set ls")
    case True
    then have "x = [] \<or> x \<in> set (l # ls)" using 2(3) s by auto
    then show ?thesis using IH by auto
  next
    case False
    then have "x = c # l" using 2(3) s by auto
    then show ?thesis using IH by auto
  qed
qed simp

lemma join_Cons: "ys \<noteq> [] \<Longrightarrow> join sep (x # ys) = x @ sep @ join sep ys"
  by (cases ys) auto

lemma split_char_join_Cons:
  assumes "ys \<noteq> []" "\<forall>x\<in>set ys. d \<notin> set x"
  shows "split_char d (join [d] (x # ys)) = split_char d x @ ys"
  using assms by (simp add: join_Cons split_char_append_sep split_char_join)

lemma extra_rustflags_no_sep: "\<forall>x\<in>set (extra_rustflags o'). CHR 0x1F \<notin> set x"
  by (cases "opt_cap_lints o'"; cases "opt_detect_equivalent_mutants o'"; simp add: extra_rustflags_def)

subsection \<open>Lemmas on waiting\<close>

lemma wait_loop_ends:
  "t < ob_elapsed ob \<Longrightarrow> \<exists>r. wait_loop (Some t) (obs @ ob # rest) = Some r"
proof (induction obs)
  case Nil
  then show ?case by (simp add: wait_step_def)
next
  case (Cons o' obs)
  then show ?case by (auto split: sum.splits option.splits)
qed

lemma wait_loop_result:
  "wait_loop timeout obs = Some r \<Longrightarrow> \<exists>pre ob post. obs = pre @ ob # post
    \<and> (\<forall>o'\<in>set pre. wait_step timeout o' = Ok None)
    \<and> wait_step timeout ob = (case r of Err e \<Rightarrow> Err e | Ok st \<Rightarrow> Ok (Some st))"
proof (induction timeout obs rule: wait_loop.induct)
  case (2 timeout ob obs)
  show ?case
  proof (cases "wait_step timeout ob = Ok None")
    case True
    with 2 obtain pre o' post where "obs = pre @ o' # post" "\<forall>x\<in>set pre. wait_step timeout x = Ok None"
      "wait_step timeout o' = (case r of Err e \<Rightarrow> Err e | Ok st \<Rightarrow> Ok (Some st))"
      by (auto split: sum.splits option.splits)
    with True show ?thesis by (intro exI [of _ "ob # pre"] exI [of _ o'] exI [of _ post]) simp
  next
    case False
    with 2(2) show ?thesis
      by (intro exI [of _ "[]"] exI [of _ ob] exI [of _ obs]) (auto split: sum.splits option.splits)
  qed
qed simp

subsection \<open>Lemmas on artifacts and coverage\<close>

lemma filter_same_key:
  assumes "inj_on f (set xs)" "k \<in> set xs" "distinct xs"
  shows "filter (\<lambda>x. f k = f x) xs = [k]"
proof -
  have "filter (\<lambda>x. f k = f x) xs = filter (\<lambda>x. k = x) xs"
    using assms by (intro filter_cong) (auto simp: inj_on_eq_iff)
  also have "\<dots> = [k]" using assms(2,3)
    by (induction xs) (auto simp: filter_empty_conv)
  finally show ?thesis .
qed

lemma sort_key_unique:
  assumes "distinct (map f xs)" "mset xs = mset ys"
  shows "sort_key f xs = sort_key f ys"
proof (rule properties_for_sort_key)
  have set: "set ys = set xs" and d: "distinct xs" "distinct ys" "inj_on f (set xs)"
    using assms by (auto simp: distinct_map dest: mset_eq_setD mset_eq_imp_distinct_iff)
  show "mset (sort_key f ys) = mset xs" using assms(2) by simp
  show "filter (\<lambda>x. f k = f x) (sort_key f ys) = filter (\<lambda>x. f k = f x) xs"
    if "k \<in> set (sort_key f ys)" for k
  proof -
    have "k \<in> set xs" using that set by simp
    then show ?thesis
      using filter_same_key [of f "sort_key f ys" k] filter_same_key [of f xs k] d set
      by (simp add: distinct_sort)
  qed
qed simp

lemma covers_extend_lines:
  "covers (extend_lines q ls cov) p l
    \<longleftrightarrow> covers cov p l \<or> (path_eq p q \<and> l \<in> set ls)"
  by (induction q ls cov rule: extend_lines.induct) (auto simp: path_eq_def)

lemma covers_fold:
  "covers (fold (add_export_file pfs) fs cov) p l \<longleftrightarrow> covers cov p l
    \<or> (\<exists>f\<in>set fs. \<exists>rel. strip_first pfs (ef_filename f) = Some rel \<and> path_eq p rel
         \<and> l \<in> set (counted_lines (ef_segments f)))"
proof (induction fs arbitrary: cov)
  case (Cons f fs)
  have "covers (add_export_file pfs f cov) p l \<longleftrightarrow> covers cov p l
      \<or> (\<exists>rel. strip_first pfs (ef_filename f) = Some rel \<and> path_eq p rel
         \<and> l \<in> set (counted_lines (ef_segments f)))"
    by (auto simp: add_export_file_def Let_def covers_extend_lines split: option.splits)
  with Cons show ?case by auto
qed simp

subsection \<open>Properties\<close>

text \<open>The flags of the user survive: when flags are added, splitting the encoded flags at the
  separator gives the user's own flags, from \<open>CARGO_ENCODED_RUSTFLAGS\<close> or else the words of
  \<open>RUSTFLAGS\<close>, followed by the added ones; when none are added the variable is left alone.\<close>

theorem rustflags_keep_user_flags:
  assumes "extra_rustflags o' \<noteq> []"
  shows "\<exists>f. encoded_rustflags env o' = Some f
    \<and> (\<forall>e. env ''CARGO_ENCODED_RUSTFLAGS'' = Some e \<and> e \<noteq> [] \<longrightarrow>
          split_char (CHR 0x1F) f = split_char (CHR 0x1F) e @ extra_rustflags o')
    \<and> (\<forall>r. env ''CARGO_ENCODED_RUSTFLAGS'' = None \<and> env ''RUSTFLAGS'' = Some r \<and> CHR 0x1F \<notin> set r \<longrightarrow>
          split_char (CHR 0x1F) f = filter (\<lambda>s. s \<noteq> []) (split_char CHR '' '' r) @ extra_rustflags o')
    \<and> (env ''CARGO_ENCODED_RUSTFLAGS'' = None \<and> env ''RUSTFLAGS'' = None \<longrightarrow>
          split_char (CHR 0x1F) f = extra_rustflags o')"
proof -
  let ?x = "extra_rustflags o'"
  have x: "split_char (CHR 0x1F) (join [CHR 0x1F] ?x) = ?x"
    by (rule split_char_join [OF assms extra_rustflags_no_sep])
  have e: "split_char (CHR 0x1F) (join [CHR 0x1F] (e # ?x)) = split_char (CHR 0x1F) e @ ?x" for e
    by (rule split_char_join_Cons [OF assms extra_rustflags_no_sep])
  have r: "split_char (CHR 0x1F) (join [CHR 0x1F] (filter (\<lambda>s. s \<noteq> []) (split_char CHR '' '' r) @ ?x))
      = filter (\<lambda>s. s \<noteq> []) (split_char CHR '' '' r) @ ?x" if "CHR 0x1F \<notin> set r" for r
  proof (rule split_char_join)
    show "\<forall>x\<in>set (filter (\<lambda>s. s \<noteq> []) (split_char CHR '' '' r) @ ?x). CHR 0x1F \<notin> set x"
      using extra_rustflags_no_sep [of o'] split_char_subset [of _ "CHR '' ''" r] that by auto
  qed (use assms in simp)
  show ?thesis
    using assms x e r
    by (cases "env ''CARGO_ENCODED_RUSTFLAGS''"; cases "env ''RUSTFLAGS''")
      (auto simp: encoded_rustflags_def unit_separator_def Let_def)
qed

lemma rustflags_keep_user_flags_witness:
  "\<exists>f. encoded_rustflags (\<lambda>v. if v = ''RUSTFLAGS'' then Some ''-g  -O'' else None)
      (example_options\<lparr>opt_cap_lints := True\<rparr>) = Some f
    \<and> split_char (CHR 0x1F) f = [''-g'', ''-O'', ''--cap-lints=warn'']"
  using rustflags_keep_user_flags [of "example_options\<lparr>opt_cap_lints := True\<rparr>"
      "\<lambda>v. if v = ''RUSTFLAGS'' then Some ''-g  -O'' else None"]
  by (auto simp: extra_rustflags_def example_options_def)

text \<open>The instrumented baseline loses the user's flags: unless lints are capped or equivalent mutants
  detected, it is built with the coverage flag alone, whatever flags the environment holds, while
  every mutant is built with the environment's own.\<close>

theorem instrumented_baseline_drops_user_flags:
  assumes "\<not> opt_cap_lints o'" "\<not> opt_detect_equivalent_mutants o'"
    and "instrumented_env True dir (encoded_rustflags env o') = Some extra"
  shows "child_env env (cargo_env env o' extra) ''CARGO_ENCODED_RUSTFLAGS'' = Some ''-Cinstrument-coverage''
    \<and> child_env env (cargo_env env o' []) ''CARGO_ENCODED_RUSTFLAGS'' = env ''CARGO_ENCODED_RUSTFLAGS''
    \<and> child_env env (cargo_env env o' []) ''RUSTFLAGS'' = env ''RUSTFLAGS''"
  using assms by (auto simp: child_env_def cargo_env_def instrumented_env_def encoded_rustflags_def
      extra_rustflags_def unwrap_or_def)

lemma instrumented_baseline_drops_user_flags_witness:
  "\<exists>extra. instrumented_env True ''d'' (encoded_rustflags (\<lambda>v. Some ''-Dwarnings'') example_options) = Some extra
    \<and> child_env (\<lambda>v. Some ''-Dwarnings'') (cargo_env (\<lambda>v. Some ''-Dwarnings'') example_options extra)
        ''CARGO_ENCODED_RUSTFLAGS'' = Some ''-Cinstrument-coverage''"
proof -
  have o: "\<not> opt_cap_lints example_options" "\<not> opt_detect_equivalent_mutants example_options"
    by (simp_all add: example_options_def)
  obtain extra where "instrumented_env True ''d'' (encoded_rustflags (\<lambda>v. Some ''-Dwarnings'') example_options)
      = Some extra" by (simp add: instrumented_env_def Let_def)
  with instrumented_baseline_drops_user_flags [OF o this] show ?thesis by blast
qed

text \<open>A process with a time limit is waited for no longer than the first poll after the limit; it
  is reported as a timeout only if the limit had passed, and any other status is the one with which
  the child itself ended, before the limit and without an interrupt.\<close>

theorem wait_respects_timeout:
  "(\<forall>ob\<in>set obs. t < ob_elapsed ob \<longrightarrow> wait_loop (Some t) obs \<noteq> None)
    \<and> (wait_loop timeout obs = Some (Ok st) \<longrightarrow>
        (\<exists>ob\<in>set obs. (\<exists>lim. timeout = Some lim \<and> lim < ob_elapsed ob \<and> st = ExitTimeout)
          \<or> ((\<forall>lim. timeout = Some lim \<longrightarrow> ob_elapsed ob \<le> lim) \<and> \<not> ob_interrupted ob
              \<and> ob_poll ob = Ok (Some st))))
    \<and> (wait_loop timeout obs = Some (Err Interrupted) \<longrightarrow>
        (\<exists>ob\<in>set obs. ob_interrupted ob \<or> ob_poll ob = Err Interrupted))"
proof (intro conjI impI ballI)
  fix ob assume "ob \<in> set obs" "t < ob_elapsed ob"
  then show "wait_loop (Some t) obs \<noteq> None"
    using wait_loop_ends by (metis option.distinct(1) split_list)
next
  assume "wait_loop timeout obs = Some (Ok st)"
  from wait_loop_result [OF this] obtain pre ob post where "obs = pre @ ob # post"
    "wait_step timeout ob = Ok (Some st)" by auto
  then have ob: "ob \<in> set obs" "wait_step timeout ob = Ok (Some st)" by auto
  then show "\<exists>ob\<in>set obs. (\<exists>lim. timeout = Some lim \<and> lim < ob_elapsed ob \<and> st = ExitTimeout)
      \<or> ((\<forall>lim. timeout = Some lim \<longrightarrow> ob_elapsed ob \<le> lim) \<and> \<not> ob_interrupted ob
          \<and> ob_poll ob = Ok (Some st))"
    by (intro bexI [of _ ob]) (auto simp: wait_step_def is_some_and_def split: if_splits option.splits)
next
  assume "wait_loop timeout obs = Some (Err Interrupted)"
  from wait_loop_result [OF this] obtain pre ob post where "obs = pre @ ob # post"
    "wait_step timeout ob = Err Interrupted" by auto
  then have "ob \<in> set obs" "wait_step timeout ob = Err Interrupted" by auto
  then show "\<exists>ob\<in>set obs. ob_interrupted ob \<or> ob_poll ob = Err Interrupted"
    by (intro bexI [of _ ob]) (auto simp: wait_step_def split: if_splits)
qed

lemma wait_respects_timeout_witness:
  "wait_loop (Some 5) [\<lparr>ob_elapsed = 3, ob_interrupted = False, ob_terminate_ok = True, ob_poll = Ok None\<rparr>,
      \<lparr>ob_elapsed = 6, ob_interrupted = False, ob_terminate_ok = True, ob_poll = Ok None\<rparr>] \<noteq> None"
  using wait_respects_timeout [of "[\<lparr>ob_elapsed = 3, ob_interrupted = False, ob_terminate_ok = True, ob_poll = Ok None\<rparr>,
      \<lparr>ob_elapsed = 6, ob_interrupted = False, ob_terminate_ok = True, ob_poll = Ok None\<rparr>]" 5 None ExitOther]
  by simp

text \<open>The fingerprint of a build depends on its test executables only, not on the order in which the
  directory lists them, and there is none where nothing can be listed or an executable cannot be
  read: missing information is never taken for equality.\<close>

theorem fingerprint_ignores_listing_order:
  assumes "listing (deps_dir d o') = Some as" "listing' (deps_dir d' o') = Some bs"
    and "mset (filter is_test_executable as) = mset (filter is_test_executable bs)"
    and "distinct (map (\<lambda>a. path_key (af_path a)) (filter is_test_executable as))"
  shows "fingerprint_build_artifacts digest listing d o' = fingerprint_build_artifacts digest listing' d' o'
    \<and> (filter is_test_executable as = [] \<longrightarrow> fingerprint_build_artifacts digest listing d o' = None)
    \<and> ((\<exists>a\<in>set as. is_test_executable a \<and> af_contents a = None) \<longrightarrow>
        fingerprint_build_artifacts digest listing d o' = None)"
proof -
  let ?k = "\<lambda>a. path_key (af_path a)"
  have s: "sort_key ?k (filter is_test_executable as) = sort_key ?k (filter is_test_executable bs)"
    by (rule sort_key_unique [OF assms(4,3)])
  have r: "\<exists>a\<in>set xs. af_contents a = None \<Longrightarrow> read_artifacts xs = None" for xs
    by (induction xs) (auto split: option.splits)
  have rd: "(\<exists>a\<in>set as. is_test_executable a \<and> af_contents a = None) \<Longrightarrow>
      read_artifacts (sort_key ?k (filter is_test_executable as)) = None" by (rule r) auto
  show ?thesis
    using s rd assms(1,2) by (auto simp: fingerprint_build_artifacts_def test_executables_def Let_def)
qed

lemma fingerprint_ignores_listing_order_witness:
  "fingerprint_build_artifacts (\<lambda>x. x) (\<lambda>_. Some [\<lparr>af_path = ''b'', af_is_file = True, af_mode = 493, af_contents = Some ''y''\<rparr>,
        \<lparr>af_path = ''a'', af_is_file = True, af_mode = 493, af_contents = Some ''x''\<rparr>]) ''w'' example_options
    = fingerprint_build_artifacts (\<lambda>x. x) (\<lambda>_. Some [\<lparr>af_path = ''a'', af_is_file = True, af_mode = 493, af_contents = Some ''x''\<rparr>,
        \<lparr>af_path = ''b'', af_is_file = True, af_mode = 493, af_contents = Some ''y''\<rparr>]) ''w'' example_options"
proof -
  let ?a = "\<lparr>af_path = ''a'', af_is_file = True, af_mode = 493, af_contents = Some ''x''\<rparr>"
  let ?b = "\<lparr>af_path = ''b'', af_is_file = True, af_mode = 493, af_contents = Some ''y''\<rparr>"
  have x: "is_test_executable ?a" "is_test_executable ?b"
    by (simp_all add: is_test_executable_def extension_def file_name_def components_def is_absolute_def
        starts_with_def last_opt_def rsplit_dot_def)
  have k: "path_key ''a'' \<noteq> path_key ''b''"
    by (simp add: path_key_def component_key_def components_def is_absolute_def starts_with_def)
  show ?thesis
    using fingerprint_ignores_listing_order [of "\<lambda>_. Some [?b, ?a]" "''w''" example_options "[?b, ?a]"
        "\<lambda>_. Some [?a, ?b]" "''w''" "[?a, ?b]" "\<lambda>x. x"] x k by simp
qed

text \<open>A line counts as covered exactly when a counted region with a nonzero count starts on it in a
  file below the build directory: a later line of the same region, though executed, does not.\<close>

theorem covered_lines_are_region_starts:
  "covers (from_export build_dir canonical fs) p l \<longleftrightarrow>
    (\<exists>f\<in>set fs. \<exists>rel. strip_first (coverage_prefixes build_dir canonical) (ef_filename f) = Some rel
       \<and> path_eq p rel
       \<and> (\<exists>s\<in>set (ef_segments f). sg_line s = l \<and> sg_has_count s \<and> 0 < sg_count s))"
  by (auto simp: from_export_def covers_fold counted_lines_def)

lemma covered_lines_are_region_starts_witness:
  "\<not> covers (from_export ''/b'' None [\<lparr>ef_filename = ''/b/src/lib.rs'',
      ef_segments = [\<lparr>sg_line = 1, sg_count = 7, sg_has_count = True\<rparr>,
                     \<lparr>sg_line = 4, sg_count = 0, sg_has_count = False\<rparr>]\<rparr>]) ''src/lib.rs'' 3"
  by (simp add: covered_lines_are_region_starts)

end
