(* ===== verification/Lab.thy ===== *)
theory Lab
  imports CargoRun
begin

text \<open>
  The lab (\<open>src/src/lab.rs\<close>, with \<open>apply\<close> and \<open>revert\<close> of \<open>src/src/mutant.rs\<close>): one scenario
  from its log to its recorded outcome, the work queue of one worker, the baseline, and the whole run
  of \<open>test_mutants\<close> with one worker.  Every call that can fail does what the record
  \<open>scenario_world\<close> says; cargo is a child process that may change the tree it runs in, and a child
  that never ends makes the result \<^term>\<open>None\<close>.  The console only shows progress and is left out.
\<close>

subsection \<open>The lab's context and state\<close>

datatype lab_error =
    LabOut out_error | LabFs fs_error | LabRun run_error | LabOpen | LabPanic
  | CoverageNeedsBaseline | CoverageNeedsTests | CoverageTools | CoverageRead
  | CoverageDir | BuildDirFailed | JobserverFailed

record 'fp lab =
  lb_options :: options
  lb_env :: env
  lb_unified :: "string \<Rightarrow> string \<Rightarrow> string"  \<comment> \<open>the diff library\<close>
  lb_digest :: "(string \<times> string) list \<Rightarrow> 'fp"
  lb_debug :: "string \<Rightarrow> string"  \<comment> \<open>\<open>Debug\<close> formatting of text\<close>
  lb_baseline_fingerprint :: "'fp option"
  lb_coverage :: "line_coverage option"
  lb_tests_for_mutant :: "package_selection option"  \<comment> \<open>None for the mutated package\<close>

text \<open>A worker's build directory, and what workers share: the output directory and the fingerprints.\<close>

record 'fp lab_state =
  ls_dir :: path
  ls_files :: files
  ls_output :: output_dir
  ls_fingerprints :: "'fp \<Rightarrow> string option"

text \<open>What the system does during one scenario.\<close>

record scenario_world =
  sw_start_ok :: bool
  sw_open_read_ok :: bool
  sw_diff_message_ok :: bool
  sw_diff_write_ok :: bool
  sw_uncovered_message_ok :: bool
  sw_apply :: write_result
  sw_cargo :: "phase \<Rightarrow> cargo"
  sw_tree_after :: "phase \<Rightarrow> files \<Rightarrow> files"
  sw_listing :: "path \<Rightarrow> artifact list option"
  sw_equivalent_message_ok :: bool
  sw_revert :: write_result
  sw_json :: json_write
  sw_list_ok :: bool
  sw_now :: nat

subsection \<open>Applying and reverting\<close>

definition apply_mutant :: "write_result \<Rightarrow> mutant \<Rightarrow> path \<Rightarrow> string \<Rightarrow> files \<Rightarrow> files \<times> (fs_error, unit) rresult" where
  "apply_mutant w m dir code fs = overwrite_file w dir (sf_tree_relative_path (mu_source_file m)) code fs"

definition revert_mutant :: "write_result \<Rightarrow> mutant \<Rightarrow> path \<Rightarrow> files \<Rightarrow> files \<times> (fs_error, unit) rresult" where
  "revert_mutant w m dir fs =
     overwrite_file w dir (sf_tree_relative_path (mu_source_file m)) (sf_code (mu_source_file m)) fs"

subsection \<open>Reasons to skip\<close>

definition uncovered_message :: "'fp lab \<Rightarrow> mutant \<Rightarrow> string option" where
  "uncovered_message lb m =
     (case lb_coverage lb of
        None \<Rightarrow> None
      | Some coverage \<Rightarrow>
          if mu_const_eval m then None
          else
            let file = sf_tree_relative_path (mu_source_file m); line = lc_line (sp_start (mu_span m)) in
            if covers coverage file line then None
            else Some (''no test executed '' @ file @ '':'' @ show_nat line
              @ '', so no test can catch this mutant; skipping the build and test phases (--skip-uncovered)''))"

definition equivalent_build ::
  "'fp lab \<Rightarrow> (path \<Rightarrow> artifact list option) \<Rightarrow> path \<Rightarrow> string \<Rightarrow> ('fp \<Rightarrow> string option)
     \<Rightarrow> string option \<times> ('fp \<Rightarrow> string option)" where
  "equivalent_build lb listing dir mutant_name fingerprints =
     (case fingerprint_build_artifacts (lb_digest lb) listing dir (lb_options lb) of
        None \<Rightarrow> (None, fingerprints)
      | Some fingerprint \<Rightarrow>
          if lb_baseline_fingerprint lb = Some fingerprint
          then (Some ''the unmutated baseline'', fingerprints)
          else (case fingerprints fingerprint of
                  Some earlier \<Rightarrow> (Some (''mutant '' @ lb_debug lb earlier), fingerprints)
                | None \<Rightarrow> (None, fingerprints(fingerprint \<mapsto> mutant_name))))"

definition equivalent_message :: "string \<Rightarrow> string" where
  "equivalent_message equivalent_to =
     ''build artifacts are identical to '' @ equivalent_to
     @ ''; skipping the test phase (--detect-equivalent-mutants)''"

subsection \<open>One scenario\<close>

definition set_output :: "output_dir \<Rightarrow> 'fp lab_state \<Rightarrow> 'fp lab_state" where
  "set_output od st = st\<lparr>ls_output := od\<rparr>"

text \<open>
  How the loop over the phases ends: with the outcome so far, with an error of cargo, after which the
  mutant is reverted, or with an error that leaves the function at once.
\<close>

datatype phases_end = PhasesDone scenario_outcome | PhasesErr lab_error | PhasesAbort lab_error

fun run_phases ::
  "'fp lab \<Rightarrow> scenario_world \<Rightarrow> scenario \<Rightarrow> package_selection \<Rightarrow> timeouts \<Rightarrow> (string \<times> string) list
     \<Rightarrow> scenario_output \<Rightarrow> phase list \<Rightarrow> scenario_outcome \<Rightarrow> 'fp lab_state
     \<Rightarrow> ('fp lab_state \<times> phases_end) option" where
  "run_phases lb w s packages ts extra sc [] o' st = Some (st, PhasesDone o')"
| "run_phases lb w s packages ts extra sc (p # ps) o' st =
     (case run_cargo (lb_env lb) (sw_cargo w p) packages p (timeout_of_phase ts p) (lb_options lb) extra sc
             (ls_output st) of
        None \<Rightarrow> None
      | Some (od, res) \<Rightarrow>
          let st1 = st\<lparr>ls_output := od, ls_files := sw_tree_after w p (ls_files st)\<rparr> in
          (case res of
             Err e \<Rightarrow> Some (st1, PhasesErr (LabRun e))
           | Ok pr \<Rightarrow>
               let o1 = add_phase_result pr o' in
               if \<not> pr_is_success pr then Some (st1, PhasesDone o1)
               else if p = Build \<and> opt_detect_equivalent_mutants (lb_options lb) \<and> is_mutant s then
                 (case map_option full_name (scenario_mutant s) of
                    Some (Some name) \<Rightarrow>
                      (case equivalent_build lb (sw_listing w) (ls_dir st) name (ls_fingerprints st1) of
                         (None, fps) \<Rightarrow>
                           run_phases lb w s packages ts extra sc ps o1 (st1\<lparr>ls_fingerprints := fps\<rparr>)
                       | (Some eq, fps) \<Rightarrow>
                           (case message (sw_equivalent_message_ok w) sc (equivalent_message eq) (ls_output st1) of
                              (od2, Err e) \<Rightarrow> Some (st1\<lparr>ls_output := od2\<rparr>, PhasesAbort (LabOut e))
                            | (od2, Ok _) \<Rightarrow>
                                Some (st1\<lparr>ls_output := od2\<rparr>, PhasesDone (set_skip_reason SkipEquivalent o1))))
                  | _ \<Rightarrow> Some (st1, PhasesAbort LabPanic))
               else run_phases lb w s packages ts extra sc ps o1 st1))"

definition finish_scenario ::
  "scenario_world \<Rightarrow> scenario_outcome \<Rightarrow> 'fp lab_state \<Rightarrow> 'fp lab_state \<times> (lab_error, scenario_outcome) rresult" where
  "finish_scenario w o' st =
     (case add_scenario_outcome (sw_json w) (sw_list_ok w) (sw_now w) o' (ls_output st) of
        (od, Err e) \<Rightarrow> (set_output od st, Err (LabOut e))
      | (od, Ok _) \<Rightarrow> (set_output od st, Ok o'))"

definition revert_scenario ::
  "scenario_world \<Rightarrow> scenario \<Rightarrow> 'fp lab_state \<Rightarrow> 'fp lab_state \<times> (lab_error, unit) rresult" where
  "revert_scenario w s st =
     (case s of
        Baseline \<Rightarrow> (st, Ok ())
      | MutantScenario m \<Rightarrow>
          (case revert_mutant (sw_revert w) m (ls_dir st) (ls_files st) of
             (fs, Err e) \<Rightarrow> (st\<lparr>ls_files := fs\<rparr>, Err (LabFs e))
           | (fs, Ok _) \<Rightarrow> (st\<lparr>ls_files := fs\<rparr>, Ok ())))"

text \<open>From the phases to the end.\<close>

definition test_and_finish ::
  "'fp lab \<Rightarrow> scenario_world \<Rightarrow> scenario \<Rightarrow> package_selection \<Rightarrow> timeouts \<Rightarrow> (string \<times> string) list
     \<Rightarrow> scenario_output \<Rightarrow> scenario_outcome \<Rightarrow> 'fp lab_state
     \<Rightarrow> ('fp lab_state \<times> (lab_error, scenario_outcome) rresult) option" where
  "test_and_finish lb w s packages ts extra sc o' st =
     (case run_phases lb w s packages ts extra sc (phases (lb_options lb)) o' st of
        None \<Rightarrow> None
      | Some (st1, PhasesAbort e) \<Rightarrow> Some (st1, Err e)
      | Some (st1, PhasesErr e) \<Rightarrow>
          (case revert_scenario w s st1 of
             (st2, Err e') \<Rightarrow> Some (st2, Err e')
           | (st2, Ok _) \<Rightarrow> Some (st2, Err e))
      | Some (st1, PhasesDone o1) \<Rightarrow>
          (case revert_scenario w s st1 of
             (st2, Err e') \<Rightarrow> Some (st2, Err e')
           | (st2, Ok _) \<Rightarrow> Some (finish_scenario w o1 st2)))"

text \<open>What precedes the phases of a mutant: its diff, the coverage check and its application.\<close>

definition run_mutant ::
  "'fp lab \<Rightarrow> scenario_world \<Rightarrow> mutant \<Rightarrow> package_selection \<Rightarrow> timeouts \<Rightarrow> (string \<times> string) list
     \<Rightarrow> scenario_output \<Rightarrow> scenario_outcome \<Rightarrow> 'fp lab_state
     \<Rightarrow> ('fp lab_state \<times> (lab_error, scenario_outcome) rresult) option" where
  "run_mutant lb w m packages ts extra sc o' st =
     (case (diff_of (lb_unified lb) m, mutated_code m) of
        (Some diff, Some code) \<Rightarrow>
          (case write_diff (sw_diff_message_ok w) (sw_diff_write_ok w) sc diff (ls_output st) of
             (od1, Err e) \<Rightarrow> Some (set_output od1 st, Err (LabOut e))
           | (od1, Ok _) \<Rightarrow>
               (case uncovered_message lb m of
                  Some msg \<Rightarrow>
                    (case message (sw_uncovered_message_ok w) sc msg od1 of
                       (od2, Err e) \<Rightarrow> Some (set_output od2 st, Err (LabOut e))
                     | (od2, Ok _) \<Rightarrow>
                         Some (finish_scenario w (set_skip_reason SkipUncovered o') (set_output od2 st)))
                | None \<Rightarrow>
                    (case apply_mutant (sw_apply w) m (ls_dir st) code (ls_files st) of
                       (fs, Err e) \<Rightarrow> Some ((set_output od1 st)\<lparr>ls_files := fs\<rparr>, Err (LabFs e))
                     | (fs, Ok _) \<Rightarrow>
                         test_and_finish lb w (MutantScenario m) packages ts extra sc o'
                           ((set_output od1 st)\<lparr>ls_files := fs\<rparr>))))
      | _ \<Rightarrow> Some (st, Err LabPanic))"

definition run_one_scenario ::
  "'fp lab \<Rightarrow> scenario_world \<Rightarrow> scenario \<Rightarrow> package_selection \<Rightarrow> timeouts \<Rightarrow> (string \<times> string) list
     \<Rightarrow> 'fp lab_state \<Rightarrow> ('fp lab_state \<times> (lab_error, scenario_outcome) rresult) option" where
  "run_one_scenario lb w s packages ts extra st =
     (case show_scenario s of
        None \<Rightarrow> Some (st, Err LabPanic)
      | Some nm \<Rightarrow>
          (case start_scenario (sw_start_ok w) s nm (ls_output st) of
             (od, Err e) \<Rightarrow> Some (set_output od st, Err (LabOut e))
           | (od, Ok sc) \<Rightarrow>
               let st1 = set_output od st;
                   o' = new_outcome (sc_output_dir sc) (sc_log_path sc) (sc_diff_path sc) s in
               if \<not> sw_open_read_ok w then Some (st1, Err LabOpen)
               else (case s of
                       MutantScenario m \<Rightarrow> run_mutant lb w m packages ts extra sc o' st1
                     | Baseline \<Rightarrow> test_and_finish lb w s packages ts extra sc o' st1)))"

subsection \<open>One worker's queue\<close>

definition packages_for :: "'fp lab \<Rightarrow> mutant \<Rightarrow> package_selection" where
  "packages_for lb m =
     (case lb_tests_for_mutant lb of
        Some sel \<Rightarrow> sel
      | None \<Rightarrow> SelExplicit [sf_package (mu_source_file m)])"

text \<open>The worker takes mutants until there are none; an error ends it.\<close>

fun run_queue ::
  "'fp lab \<Rightarrow> (nat \<Rightarrow> scenario_world) \<Rightarrow> nat \<Rightarrow> mutant list \<Rightarrow> timeouts \<Rightarrow> 'fp lab_state
     \<Rightarrow> ('fp lab_state \<times> (lab_error, unit) rresult) option" where
  "run_queue lb ws i [] ts st = Some (st, Ok ())"
| "run_queue lb ws i (m # ms) ts st =
     (case run_one_scenario lb (ws i) (MutantScenario m) (packages_for lb m) ts [] st of
        None \<Rightarrow> None
      | Some (st1, Err e) \<Rightarrow> Some (st1, Err e)
      | Some (st1, Ok _) \<Rightarrow> run_queue lb ws (i + 1) ms ts st1)"

definition tests_for_mutant :: "options \<Rightarrow> workspace \<Rightarrow> package_selection option" where
  "tests_for_mutant o' ws =
     (case opt_test_package o' of
        TPWorkspace \<Rightarrow> Some SelAll
      | TPMutated \<Rightarrow> None
      | TPNamed names \<Rightarrow> Some (SelExplicit (packages_by_name ws names)))"

subsection \<open>The whole run\<close>

definition coverage_tools :: "bool \<Rightarrow> options \<Rightarrow> (lab_error, bool) rresult" where
  "coverage_tools found o' =
     (if \<not> opt_skip_uncovered o' then Ok False
      else if opt_baseline o' = BaselineSkip then Err CoverageNeedsBaseline
      else if opt_check_only o' then Err CoverageNeedsTests
      else if found then Ok True else Err CoverageTools)"

definition all_mutated_packages :: "mutant list \<Rightarrow> package list" where
  "all_mutated_packages ms =
     unique_by (\<lambda>p. p) (sort_key pkg_name (map (\<lambda>m. sf_package (mu_source_file m)) ms))"

definition profraw_dir :: "path \<Rightarrow> path" where
  "profraw_dir dir = join_path (join_path dir ''target'') ''mutants-coverage''"

text \<open>
  \<open>read_coverage\<close> runs the LLVM tools; its result is the parameter \<open>coverage\<close>.  The lab that the
  workers see holds the fingerprint and coverage that a passing baseline set.
\<close>

definition run_baseline ::
  "'fp lab \<Rightarrow> scenario_world \<Rightarrow> bool \<Rightarrow> bool \<Rightarrow> (lab_error, line_coverage) rresult \<Rightarrow> mutant list \<Rightarrow> 'fp lab_state
     \<Rightarrow> ('fp lab \<times> 'fp lab_state \<times> (lab_error, scenario_outcome) rresult) option" where
  "run_baseline lb w tools dir_ok coverage ms st =
     (case (if tools then instrumented_env dir_ok (profraw_dir (ls_dir st)) (encoded_rustflags (lb_env lb) (lb_options lb))
            else Some []) of
        None \<Rightarrow> Some (lb, st, Err CoverageDir)
      | Some extra \<Rightarrow>
          (case run_one_scenario lb w Baseline (SelExplicit (all_mutated_packages ms))
                  (timeouts_for_baseline (lb_options lb)) extra st of
             None \<Rightarrow> None
           | Some (st1, Err e) \<Rightarrow> Some (lb, st1, Err e)
           | Some (st1, Ok outcome) \<Rightarrow>
               if \<not> success outcome then Some (lb, st1, Ok outcome)
               else
                 let lb1 = (if opt_detect_equivalent_mutants (lb_options lb)
                            then lb\<lparr>lb_baseline_fingerprint :=
                                   fingerprint_build_artifacts (lb_digest lb) (sw_listing w) (ls_dir st1) (lb_options lb)\<rparr>
                            else lb) in
                 if \<not> tools then Some (lb1, st1, Ok outcome)
                 else (case coverage of
                         Err e \<Rightarrow> Some (lb1, st1, Err e)
                       | Ok cov \<Rightarrow> Some (lb1\<lparr>lb_coverage := Some cov\<rparr>, st1, Ok outcome))))"

definition n_threads :: "options \<Rightarrow> mutant list \<Rightarrow> nat" where
  "n_threads o' ms = max 1 (min (unwrap_or (opt_jobs o') 1) (length ms))"

datatype thread_result = ThreadPanicked | ThreadReturned "(lab_error, unit) rresult"

text \<open>The panic of a thread is resumed as soon as it is joined; otherwise the first error counts.\<close>

fun join_threads :: "thread_result list \<Rightarrow> (lab_error, unit) rresult option" where
  "join_threads [] = Some (Ok ())"
| "join_threads (ThreadPanicked # rs) = None"
| "join_threads (ThreadReturned r # rs) =
     (case join_threads rs of
        None \<Rightarrow> None
      | Some r' \<Rightarrow> Some (case r of Err e \<Rightarrow> Err e | Ok _ \<Rightarrow> r'))"

record run_world =
  rw_tools_found :: bool
  rw_debug_log_ok :: bool
  rw_shuffle :: "mutant list \<Rightarrow> mutant list"
  rw_mutants_list_ok :: bool
  rw_build_dir :: "(path \<times> files) option"  \<comment> \<open>the build directory and its files, if it could be made\<close>
  rw_jobserver_ok :: bool
  rw_profraw_dir_ok :: bool
  rw_baseline :: scenario_world
  rw_coverage :: "(lab_error, line_coverage) rresult"
  rw_mutants :: "nat \<Rightarrow> scenario_world"
  rw_finish :: json_write
  rw_end :: nat

definition finish_lab ::
  "run_world \<Rightarrow> 'fp lab_state \<Rightarrow> 'fp lab_state \<times> (lab_error, lab_outcome) rresult" where
  "finish_lab w st =
     (case finish (rw_finish w) (rw_end w) (ls_output st) of
        (od, Err e) \<Rightarrow> (set_output od st, Err (LabOut e))
      | (od, Ok lo) \<Rightarrow> (set_output od st, Ok lo))"

definition test_with_timeouts ::
  "run_world \<Rightarrow> 'fp lab \<Rightarrow> timeouts option \<Rightarrow> mutant list \<Rightarrow> 'fp lab_state
     \<Rightarrow> ('fp lab_state \<times> (lab_error, lab_outcome) rresult) option" where
  "test_with_timeouts w lb ts ms st =
     (case ts of
        None \<Rightarrow> Some (st, Err LabPanic)
      | Some t \<Rightarrow>
          (case run_queue lb (rw_mutants w) 0 ms t st of
             None \<Rightarrow> None
           | Some (st1, Err e) \<Rightarrow> Some (st1, Err e)
           | Some (st1, Ok _) \<Rightarrow> Some (finish_lab w st1)))"

text \<open>\<open>test_mutants\<close> from the baseline on.\<close>

definition test_in_build_dir ::
  "run_world \<Rightarrow> libs \<Rightarrow> 'fp lab \<Rightarrow> bool \<Rightarrow> mutant list \<Rightarrow> 'fp lab_state
     \<Rightarrow> ('fp lab_state \<times> (lab_error, lab_outcome) rresult) option" where
  "test_in_build_dir w L lb tools ms st =
     (case opt_baseline (lb_options lb) of
        BaselineSkip \<Rightarrow> test_with_timeouts w lb (timeouts_without_baseline L (lb_options lb)) ms st
      | BaselineRun \<Rightarrow>
          (case run_baseline lb (rw_baseline w) tools (rw_profraw_dir_ok w) (rw_coverage w) ms st of
             None \<Rightarrow> None
           | Some (lb1, st1, Err e) \<Rightarrow> Some (st1, Err e)
           | Some (lb1, st1, Ok outcome) \<Rightarrow>
               if success outcome
               then test_with_timeouts w lb1 (timeouts_from_baseline L outcome (lb_options lb)) ms st1
               else Some (finish_lab w st1)))"

text \<open>\<open>test_mutants\<close> with one worker, which uses the build directory of the baseline.\<close>

definition test_mutants ::
  "run_world \<Rightarrow> libs \<Rightarrow> 'fp lab \<Rightarrow> mutant list \<Rightarrow> 'fp lab_state
     \<Rightarrow> ('fp lab_state \<times> (lab_error, lab_outcome) rresult) option" where
  "test_mutants w L lb ms0 st0 =
     (case coverage_tools (rw_tools_found w) (lb_options lb) of
        Err e \<Rightarrow> Some (st0, Err e)
      | Ok tools \<Rightarrow>
          if \<not> rw_debug_log_ok w then Some (st0, Err LabOpen)
          else
            let ms = (if opt_shuffle (lb_options lb) then rw_shuffle w ms0 else ms0) in
            (case write_mutants_list (rw_mutants_list_ok w) ms (ls_output st0) of
               (od, Err e) \<Rightarrow> Some (set_output od st0, Err (LabOut e))
             | (od, Ok _) \<Rightarrow>
                 let st = set_output od st0 in
                 if ms = [] then Some (st, Ok new_lab_outcome)
                 else (case rw_build_dir w of
                         None \<Rightarrow> Some (st, Err BuildDirFailed)
                       | Some (dir, fs) \<Rightarrow>
                           if opt_jobserver (lb_options lb) \<and> \<not> rw_jobserver_ok w
                           then Some (st, Err JobserverFailed)
                           else test_in_build_dir w L lb tools ms (st\<lparr>ls_dir := dir, ls_files := fs\<rparr>))))"

subsection \<open>Overwriting and restoring files\<close>

text \<open>
  The interface to the build directory: overwriting a file that is there changes that file only.  So
  writing back what was read restores the tree.
\<close>

locale file_store =
  fixes read_file :: "'k \<Rightarrow> 's \<Rightarrow> 'v option"
    and overwrite :: "'k \<Rightarrow> 'v \<Rightarrow> 's \<Rightarrow> 's"
    and same :: "'k \<Rightarrow> 'k \<Rightarrow> bool"
  assumes read_overwrite:
    "read_file k s \<noteq> None \<Longrightarrow> read_file j (overwrite k v s) = (if same j k then Some v else read_file j s)"
    and read_same: "same j k \<Longrightarrow> read_file j s = read_file k s"
    and same_refl: "same k k"
begin

lemma restore:
  assumes "read_file k s = Some v" "\<And>i. read_file i s' = read_file i (overwrite k w s)"
  shows "read_file j (overwrite k v s') = read_file j s"
proof -
  have "read_file k s' = Some w" using assms read_overwrite same_refl by simp
  then have "read_file j (overwrite k v s') = (if same j k then Some v else read_file j s')"
    by (simp add: read_overwrite)
  also have "\<dots> = read_file j s"
    using assms read_overwrite [of k s j w] read_same [of j k s] by auto
  finally show ?thesis .
qed

end

definition file_key :: "path \<Rightarrow> path \<Rightarrow> string list" where
  "file_key dir rel = components (join_path dir rel)"

definition read_regular :: "path \<Rightarrow> path \<Rightarrow> files \<Rightarrow> string option" where
  "read_regular dir rel fs = (case fs (file_key dir rel) of Some (Regular c) \<Rightarrow> Some c | _ \<Rightarrow> None)"

interpretation bd: file_store "read_regular dir" "\<lambda>rel code fs. fst (overwrite_file WriteOk dir rel code fs)"
  "\<lambda>a b. file_key dir a = file_key dir b" for dir
  by unfold_locales
    (auto simp: read_regular_def overwrite_file_def file_key_def Let_def split: option.splits fnode.splits)

lemma overwrite_file_result:
  assumes "overwrite_file w dir rel code fs = (fs', r)"
  shows "k \<noteq> file_key dir rel \<Longrightarrow> fs' k = fs k"
    and "r = Ok () \<Longrightarrow> fs' = fs(file_key dir rel \<mapsto> Regular code) \<and> (\<exists>c. fs (file_key dir rel) = Some (Regular c))"
  using assms by (auto simp: overwrite_file_def file_key_def Let_def
      split: write_result.splits option.splits fnode.splits)

subsection \<open>What the operations leave alone\<close>

lemma set_output_simps [simp]:
  "ls_output (set_output od st) = od" "ls_files (set_output od st) = ls_files st"
  "ls_dir (set_output od st) = ls_dir st" "ls_fingerprints (set_output od st) = ls_fingerprints st"
  by (simp_all add: set_output_def)

lemma message_lab: "message ok sc msg od = (od', r) \<Longrightarrow> od_lab_outcome od' = od_lab_outcome od"
  by (auto simp: message_def frame_simps split: if_splits)

lemma write_diff_lab: "write_diff a b sc d od = (od', r) \<Longrightarrow> od_lab_outcome od' = od_lab_outcome od"
  by (auto simp: write_diff_def split: if_splits prod.splits sum.splits option.splits dest: message_lab)

lemma start_scenario_lab: "start_scenario ok s nm od = (od', r) \<Longrightarrow> od_lab_outcome od' = od_lab_outcome od"
  by (auto simp: start_scenario_def scenario_output_new_def Let_def frame_simps split: if_splits prod.splits)

lemma process_run_lab:
  "process_run w argv t sc od = Some (od', r) \<Longrightarrow> od_lab_outcome od' = od_lab_outcome od"
  by (auto simp: process_run_def split: if_splits prod.splits sum.splits option.splits dest!: message_lab)

lemma run_cargo_lab:
  "run_cargo env c pk p t o' ex sc od = Some (od', r) \<Longrightarrow> od_lab_outcome od' = od_lab_outcome od"
  by (auto simp: run_cargo_def Let_def split: if_splits prod.splits sum.splits option.splits dest: process_run_lab)

lemma run_cargo_phase:
  "run_cargo env c pk p t o' ex sc od = Some (od', Ok pr) \<Longrightarrow> pr_phase pr = p"
  by (auto simp: run_cargo_def Let_def split: if_splits prod.splits sum.splits option.splits)

lemma add_phase_result_simps [simp]:
  "so_phase_results (add_phase_result pr o') = so_phase_results o' @ [pr]"
  "so_scenario (add_phase_result pr o') = so_scenario o'"
  "so_skip_reason (add_phase_result pr o') = so_skip_reason o'"
  by (simp_all add: add_phase_result_def)

lemma set_skip_reason_simps [simp]:
  "so_phase_results (set_skip_reason r o') = so_phase_results o'"
  "so_scenario (set_skip_reason r o') = so_scenario o'"
  "so_skip_reason (set_skip_reason r o') = Some r"
  by (simp_all add: set_skip_reason_def)

subsection \<open>The loop over the phases\<close>

lemma run_phases_frame:
  assumes "run_phases lb w s packages ts extra sc ps o' st = Some (st', r)"
  shows "od_lab_outcome (ls_output st') = od_lab_outcome (ls_output st) \<and> ls_dir st' = ls_dir st
    \<and> ((\<forall>p fs. sw_tree_after w p fs k = fs k) \<longrightarrow> ls_files st' k = ls_files st k)
    \<and> (\<forall>e. r = PhasesAbort e \<longrightarrow>
          (e = LabPanic \<and> (\<forall>n. map_option full_name (scenario_mutant s) \<noteq> Some (Some n)))
          \<or> (e = LabOut OutIo \<and> \<not> sw_equivalent_message_ok w))
    \<and> (\<forall>e. r = PhasesErr e \<longrightarrow> (\<exists>e'. e = LabRun e'))"
  using assms
proof (induction lb w s packages ts extra sc ps o' st rule: run_phases.induct)
  case (2 lb w s packages ts extra sc p ps o' st)
  note IH = 2(1,2)
  from 2(3) obtain od res where c: "run_cargo (lb_env lb) (sw_cargo w p) packages p (timeout_of_phase ts p)
      (lb_options lb) extra sc (ls_output st) = Some (od, res)"
    by (auto split: option.splits)
  note lab = run_cargo_lab [OF c]
  show ?case
  proof (cases res)
    case (Inl e)
    with 2(3) c lab show ?thesis by auto
  next
    case (Inr pr)
    show ?thesis
      using 2(3) c lab Inr IH(1) [OF c refl refl Inr refl] IH(2) [OF c refl refl Inr refl]
      by (auto simp: Let_def message_def frame_simps split: if_splits option.splits prod.splits sum.splits)
  qed
qed auto

text \<open>What makes a build equivalent: its fingerprint is known and has been seen.\<close>

definition known_build :: "'fp lab \<Rightarrow> scenario_world \<Rightarrow> path \<Rightarrow> ('fp \<Rightarrow> string option) \<Rightarrow> bool" where
  "known_build lb w dir fps \<longleftrightarrow>
     (case fingerprint_build_artifacts (lb_digest lb) (sw_listing w) dir (lb_options lb) of
        None \<Rightarrow> False
      | Some fp \<Rightarrow> lb_baseline_fingerprint lb = Some fp \<or> fps fp \<noteq> None)"

lemma equivalent_build_known:
  "equivalent_build lb (sw_listing w) dir name fps = (Some eq, fps') \<Longrightarrow> known_build lb w dir fps"
  by (auto simp: equivalent_build_def known_build_def split: option.splits if_splits)

lemma equivalent_build_new:
  "equivalent_build lb (sw_listing w) dir name fps = (None, fps') \<Longrightarrow> \<not> known_build lb w dir fps"
  by (auto simp: equivalent_build_def known_build_def split: option.splits if_splits)

lemma phases_ran_Cons:
  "pr_phase pr = p \<Longrightarrow> pr_is_success pr \<or> rs = [] \<Longrightarrow> phases_ran ps rs \<Longrightarrow> phases_ran (p # ps) (pr # rs)"
  by (auto simp: phases_ran_def)

lemma phases_ran_single [simp]: "pr_phase pr = p \<Longrightarrow> phases_ran (p # ps) [pr]"
  by (simp add: phases_ran_def)

lemma run_phases_shape:
  assumes "run_phases lb w s packages ts extra sc ps o' st = Some (st', PhasesDone o1)"
    and "so_skip_reason o' = None" "distinct ps"
  shows "\<exists>rs. so_phase_results o1 = so_phase_results o' @ rs \<and> so_scenario o1 = so_scenario o'
    \<and> phases_ran ps rs \<and> (ps \<noteq> [] \<longrightarrow> rs \<noteq> [])
    \<and> (so_skip_reason o1 = None \<or>
        (so_skip_reason o1 = Some SkipEquivalent \<and> Build \<in> set ps \<and> is_mutant s
         \<and> opt_detect_equivalent_mutants (lb_options lb)
         \<and> (hd ps = Build \<longrightarrow> known_build lb w (ls_dir st) (ls_fingerprints st))))"
  using assms
proof (induction lb w s packages ts extra sc ps o' st rule: run_phases.induct)
  case (1 lb w s packages ts extra sc o' st)
  then show ?case by (auto simp: phases_ran_def)
next
  case (2 lb w s packages ts extra sc p ps o' st)
  note IH = 2(1,2)
  from 2(3) obtain od res where c0: "run_cargo (lb_env lb) (sw_cargo w p) packages p (timeout_of_phase ts p)
      (lb_options lb) extra sc (ls_output st) = Some (od, res)"
    by (auto split: option.splits)
  obtain pr where "res = Ok pr" using 2(3) c0 by (cases res) (simp_all add: Let_def)
  with c0 have c: "run_cargo (lb_env lb) (sw_cargo w p) packages p (timeout_of_phase ts p)
      (lb_options lb) extra sc (ls_output st) = Some (od, Ok pr)" by simp
  note ph = run_cargo_phase [OF c]
  let ?st1 = "st\<lparr>ls_output := od, ls_files := sw_tree_after w p (ls_files st)\<rparr>"
  let ?o1 = "add_phase_result pr o'"
  consider (stop) "\<not> pr_is_success pr"
    | (plain) "pr_is_success pr" "\<not> (p = Build \<and> opt_detect_equivalent_mutants (lb_options lb) \<and> is_mutant s)"
    | (new) name fps where "pr_is_success pr" "p = Build" "opt_detect_equivalent_mutants (lb_options lb)"
        "is_mutant s" "map_option full_name (scenario_mutant s) = Some (Some name)"
        "equivalent_build lb (sw_listing w) (ls_dir st) name (ls_fingerprints st) = (None, fps)"
    | (same) name eq fps where "pr_is_success pr" "p = Build" "opt_detect_equivalent_mutants (lb_options lb)"
        "is_mutant s" "map_option full_name (scenario_mutant s) = Some (Some name)"
        "equivalent_build lb (sw_listing w) (ls_dir st) name (ls_fingerprints st) = (Some eq, fps)"
    using 2(3) c by (auto simp: Let_def split: if_splits option.splits prod.splits)
  then show ?case
  proof cases
    case stop
    with 2(3) c ph 2(4) show ?thesis by auto
  next
    case plain
    with 2(3) c have r: "run_phases lb w s packages ts extra sc ps ?o1 ?st1 = Some (st', PhasesDone o1)"
      by simp
    from IH(2) [OF c refl refl refl refl _ _ r] plain 2(4,5)
    obtain rs where rs: "so_phase_results o1 = so_phase_results ?o1 @ rs" "so_scenario o1 = so_scenario o'"
      "phases_ran ps rs"
      "so_skip_reason o1 = None \<or> (so_skip_reason o1 = Some SkipEquivalent \<and> Build \<in> set ps \<and> is_mutant s
         \<and> opt_detect_equivalent_mutants (lb_options lb))" by auto
    have "p = Build \<Longrightarrow> Build \<notin> set ps" using 2(5) by auto
    with rs plain ph show ?thesis by (intro exI [of _ "pr # rs"]) (auto intro: phases_ran_Cons)
  next
    case new
    with 2(3) c have r: "run_phases lb w s packages ts extra sc ps ?o1 (?st1\<lparr>ls_fingerprints := fps\<rparr>)
        = Some (st', PhasesDone o1)" by (auto simp: Let_def)
    have e: "(None, fps) = equivalent_build lb (sw_listing w) (ls_dir st) name (ls_fingerprints ?st1)"
      using new(6) by simp
    from IH(1) [OF c refl refl refl refl _ _ new(5) refl e refl r] new 2(4,5)
    obtain rs where rs: "so_phase_results o1 = so_phase_results ?o1 @ rs" "so_scenario o1 = so_scenario o'"
      "phases_ran ps rs" "so_skip_reason o1 = None \<or> Build \<in> set ps" by auto
    have "Build \<notin> set ps" using 2(5) new by auto
    with rs new ph show ?thesis by (intro exI [of _ "pr # rs"]) (auto intro: phases_ran_Cons)
  next
    case same
    with 2(3) c have "o1 = set_skip_reason SkipEquivalent ?o1"
      by (auto simp: Let_def split: prod.splits sum.splits)
    with same ph equivalent_build_known [OF same(6)] show ?thesis
      by (intro exI [of _ "[pr]"]) auto
  qed
qed

subsection \<open>One scenario\<close>

lemma new_outcome_simps [simp]:
  "so_phase_results (new_outcome a b c s) = []" "so_scenario (new_outcome a b c s) = s"
  "so_skip_reason (new_outcome a b c s) = None"
  by (simp_all add: new_outcome_def)

lemma phases_distinct [simp]: "distinct (phases o')" "phases o' \<noteq> []"
  by (simp_all add: phases_def)

lemma finish_scenario_result:
  assumes "finish_scenario w o' st = (st', r)"
  shows "od_lab_outcome (ls_output st') = add_outcome o' (od_lab_outcome (ls_output st))"
    "ls_files st' = ls_files st" "ls_dir st' = ls_dir st" "r = Ok o1 \<Longrightarrow> o1 = o'"
    "\<nexists>e. r = Err (LabFs e)"
  using assms add_scenario_outcome_frame(3)
  by (auto simp: finish_scenario_def split: prod.splits sum.splits)

lemma revert_scenario_result:
  assumes "revert_scenario w (MutantScenario m) st = (st', r)"
  shows "ls_output st' = ls_output st" "ls_dir st' = ls_dir st"
    "k \<noteq> file_key (ls_dir st) (sf_tree_relative_path (mu_source_file m)) \<Longrightarrow> ls_files st' k = ls_files st k"
    "r = Ok () \<Longrightarrow> ls_files st' (file_key (ls_dir st) (sf_tree_relative_path (mu_source_file m)))
        = Some (Regular (sf_code (mu_source_file m)))"
    "r = Err e \<Longrightarrow> \<exists>e'. e = LabFs e'"
  using assms
  by (auto simp: revert_scenario_def revert_mutant_def split: prod.splits sum.splits
      dest: overwrite_file_result)

text \<open>The state of the tree while a mutant is applied.\<close>

definition mutant_applied :: "mutant \<Rightarrow> files \<Rightarrow> 'fp lab_state \<Rightarrow> bool" where
  "mutant_applied m fs st \<longleftrightarrow>
     (\<forall>k. k \<noteq> file_key (ls_dir st) (sf_tree_relative_path (mu_source_file m)) \<longrightarrow> ls_files st k = fs k)
     \<and> fs (file_key (ls_dir st) (sf_tree_relative_path (mu_source_file m)))
         = Some (Regular (sf_code (mu_source_file m)))"

lemma test_and_finish_files:
  assumes t: "test_and_finish lb w (MutantScenario m) packages ts extra sc o' st = Some (st', r)"
    and a: "mutant_applied m fs st" and k: "\<forall>p fs. sw_tree_after w p fs k = fs k"
    and n: "full_name m = Some n"
  shows "ls_files st' k = fs k \<or> (\<exists>e. r = Err (LabFs e))
    \<or> (r = Err (LabOut OutIo) \<and> \<not> sw_equivalent_message_ok w)"
proof -
  let ?key = "file_key (ls_dir st) (sf_tree_relative_path (mu_source_file m))"
  from t obtain st1 pe where p: "run_phases lb w (MutantScenario m) packages ts extra sc
      (phases (lb_options lb)) o' st = Some (st1, pe)"
    by (auto simp: test_and_finish_def split: option.splits)
  note f = run_phases_frame [OF p, of k]
  have rev: "ls_files st2 k = fs k" if "revert_scenario w (MutantScenario m) st1 = (st2, Ok ())" for st2
  proof (cases "k = ?key")
    case True
    then show ?thesis using revert_scenario_result(4) [OF that] f a by (simp add: mutant_applied_def)
  next
    case False
    then show ?thesis using revert_scenario_result(3) [OF that, of k] f a k by (simp add: mutant_applied_def)
  qed
  obtain st2 rr where r2: "revert_scenario w (MutantScenario m) st1 = (st2, rr)" by fastforce
  show ?thesis
  proof (cases pe)
    case (PhasesAbort e)
    then show ?thesis using t p f n by (auto simp: test_and_finish_def scenario_mutant_def)
  next
    case (PhasesErr e)
    show ?thesis
    proof (cases rr)
      case (Inl e')
      then show ?thesis using t p PhasesErr r2 revert_scenario_result(5) [OF r2, of e']
        by (auto simp: test_and_finish_def)
    next
      case (Inr u)
      then show ?thesis using t p PhasesErr r2 rev by (auto simp: test_and_finish_def)
    qed
  next
    case (PhasesDone o1)
    show ?thesis
    proof (cases rr)
      case (Inl e')
      then show ?thesis using t p PhasesDone r2 revert_scenario_result(5) [OF r2, of e']
        by (auto simp: test_and_finish_def)
    next
      case (Inr u)
      then have "finish_scenario w o1 st2 = (st', r)" using t p PhasesDone r2
        by (auto simp: test_and_finish_def)
      from finish_scenario_result(2) [OF this] show ?thesis using rev r2 Inr by simp
    qed
  qed
qed

lemma test_and_finish_Ok:
  assumes t: "test_and_finish lb w s packages ts extra sc o' st = Some (st', Ok o1)"
    and o': "so_skip_reason o' = None" "so_phase_results o' = []" "so_scenario o' = s"
  shows "so_scenario o1 = s \<and> so_phase_results o1 \<noteq> []
    \<and> phases_ran (phases (lb_options lb)) (so_phase_results o1)
    \<and> od_lab_outcome (ls_output st') = add_outcome o1 (od_lab_outcome (ls_output st))
    \<and> ls_dir st' = ls_dir st
    \<and> (so_skip_reason o1 = None \<or> (so_skip_reason o1 = Some SkipEquivalent
         \<and> opt_detect_equivalent_mutants (lb_options lb) \<and> \<not> opt_check_only (lb_options lb) \<and> is_mutant s
         \<and> known_build lb w (ls_dir st) (ls_fingerprints st)))"
proof -
  from t obtain st1 pe where p: "run_phases lb w s packages ts extra sc (phases (lb_options lb)) o' st
      = Some (st1, pe)" by (auto simp: test_and_finish_def split: option.splits)
  obtain st2 rr where r2: "revert_scenario w s st1 = (st2, rr)" by fastforce
  obtain o2 where pe: "pe = PhasesDone o2" "rr = Ok ()" "finish_scenario w o2 st2 = (st', Ok o1)"
    using t p r2 by (cases pe; cases rr) (auto simp: test_and_finish_def)
  have out: "ls_output st2 = ls_output st1 \<and> ls_dir st2 = ls_dir st1"
  proof (cases s)
    case Baseline
    then show ?thesis using r2 by (simp add: revert_scenario_def)
  next
    case (MutantScenario m)
    show ?thesis
      using revert_scenario_result(1,2) [OF r2 [unfolded MutantScenario]] by (rule conjI)
  qed
  note f = finish_scenario_result [OF pe(3)]
  have o1: "o1 = o2" by (rule f(4) [OF refl])
  from run_phases_shape [OF p [unfolded pe(1)] o'(1) phases_distinct(1)] obtain rs where
    rs: "so_phase_results o2 = rs" "so_scenario o2 = s" "phases_ran (phases (lb_options lb)) rs" "rs \<noteq> []"
    "so_skip_reason o2 = None \<or> (so_skip_reason o2 = Some SkipEquivalent \<and> Build \<in> set (phases (lb_options lb))
       \<and> is_mutant s \<and> opt_detect_equivalent_mutants (lb_options lb)
       \<and> (hd (phases (lb_options lb)) = Build \<longrightarrow> known_build lb w (ls_dir st) (ls_fingerprints st)))"
    using o' by auto
  have b: "Build \<in> set (phases x) \<longleftrightarrow> \<not> opt_check_only x" "hd (phases x) = Build \<longleftrightarrow> \<not> opt_check_only x" for x
    by (simp_all add: phases_def)
  have "od_lab_outcome (ls_output st1) = od_lab_outcome (ls_output st)" "ls_dir st1 = ls_dir st"
    using run_phases_frame [OF p] by simp_all
  then show ?thesis using f(1,3) out rs unfolding o1 b by metis
qed

lemma run_one_scenario_start:
  assumes "run_one_scenario lb w s packages ts extra st = Some (st', Ok o1)"
  obtains nm od sc where "show_scenario s = Some nm"
    "start_scenario (sw_start_ok w) s nm (ls_output st) = (od, Ok sc)"
    "od_lab_outcome od = od_lab_outcome (ls_output st)"
    "(case s of
        MutantScenario m \<Rightarrow> run_mutant lb w m packages ts extra sc
          (new_outcome (sc_output_dir sc) (sc_log_path sc) (sc_diff_path sc) s) (set_output od st)
      | Baseline \<Rightarrow> test_and_finish lb w s packages ts extra sc
          (new_outcome (sc_output_dir sc) (sc_log_path sc) (sc_diff_path sc) s) (set_output od st))
      = Some (st', Ok o1)"
proof -
  from assms obtain nm where nm: "show_scenario s = Some nm"
    by (auto simp: run_one_scenario_def split: option.splits)
  obtain od r where st: "start_scenario (sw_start_ok w) s nm (ls_output st) = (od, r)" by fastforce
  with assms nm obtain sc where "r = Ok sc"
    by (cases r) (auto simp: run_one_scenario_def)
  with st have st': "start_scenario (sw_start_ok w) s nm (ls_output st) = (od, Ok sc)" by simp
  have op: "sw_open_read_ok w"
    using assms by (cases "sw_open_read_ok w") (simp_all add: run_one_scenario_def nm st' Let_def)
  show thesis
    by (rule that [OF nm st' start_scenario_lab [OF st']])
      (use assms op in \<open>simp add: run_one_scenario_def nm st' Let_def\<close>)
qed

lemma run_mutant_Ok:
  assumes r: "run_mutant lb w m packages ts extra sc o' st = Some (st', Ok o1)"
    and o': "so_skip_reason o' = None" "so_phase_results o' = []" "so_scenario o' = MutantScenario m"
  shows "so_scenario o1 = MutantScenario m
    \<and> od_lab_outcome (ls_output st') = add_outcome o1 (od_lab_outcome (ls_output st)) \<and> ls_dir st' = ls_dir st
    \<and> (if uncovered_message lb m \<noteq> None
       then so_phase_results o1 = [] \<and> so_skip_reason o1 = Some SkipUncovered \<and> ls_files st' = ls_files st
       else so_phase_results o1 \<noteq> [] \<and> phases_ran (phases (lb_options lb)) (so_phase_results o1)
         \<and> (so_skip_reason o1 = None \<or> (so_skip_reason o1 = Some SkipEquivalent
              \<and> opt_detect_equivalent_mutants (lb_options lb) \<and> \<not> opt_check_only (lb_options lb)
              \<and> known_build lb w (ls_dir st) (ls_fingerprints st))))"
proof -
  from r obtain diff code where dc: "diff_of (lb_unified lb) m = Some diff" "mutated_code m = Some code"
    by (auto simp: run_mutant_def split: option.splits)
  obtain od1 r1 where wd: "write_diff (sw_diff_message_ok w) (sw_diff_write_ok w) sc diff (ls_output st) = (od1, r1)"
    by fastforce
  with r dc obtain u where r1: "r1 = Ok u" by (cases r1) (auto simp: run_mutant_def)
  note lab1 = write_diff_lab [OF wd]
  show ?thesis
  proof (cases "uncovered_message lb m")
    case None
    obtain fs ra where ap: "apply_mutant (sw_apply w) m (ls_dir st) code (ls_files st) = (fs, ra)" by fastforce
    with r dc wd r1 None have t: "test_and_finish lb w (MutantScenario m) packages ts extra sc o'
        ((set_output od1 st)\<lparr>ls_files := fs\<rparr>) = Some (st', Ok o1)"
      by (cases ra) (auto simp: run_mutant_def)
    from test_and_finish_Ok [OF t o'] show ?thesis using None lab1 by (simp add: set_output_def)
  next
    case (Some msg)
    obtain od2 r2 where ms: "message (sw_uncovered_message_ok w) sc msg od1 = (od2, r2)" by fastforce
    with r dc wd r1 Some have f: "finish_scenario w (set_skip_reason SkipUncovered o') (set_output od2 st) = (st', Ok o1)"
      by (cases r2) (auto simp: run_mutant_def)
    show ?thesis
      using finish_scenario_result [OF f] message_lab [OF ms] lab1 o' Some by simp
  qed
qed

subsection \<open>The queue and the whole run\<close>

lemma run_one_mutant_Ok:
  assumes r: "run_one_scenario lb w (MutantScenario m) packages ts extra st = Some (st', Ok o1)"
  shows "so_scenario o1 = MutantScenario m
    \<and> od_lab_outcome (ls_output st') = add_outcome o1 (od_lab_outcome (ls_output st)) \<and> ls_dir st' = ls_dir st
    \<and> (if uncovered_message lb m \<noteq> None
       then so_phase_results o1 = [] \<and> so_skip_reason o1 = Some SkipUncovered \<and> ls_files st' = ls_files st
       else so_phase_results o1 \<noteq> [] \<and> phases_ran (phases (lb_options lb)) (so_phase_results o1)
         \<and> (so_skip_reason o1 = None \<or> (so_skip_reason o1 = Some SkipEquivalent
              \<and> opt_detect_equivalent_mutants (lb_options lb) \<and> \<not> opt_check_only (lb_options lb)
              \<and> known_build lb w (ls_dir st) (ls_fingerprints st))))"
proof -
  obtain nm od sc where "show_scenario (MutantScenario m) = Some nm"
    and "start_scenario (sw_start_ok w) (MutantScenario m) nm (ls_output st) = (od, Ok sc)"
    and s: "od_lab_outcome od = od_lab_outcome (ls_output st)"
    "(case MutantScenario m of
        MutantScenario m' \<Rightarrow> run_mutant lb w m' packages ts extra sc
          (new_outcome (sc_output_dir sc) (sc_log_path sc) (sc_diff_path sc) (MutantScenario m)) (set_output od st)
      | Baseline \<Rightarrow> test_and_finish lb w (MutantScenario m) packages ts extra sc
          (new_outcome (sc_output_dir sc) (sc_log_path sc) (sc_diff_path sc) (MutantScenario m)) (set_output od st))
      = Some (st', Ok o1)"
    by (rule run_one_scenario_start [OF r])
  then have s': "run_mutant lb w m packages ts extra sc
      (new_outcome (sc_output_dir sc) (sc_log_path sc) (sc_diff_path sc) (MutantScenario m)) (set_output od st)
      = Some (st', Ok o1)" by simp
  from run_mutant_Ok [OF s'] s(1) show ?thesis by (simp cong: if_cong)
qed

lemma run_baseline_Ok:
  assumes "run_one_scenario lb w Baseline packages ts extra st = Some (st', Ok o1)"
  shows "so_scenario o1 = Baseline
    \<and> od_lab_outcome (ls_output st') = add_outcome o1 (od_lab_outcome (ls_output st)) \<and> ls_dir st' = ls_dir st
    \<and> so_skip_reason o1 = None \<and> phases_ran (phases (lb_options lb)) (so_phase_results o1)"
proof -
  obtain nm od sc where "show_scenario Baseline = Some nm"
    and "start_scenario (sw_start_ok w) Baseline nm (ls_output st) = (od, Ok sc)"
    and s: "od_lab_outcome od = od_lab_outcome (ls_output st)"
    "(case Baseline of
        MutantScenario m' \<Rightarrow> run_mutant lb w m' packages ts extra sc
          (new_outcome (sc_output_dir sc) (sc_log_path sc) (sc_diff_path sc) Baseline) (set_output od st)
      | Baseline \<Rightarrow> test_and_finish lb w Baseline packages ts extra sc
          (new_outcome (sc_output_dir sc) (sc_log_path sc) (sc_diff_path sc) Baseline) (set_output od st))
      = Some (st', Ok o1)"
    by (rule run_one_scenario_start [OF assms])
  then have s': "test_and_finish lb w Baseline packages ts extra sc
      (new_outcome (sc_output_dir sc) (sc_log_path sc) (sc_diff_path sc) Baseline) (set_output od st)
      = Some (st', Ok o1)" by simp
  from test_and_finish_Ok [OF s'] s(1) show ?thesis by simp
qed

lemma run_queue_Ok:
  "run_queue lb ws i ms ts st = Some (st', Ok ()) \<Longrightarrow>
    \<exists>os. map so_scenario os = map MutantScenario ms
      \<and> od_lab_outcome (ls_output st') = fold add_outcome os (od_lab_outcome (ls_output st))"
proof (induction lb ws i ms ts st rule: run_queue.induct)
  case (2 lb ws i m ms ts st)
  from 2(2) obtain st1 o1 where
    r: "run_one_scenario lb (ws i) (MutantScenario m) (packages_for lb m) ts [] st = Some (st1, Ok o1)"
    and q: "run_queue lb ws (i + 1) ms ts st1 = Some (st', Ok ())"
    by (auto split: option.splits sum.splits)
  from 2(1) [OF r refl refl q] obtain os where os: "map so_scenario os = map MutantScenario ms"
    "od_lab_outcome (ls_output st') = fold add_outcome os (od_lab_outcome (ls_output st1))" by blast
  with run_one_mutant_Ok [OF r] show ?case by (intro exI [of _ "o1 # os"]) simp
qed simp

lemma lab_exit_code_end_time [simp]: "lab_exit_code (lo\<lparr>lo_end_time := t\<rparr>) = lab_exit_code lo"
  by (simp add: lab_exit_code_def)

lemma finish_lab_Ok:
  "finish_lab w st = (st', Ok lo) \<Longrightarrow>
    lo_outcomes lo = lo_outcomes (od_lab_outcome (ls_output st))
    \<and> lab_exit_code lo = lab_exit_code (od_lab_outcome (ls_output st))"
  by (cases "rw_finish w")
    (auto simp: finish_lab_def finish_def write_lab_outcome_def Let_def)

lemma test_with_timeouts_Ok:
  assumes "test_with_timeouts w lb ts ms st = Some (st', Ok lo)"
  shows "\<exists>os. map so_scenario os = map MutantScenario ms
    \<and> lo_outcomes lo = lo_outcomes (od_lab_outcome (ls_output st)) @ os
    \<and> lab_exit_code lo = lab_exit_code (fold add_outcome os (od_lab_outcome (ls_output st)))"
proof -
  from assms obtain t st1 where q: "run_queue lb (rw_mutants w) 0 ms t st = Some (st1, Ok ())"
    and f: "finish_lab w st1 = (st', Ok lo)"
    by (auto simp: test_with_timeouts_def split: option.splits sum.splits)
  from run_queue_Ok [OF q] finish_lab_Ok [OF f] show ?thesis by (auto simp: outcomes_fold)
qed

lemma test_in_build_dir_Ok:
  assumes run: "test_in_build_dir w L lb tools ms st0 = Some (st, Ok lo)"
    and fresh: "od_lab_outcome (ls_output st0) = new_lab_outcome"
  shows "if opt_baseline (lb_options lb) = BaselineSkip
    then map so_scenario (lo_outcomes lo) = map MutantScenario ms
    else \<exists>b os. lo_outcomes lo = b # os \<and> so_scenario b = Baseline
      \<and> (if success b then map so_scenario os = map MutantScenario ms
         else os = [] \<and> lab_exit_code lo = ECBaselineFailed)"
proof -
  have no: "lo_outcomes new_lab_outcome = []" by (simp add: new_lab_outcome_def)
  show ?thesis
  proof (cases "opt_baseline (lb_options lb)")
    case BaselineSkip
    with run have "test_with_timeouts w lb (timeouts_without_baseline L (lb_options lb)) ms st0
        = Some (st, Ok lo)" by (simp add: test_in_build_dir_def)
    from test_with_timeouts_Ok [OF this] BaselineSkip fresh no show ?thesis by simp
  next
    case BaselineRun
    with run obtain lb1 st1 b where rb: "run_baseline lb (rw_baseline w) tools (rw_profraw_dir_ok w)
          (rw_coverage w) ms st0 = Some (lb1, st1, Ok b)"
      and rest: "(if success b
           then test_with_timeouts w lb1 (timeouts_from_baseline L b (lb_options lb)) ms st1
           else Some (finish_lab w st1)) = Some (st, Ok lo)"
      by (auto simp: test_in_build_dir_def split: option.splits sum.splits prod.splits)
    from rb obtain pk ts ex where "run_one_scenario lb (rw_baseline w) Baseline pk ts ex st0 = Some (st1, Ok b)"
      by (auto simp: run_baseline_def Let_def split: option.splits sum.splits prod.splits if_splits)
    from run_baseline_Ok [OF this] fresh have b: "so_scenario b = Baseline"
      "od_lab_outcome (ls_output st1) = add_outcome b new_lab_outcome" by auto
    show ?thesis
    proof (cases "success b")
      case True
      with rest have "test_with_timeouts w lb1 (timeouts_from_baseline L b (lb_options lb)) ms st1 = Some (st, Ok lo)"
        by simp
      from test_with_timeouts_Ok [OF this] show ?thesis
        using BaselineRun True b no by (auto simp: frame_simps)
    next
      case fail: False
      with rest have "finish_lab w st1 = (st, Ok lo)" by simp
      from finish_lab_Ok [OF this] b no fail show ?thesis
        using BaselineRun by (auto simp: frame_simps lab_exit_code_def)
    qed
  qed
qed

subsection \<open>An example\<close>

definition example_cargo :: "exit_status \<Rightarrow> cargo" where
  "example_cargo e argv vars =
     \<lparr>cw_message_ok = True, cw_spawn_ok = True,
      cw_observations = [\<lparr>ob_elapsed = 1, ob_interrupted = False, ob_terminate_ok = True, ob_poll = Ok (Some e)\<rparr>],
      cw_result_message_ok = True, cw_interrupted_after = False, cw_elapsed = 1\<rparr>"

definition example_world :: "(phase \<Rightarrow> exit_status) \<Rightarrow> scenario_world" where
  "example_world f =
     \<lparr>sw_start_ok = True, sw_open_read_ok = True, sw_diff_message_ok = True, sw_diff_write_ok = True,
      sw_uncovered_message_ok = True, sw_apply = WriteOk, sw_cargo = (\<lambda>p. example_cargo (f p)),
      sw_tree_after = (\<lambda>p fs. fs), sw_listing = (\<lambda>_. None), sw_equivalent_message_ok = True,
      sw_revert = WriteOk, sw_json = JsonOk, sw_list_ok = True, sw_now = 0\<rparr>"

definition example_lab :: "string lab" where
  "example_lab =
     \<lparr>lb_options = example_options, lb_env = (\<lambda>_. None), lb_unified = (\<lambda>a b. b),
      lb_digest = concat \<circ> map snd, lb_debug = (\<lambda>s. s), lb_baseline_fingerprint = None,
      lb_coverage = None, lb_tests_for_mutant = None\<rparr>"

definition example_files :: files where
  "example_files = [file_key ''/w'' ''src/lib.rs'' \<mapsto> Regular (sf_code example_source)]"

definition example_state :: "string lab_state" where
  "example_state =
     \<lparr>ls_dir = ''/w'', ls_files = example_files, ls_output = empty_output_dir ''/w/mutants.out'',
      ls_fingerprints = (\<lambda>_. None)\<rparr>"

definition no_timeouts :: timeouts where
  "no_timeouts = \<lparr>to_build = None, to_test = None\<rparr>"

lemma example_mutated_code:
  "mutated_code example_mutant
    = Some (''fn f() {'' @ [newline] @ ''() /* ~ changed by cargo-mutants ~ */ }'')"
  by (simp add: mutated_code_def replace_indexed_def byte_range_def byte_offset_def example_mutant_def
      new_discovered_def example_source_def quad_def line_index_new_def get_opt_def line_end_of_def
      slice_def boundary_def is_cont_def replacement_with_marker_def MUTATION_MARKER_COMMENT_def)

lemma example_diff: "\<exists>d. diff_of u example_mutant = Some d"
  using diff_window_exists [OF example_mutant_ok] example_mutant_position by (auto simp: diff_of_def)

lemma example_show: "show_scenario (MutantScenario example_mutant) = Some ''src/lib.rs:2:1: replace f with ()''"
  by (simp add: show_scenario_def name_of_def write_name_def mutant_names_agree_example)

lemma example_key: "sf_tree_relative_path (mu_source_file example_mutant) = ''src/lib.rs''"
  "sf_code (mu_source_file example_mutant) = ''fn f() {'' @ [newline] @ ''1 }''"
  by (simp_all add: example_mutant_def new_discovered_def example_source_def)

lemma example_options_simps [simp]:
  "phases example_options = [Build, Test]" "opt_detect_equivalent_mutants example_options = False"
  "opt_check_only example_options = False"
  by (simp_all add: example_options_def phases_def)

lemma example_lab_simps [simp]:
  "lb_options example_lab = example_options" "lb_unified example_lab = (\<lambda>a b. b)"
  "lb_coverage example_lab = None"
  by (simp_all add: example_lab_def)

lemma example_world_simps [simp]:
  "sw_start_ok (example_world f)" "sw_open_read_ok (example_world f)" "sw_diff_message_ok (example_world f)"
  "sw_diff_write_ok (example_world f)" "sw_apply (example_world f) = WriteOk"
  "sw_cargo (example_world f) p = example_cargo (f p)" "sw_tree_after (example_world f) p fs = fs"
  "sw_revert (example_world f) = WriteOk" "sw_json (example_world f) = JsonOk"
  "sw_list_ok (example_world f)" "sw_listing (example_world f) d = None"
  by (simp_all add: example_world_def)

lemma example_state_simps [simp]:
  "ls_dir example_state = ''/w''" "ls_files example_state = example_files"
  "ls_output example_state = empty_output_dir ''/w/mutants.out''"
  by (simp_all add: example_state_def)

text \<open>A lab that builds and tests with nothing special, with time enough for the runs of the example.\<close>

definition plain_lab :: "'fp lab \<Rightarrow> bool" where
  "plain_lab lb \<longleftrightarrow> phases (lb_options lb) = [Build, Test] \<and> \<not> opt_detect_equivalent_mutants (lb_options lb)
     \<and> lb_coverage lb = None"

definition ample :: "timeouts \<Rightarrow> bool" where
  "ample ts \<longleftrightarrow> (\<forall>p t. timeout_of_phase ts p = Some t \<longrightarrow> 1 < t)"

lemma example_plain [simp]: "plain_lab example_lab" "ample no_timeouts"
  by (simp_all add: plain_lab_def ample_def timeout_of_phase_def no_timeouts_def split: phase.splits)

lemma example_run_cargo:
  assumes "ample ts"
  shows "\<exists>od' pr. run_cargo env (example_cargo e) pk p (timeout_of_phase ts p) o' ex sc od = Some (od', Ok pr)
    \<and> pr_phase pr = p \<and> pr_status pr = e"
proof -
  have "\<not> is_some_and (timeout_of_phase ts p) (\<lambda>t. 1 > t)"
    using assms by (fastforce simp: ample_def is_some_and_def split: option.splits)
  then show ?thesis
    by (simp add: run_cargo_def process_run_def message_def example_cargo_def wait_step_def Let_def)
qed

lemma example_finish:
  assumes "sw_json w = JsonOk" "sw_list_ok w" "so_scenario o' = MutantScenario example_mutant"
  shows "\<exists>st'. finish_scenario w o' st = (st', Ok o')"
  using add_scenario_outcome_ok [of o' "sw_now w" "ls_output st"] assms example_mutant_ok
  by (auto simp: finish_scenario_def outcome_ok_def)

lemma example_files_restored:
  "overwrite_file WriteOk ''/w'' ''src/lib.rs'' c example_files
    = (example_files(file_key ''/w'' ''src/lib.rs'' \<mapsto> Regular c), Ok ())"
  "overwrite_file WriteOk ''/w'' ''src/lib.rs'' c (example_files(file_key ''/w'' ''src/lib.rs'' \<mapsto> Regular d))
    = (example_files(file_key ''/w'' ''src/lib.rs'' \<mapsto> Regular c), Ok ())"
  by (simp_all add: overwrite_file_def example_files_def file_key_def Let_def)

text \<open>The output directory before the first scenario, with or without a list of mutants.\<close>

definition fresh_output :: "output_dir \<Rightarrow> bool" where
  "fresh_output od \<longleftrightarrow> (\<exists>x. od = (empty_output_dir ''/w/mutants.out'')\<lparr>od_mutants_json := x\<rparr>)"

lemma fresh_output_empty [simp]: "fresh_output (empty_output_dir ''/w/mutants.out'')"
  by (auto simp: fresh_output_def empty_output_dir_def)

lemma example_start:
  assumes "fresh_output od0"
  shows "\<exists>od sc. start_scenario True (MutantScenario example_mutant) nm od0 = (od, Ok sc) \<and> sc_diff_path sc \<noteq> None"
  using assms
  by (auto simp: fresh_output_def start_scenario_def allocate_name_def empty_output_dir_def scenario_output_new_def Let_def)

lemma example_phases:
  assumes "f Build = ExitSuccess" "plain_lab lb" "ample ts"
  shows "\<exists>st1 o1. run_phases lb (example_world f) (MutantScenario example_mutant) pk ts ex sc
      [Build, Test] o' st = Some (st1, PhasesDone o1)
    \<and> ls_files st1 = ls_files st \<and> ls_dir st1 = ls_dir st \<and> so_scenario o1 = so_scenario o'
    \<and> map pr_status (so_phase_results o1) = map pr_status (so_phase_results o') @ [ExitSuccess, f Test]
    \<and> so_skip_reason o1 = so_skip_reason o'"
proof -
  obtain od1 b where 1: "run_cargo (lb_env lb) (example_cargo ExitSuccess) pk Build
      (timeout_of_phase ts Build) (lb_options lb) ex sc (ls_output st) = Some (od1, Ok b)"
      "pr_status b = ExitSuccess"
    using example_run_cargo [OF assms(3)] by metis
  obtain od2 t where 2: "run_cargo (lb_env lb) (example_cargo (f Test)) pk Test
      (timeout_of_phase ts Test) (lb_options lb) ex sc od1 = Some (od2, Ok t)"
      "pr_status t = f Test"
    using example_run_cargo [OF assms(3)] by metis
  show ?thesis using 1 2 assms by (simp add: Let_def pr_is_success_def plain_lab_def)
qed

lemma example_run:
  assumes "f Build = ExitSuccess" "plain_lab lb" "ample ts"
    and st: "ls_dir st = ''/w''" "ls_files st = example_files" "fresh_output (ls_output st)"
  shows "\<exists>st' o1. run_one_scenario lb (example_world f) (MutantScenario example_mutant) pk ts [] st = Some (st', Ok o1)
    \<and> map pr_status (so_phase_results o1) = [ExitSuccess, f Test] \<and> so_skip_reason o1 = None"
proof -
  let ?nm = "''src/lib.rs:2:1: replace f with ()''" let ?w = "example_world f"
  let ?s = "MutantScenario example_mutant"
  obtain d where d: "diff_of (lb_unified lb) example_mutant = Some d" using example_diff by blast
  obtain od sc where s: "start_scenario True ?s ?nm (ls_output st) = (od, Ok sc)"
    "sc_diff_path sc \<noteq> None" using example_start [OF st(3)] by metis
  obtain od1 where wd: "write_diff True True sc d od = (od1, Ok ())"
    using s(2) by (auto simp: write_diff_def message_def)
  let ?o = "new_outcome (sc_output_dir sc) (sc_log_path sc) (sc_diff_path sc) ?s"
  define st1 where "st1 = (set_output od1 (set_output od st))\<lparr>ls_files :=
      example_files(file_key ''/w'' ''src/lib.rs'' \<mapsto> Regular (the (mutated_code example_mutant)))\<rparr>"
  have st1: "ls_files st1 = example_files(file_key ''/w'' ''src/lib.rs'' \<mapsto> Regular (the (mutated_code example_mutant)))"
    "ls_dir st1 = ''/w''" by (simp_all add: st1_def set_output_def st)
  from example_phases [of f lb ts pk "[]" sc ?o st1, OF assms(1-3)] obtain st2 o2 where
    p: "run_phases lb ?w ?s pk ts [] sc [Build, Test] ?o st1 = Some (st2, PhasesDone o2)"
    "ls_files st2 = ls_files st1" "ls_dir st2 = ls_dir st1" "so_scenario o2 = ?s"
    "map pr_status (so_phase_results o2) = [ExitSuccess, f Test]" "so_skip_reason o2 = None" by auto
  obtain st3 where rv: "revert_scenario ?w ?s st2 = (st3, Ok ())"
    using p(2,3) st1 by (simp add: revert_scenario_def revert_mutant_def example_key example_files_restored)
  obtain st4 where fin: "finish_scenario ?w o2 st3 = (st4, Ok o2)"
    using example_finish [of ?w o2 st3] p(4) by auto
  have "run_one_scenario lb ?w ?s pk ts [] st = Some (st4, Ok o2)"
    using p(1) rv fin d s wd assms(2)
    by (simp add: run_one_scenario_def example_show Let_def run_mutant_def example_mutated_code plain_lab_def st
        uncovered_message_def apply_mutant_def example_key example_files_restored test_and_finish_def st1_def)
  then show ?thesis using p(5,6) by (intro exI conjI)
qed

subsection \<open>Properties\<close>

text \<open>C3: A mutant leaves no trace in the build directory: after the scenario, whether it succeeded or
  cargo failed or was interrupted, the mutated file holds its original code again and every file that
  cargo itself leaves alone is as before.  The exceptions are a failure to write the file itself, and
  a failure to log that a build is equivalent.\<close>

theorem mutant_run_restores_tree:
  assumes run: "run_one_scenario lb w (MutantScenario m) packages ts extra st = Some (st', r)"
    and orig: "ls_files st (file_key (ls_dir st) (sf_tree_relative_path (mu_source_file m)))
      = Some (Regular (sf_code (mu_source_file m)))"
    and keeps: "\<forall>p fs. sw_tree_after w p fs k = fs k"
  shows "ls_files st' k = ls_files st k \<or> (\<exists>e. r = Err (LabFs e))
    \<or> (r = Err (LabOut OutIo) \<and> \<not> sw_equivalent_message_ok w)"
proof -
  consider (same) "ls_files st' = ls_files st"
    | (fs) e where "r = Err (LabFs e)"
    | (test) sc o' od fs n where "test_and_finish lb w (MutantScenario m) packages ts extra sc o'
        ((set_output od st)\<lparr>ls_files := fs\<rparr>) = Some (st', r)"
      "mutant_applied m (ls_files st) ((set_output od st)\<lparr>ls_files := fs\<rparr>)" "full_name m = Some n"
  proof -
    obtain nm where "show_scenario (MutantScenario m) = None \<or> (show_scenario (MutantScenario m) = Some nm
        \<and> full_name m = Some nm)"
      by (cases "full_name m") (auto simp: show_scenario_def name_of_def write_name_def)
    moreover obtain od rs where "start_scenario (sw_start_ok w) (MutantScenario m) nm (ls_output st) = (od, rs)"
      by fastforce
    moreover obtain od1 rd where "\<And>d sc. rs = Ok sc \<Longrightarrow> diff_of (lb_unified lb) m = Some d \<Longrightarrow>
        write_diff (sw_diff_message_ok w) (sw_diff_write_ok w) sc d od = (od1, rd)"
      by (cases rs; cases "diff_of (lb_unified lb) m") fastforce+
    moreover obtain fs ra where ap: "\<And>c. mutated_code m = Some c \<Longrightarrow>
        apply_mutant (sw_apply w) m (ls_dir st) c (ls_files st) = (fs, ra)"
      by (cases "mutated_code m") fastforce+
    moreover have "mutant_applied m (ls_files st) ((set_output od1 st)\<lparr>ls_files := fs\<rparr>)"
      if "mutated_code m = Some c" for c
      using ap [OF that] orig unfolding mutant_applied_def apply_mutant_def
      by (auto simp: set_output_def dest: overwrite_file_result(1))
    ultimately show thesis
      using run that
      by (cases ra; cases rd; cases rs)
        (auto simp: run_one_scenario_def run_mutant_def Let_def set_output_def finish_scenario_result(2)
          split: option.splits if_splits prod.splits sum.splits
          dest: finish_scenario_result(2))
  qed
  then show ?thesis
  proof cases
    case test
    from test_and_finish_files [OF test(1,2) keeps test(3)] show ?thesis .
  qed auto
qed

lemma mutant_run_restores_tree_witness:
  "\<exists>st' o1. run_one_scenario example_lab (example_world (\<lambda>_. ExitSuccess)) (MutantScenario example_mutant)
      SelAll no_timeouts [] example_state = Some (st', Ok o1)
    \<and> ls_files st' (file_key ''/w'' ''src/lib.rs'') = Some (Regular (''fn f() {'' @ [newline] @ ''1 }''))"
proof -
  obtain st' o1 where r: "run_one_scenario example_lab (example_world (\<lambda>_. ExitSuccess))
      (MutantScenario example_mutant) SelAll no_timeouts [] example_state = Some (st', Ok o1)"
    using example_run [of "\<lambda>_. ExitSuccess" example_lab no_timeouts example_state SelAll] by auto
  have "example_files (file_key ''/w'' ''src/lib.rs'') = Some (Regular (''fn f() {'' @ [newline] @ ''1 }''))"
    by (simp add: example_files_def example_source_def)
  with mutant_run_restores_tree [OF r, of "file_key ''/w'' ''src/lib.rs''"] r show ?thesis
    by (simp add: example_key)
qed



lemma test_mutants_outcomes:
  assumes run: "test_mutants w L lb ms0 st0 = Some (st, Ok lo)"
    and fresh: "od_lab_outcome (ls_output st0) = new_lab_outcome"
    and ms: "ms = (if opt_shuffle (lb_options lb) then rw_shuffle w ms0 else ms0)"
  shows "if ms = [] then lo = new_lab_outcome
    else if opt_baseline (lb_options lb) = BaselineSkip
    then map so_scenario (lo_outcomes lo) = map MutantScenario ms
    else \<exists>b os. lo_outcomes lo = b # os \<and> so_scenario b = Baseline
      \<and> (if success b then map so_scenario os = map MutantScenario ms
         else os = [] \<and> lab_exit_code lo = ECBaselineFailed)"
proof -
  obtain od where wl: "write_mutants_list (rw_mutants_list_ok w) ms (ls_output st0) = (od, Ok ())"
    and tools: "\<exists>tools. coverage_tools (rw_tools_found w) (lb_options lb) = Ok tools"
    and dbg: "rw_debug_log_ok w"
    using run by (auto simp: test_mutants_def Let_def ms split: sum.splits if_splits prod.splits)
  then obtain tools where tools: "coverage_tools (rw_tools_found w) (lb_options lb) = Ok tools" by blast
  show ?thesis
  proof (cases "ms = []")
    case True
    with run wl show ?thesis unfolding test_mutants_def tools ms [symmetric] Let_def by (simp add: dbg)
  next
    case False
    have o0: "od_lab_outcome (ls_output (set_output od st0)) = new_lab_outcome"
      using wl fresh by (auto simp: write_mutants_list_def split: if_splits)
    obtain dir fs where "test_in_build_dir w L lb tools ms ((set_output od st0)\<lparr>ls_dir := dir, ls_files := fs\<rparr>)
        = Some (st, Ok lo)"
      using run False unfolding test_mutants_def tools ms [symmetric] Let_def
      by (auto simp: wl dbg split: option.splits prod.splits if_splits)
    from test_in_build_dir_Ok [OF this] o0 False show ?thesis by simp
  qed
qed



text \<open>Reverting does not restore a file with carriage returns: it writes the code as it was loaded, so
  afterwards the file has lost every carriage return that preceded a newline.  The file is as before
  only if it had none.\<close>

theorem revert_normalises_line_endings:
  assumes "load rd tree rel pkg is_top = Ok (Some sf)" "rd (join_path tree rel) = Ok body"
    and "mu_source_file m = sf" "fs (file_key dir rel) = Some (Regular body)"
    and "apply_mutant WriteOk m dir code fs = (fs1, Ok ())" "revert_mutant WriteOk m dir fs1 = (fs2, Ok ())"
  shows "fs2 = fs(file_key dir rel \<mapsto> Regular (replace_crlf body))
    \<and> (fs2 = fs \<longleftrightarrow> replace_crlf body = body)"
proof -
  have sf: "sf_tree_relative_path sf = rel" "sf_code sf = replace_crlf body"
    using assms(1,2) replace_crlf_id by (auto simp: load_def Let_def split: if_splits)
  have "fs1 = fs(file_key dir rel \<mapsto> Regular code)"
    using overwrite_file_result(2) [OF assms(5) [unfolded apply_mutant_def]] assms(3) sf by simp
  moreover have "fs2 = fs1(file_key dir rel \<mapsto> Regular (sf_code sf))"
    using overwrite_file_result(2) [OF assms(6) [unfolded revert_mutant_def]] assms(3) sf by simp
  ultimately have fs2: "fs2 = fs(file_key dir rel \<mapsto> Regular (replace_crlf body))" using sf by simp
  have "fs2 = fs \<longleftrightarrow> replace_crlf body = body"
    unfolding fs2 using assms(4) by (auto simp: fun_eq_iff)
  with fs2 show ?thesis by blast
qed

lemma revert_normalises_line_endings_witness:
  "fst (revert_mutant WriteOk (example_mutant\<lparr>mu_source_file := \<lparr>sf_package = example_package,
        sf_tree_relative_path = ''s.rs'', sf_code = ''a'' @ [newline], sf_is_top = True,
        sf_line_index = [0, 2], sf_slash_path = ''s.rs''\<rparr>\<rparr>) ''/w''
      [file_key ''/w'' ''s.rs'' \<mapsto> Regular ''x''])
    \<noteq> [file_key ''/w'' ''s.rs'' \<mapsto> Regular (''a'' @ [creturn, newline])]"
proof -
  let ?body = "''a'' @ [creturn, newline]" let ?k = "file_key ''/w'' ''s.rs''"
  let ?rd = "\<lambda>p. Inr ?body :: (unit, string) rresult"
  let ?sf = "\<lparr>sf_package = example_package, sf_tree_relative_path = ''s.rs'', sf_code = ''a'' @ [newline],
      sf_is_top = True, sf_line_index = [0, 2], sf_slash_path = ''s.rs''\<rparr>"
  let ?m = "example_mutant\<lparr>mu_source_file := ?sf\<rparr>"
  have l: "load ?rd ''/t'' ''s.rs'' example_package True = Inr (Some ?sf)"
    by (simp add: load_def ascent_def components_def is_absolute_def starts_with_def
        line_index_new_def to_slash_path_def)
  have a: "apply_mutant WriteOk ?m ''/w'' ''x'' [?k \<mapsto> Regular ?body] = ([?k \<mapsto> Regular ''x''], Ok ())"
    by (simp add: apply_mutant_def overwrite_file_def file_key_def Let_def)
  have r: "revert_mutant WriteOk ?m ''/w'' [?k \<mapsto> Regular ''x'']
      = (fst (revert_mutant WriteOk ?m ''/w'' [?k \<mapsto> Regular ''x'']), Ok ())"
    by (simp add: revert_mutant_def overwrite_file_def file_key_def Let_def)
  have m: "mu_source_file ?m = ?sf" "[?k \<mapsto> Regular ?body] ?k = Some (Regular ?body)" by simp_all
  have "replace_crlf ?body \<noteq> ?body" by simp
  with revert_normalises_line_endings [OF l refl m a r] show ?thesis by blast
qed

text \<open>If the log cannot be written when a build turns out to be equivalent, the scenario ends with that
  error and the mutant stays in the tree, although every write to the tree itself would have
  succeeded.\<close>

theorem unlogged_equivalent_mutant_stays:
  "\<exists>(lb :: string lab) w st st'.
      sw_apply w = WriteOk \<and> sw_revert w = WriteOk \<and> (\<forall>p fs. sw_tree_after w p fs = fs)
    \<and> ls_files st (file_key ''/w'' ''src/lib.rs'') = Some (Regular (sf_code example_source))
    \<and> run_one_scenario lb w (MutantScenario example_mutant) SelAll no_timeouts [] st
        = Some (st', Err (LabOut OutIo))
    \<and> ls_files st' (file_key ''/w'' ''src/lib.rs'') = map_option Regular (mutated_code example_mutant)"
proof -
  let ?nm = "''src/lib.rs:2:1: replace f with ()''" let ?s = "MutantScenario example_mutant"
  let ?exe = "\<lparr>af_path = ''t'', af_is_file = True, af_mode = 493, af_contents = Some ''x''\<rparr>"
  let ?opts = "example_options\<lparr>opt_detect_equivalent_mutants := True\<rparr>"
  let ?lb = "example_lab\<lparr>lb_options := ?opts, lb_baseline_fingerprint := Some ''x''\<rparr>"
  let ?w = "(example_world (\<lambda>_. ExitSuccess))\<lparr>sw_listing := (\<lambda>_. Some [?exe]), sw_equivalent_message_ok := False\<rparr>"
  obtain d where d: "diff_of (\<lambda>a b. b) example_mutant = Some d" using example_diff by blast
  obtain od sc where s: "start_scenario True ?s ?nm (empty_output_dir ''/w/mutants.out'') = (od, Ok sc)"
    "sc_diff_path sc \<noteq> None" using example_start [OF fresh_output_empty] by metis
  obtain od1 where wd: "write_diff True True sc d od = (od1, Ok ())"
    using s(2) by (auto simp: write_diff_def message_def)
  obtain od2 b where c: "run_cargo (lb_env ?lb) (example_cargo ExitSuccess) SelAll Build
      (timeout_of_phase no_timeouts Build) ?opts [] sc od1 = Some (od2, Ok b)" "pr_status b = ExitSuccess"
    using example_run_cargo [OF example_plain(2)] by metis
  have x: "is_test_executable ?exe"
    by (simp add: is_test_executable_def extension_def file_name_def components_def is_absolute_def
        starts_with_def last_opt_def rsplit_dot_def)
  have fp: "fingerprint_build_artifacts (lb_digest ?lb) (\<lambda>_. Some [?exe]) ''/w'' ?opts = Some ''x''"
    using x by (simp add: fingerprint_build_artifacts_def test_executables_def example_lab_def)
  have eq: "equivalent_build ?lb (\<lambda>_. Some [?exe]) ''/w'' ?nm fps = (Some ''the unmutated baseline'', fps)" for fps
    using fp by (simp add: equivalent_build_def)
  have ph: "phases ?opts = [Build, Test]" by (simp add: phases_def example_options_def)
  let ?fs = "example_files(file_key ''/w'' ''src/lib.rs'' \<mapsto> Regular (the (mutated_code example_mutant)))"
  have "\<exists>st'. run_one_scenario ?lb ?w ?s SelAll no_timeouts [] example_state = Some (st', Err (LabOut OutIo))
      \<and> ls_files st' = ?fs"
    using d s wd c eq ph
    by (simp add: run_one_scenario_def example_show Let_def run_mutant_def example_mutated_code
        uncovered_message_def apply_mutant_def example_key example_files_restored test_and_finish_def
        set_output_def pr_is_success_def scenario_mutant_def mutant_names_agree_example message_def)
  moreover have "?fs (file_key ''/w'' ''src/lib.rs'') = map_option Regular (mutated_code example_mutant)"
    by (simp add: example_mutated_code)
  moreover have "ls_files example_state (file_key ''/w'' ''src/lib.rs'') = Some (Regular (sf_code example_source))"
    by (simp add: example_files_def)
  moreover have "sw_apply ?w = WriteOk" "sw_revert ?w = WriteOk" "\<forall>p fs. sw_tree_after ?w p fs = fs"
    by simp_all
  ultimately show ?thesis by metis
qed

end
