(* ===== verification/Workers.thy ===== *)
theory Workers
  imports Lab "HOL-Library.Multiset"
begin

text \<open>
  The workers of a run (\<open>test_mutants\<close> and \<open>Worker::run_queue\<close> in \<open>src/src/lab.rs\<close>): several
  threads take mutants from one queue and record outcomes in one output directory, each behind a mutex.
  What a thread does under one lock is one step; steps of different threads interleave freely.  The
  theorems hold for every interleaving, any number of workers and any failures.
\<close>

subsection \<open>The queue\<close>

text \<open>\<open>IntoIter::next\<close> under the lock of the queue.\<close>

definition take_next :: "'a list \<Rightarrow> ('a \<times> 'a list) option" where
  "take_next q = (case q of [] \<Rightarrow> None | x # xs \<Rightarrow> Some (x, xs))"

text \<open>The interface to the queue: taking hands out one item and loses none.\<close>

locale work_queue =
  fixes take_from :: "'q \<Rightarrow> ('a \<times> 'q) option"
    and items :: "'q \<Rightarrow> 'a multiset"
  assumes take_some: "take_from q = Some (x, q') \<Longrightarrow> items q = add_mset x (items q')"
    and take_none: "take_from q = None \<Longrightarrow> items q = {#}"
begin

lemma take_member: "take_from q = Some (x, q') \<Longrightarrow> x \<in># items q"
  by (simp add: take_some)

lemma take_smaller: "take_from q = Some (x, q') \<Longrightarrow> size (items q') < size (items q)"
  by (simp add: take_some)

end

interpretation wq: work_queue take_next mset
  by unfold_locales (auto simp: take_next_def split: list.splits)

subsection \<open>Steps of the workers\<close>

text \<open>Where a worker is: about to take a mutant, testing one whose scenario has been started or not,
  finished because the queue was empty, or ended by an error.\<close>

datatype worker =
    Waiting
  | Holding mutant
  | Testing mutant scenario_output
  | Finished
  | Failed "mutant option"  \<comment> \<open>the mutant it held, if its outcome was not recorded\<close>

record shared =
  sh_queue :: "mutant list"
  sh_output :: output_dir
  sh_workers :: "worker list"

inductive worker_step :: "shared \<Rightarrow> shared \<Rightarrow> bool" where
  w_take: "\<lbrakk>i < length (sh_workers s); sh_workers s ! i = Waiting; take_next (sh_queue s) = Some (m, q)\<rbrakk>
    \<Longrightarrow> worker_step s (s\<lparr>sh_queue := q, sh_workers := (sh_workers s)[i := Holding m]\<rparr>)"
| w_done: "\<lbrakk>i < length (sh_workers s); sh_workers s ! i = Waiting; take_next (sh_queue s) = None\<rbrakk>
    \<Longrightarrow> worker_step s (s\<lparr>sh_workers := (sh_workers s)[i := Finished]\<rparr>)"
| w_start: "\<lbrakk>i < length (sh_workers s); sh_workers s ! i = Holding m;
      start_scenario ok (MutantScenario m) nm (sh_output s) = (od, Ok sc)\<rbrakk>
    \<Longrightarrow> worker_step s (s\<lparr>sh_output := od, sh_workers := (sh_workers s)[i := Testing m sc]\<rparr>)"
| w_start_fails: "\<lbrakk>i < length (sh_workers s); sh_workers s ! i = Holding m;
      start_scenario ok (MutantScenario m) nm (sh_output s) = (od, Err e)\<rbrakk>
    \<Longrightarrow> worker_step s (s\<lparr>sh_output := od, sh_workers := (sh_workers s)[i := Failed (Some m)]\<rparr>)"
| w_log: "\<lbrakk>i < length (sh_workers s); sh_workers s ! i = Testing m sc;
      message ok sc msg (sh_output s) = (od, r)\<rbrakk>
    \<Longrightarrow> worker_step s (s\<lparr>sh_output := od\<rparr>)"
| w_diff: "\<lbrakk>i < length (sh_workers s); sh_workers s ! i = Testing m sc;
      write_diff ok1 ok2 sc d (sh_output s) = (od, r)\<rbrakk>
    \<Longrightarrow> worker_step s (s\<lparr>sh_output := od\<rparr>)"
| w_fail: "\<lbrakk>i < length (sh_workers s); sh_workers s ! i = Testing m sc\<rbrakk>
    \<Longrightarrow> worker_step s (s\<lparr>sh_workers := (sh_workers s)[i := Failed (Some m)]\<rparr>)"
| w_record: "\<lbrakk>i < length (sh_workers s); sh_workers s ! i = Testing m sc; so_scenario o' = MutantScenario m;
      add_scenario_outcome w ok now o' (sh_output s) = (od, Ok ())\<rbrakk>
    \<Longrightarrow> worker_step s (s\<lparr>sh_output := od, sh_workers := (sh_workers s)[i := Waiting]\<rparr>)"
| w_record_fails: "\<lbrakk>i < length (sh_workers s); sh_workers s ! i = Testing m sc; so_scenario o' = MutantScenario m;
      add_scenario_outcome w ok now o' (sh_output s) = (od, Err e)\<rbrakk>
    \<Longrightarrow> worker_step s (s\<lparr>sh_output := od, sh_workers := (sh_workers s)[i := Failed None]\<rparr>)"

inductive_cases worker_stepE: "worker_step s s'"

definition start_workers :: "nat \<Rightarrow> mutant list \<Rightarrow> output_dir \<Rightarrow> shared" where
  "start_workers n ms od = \<lparr>sh_queue = ms, sh_output = od, sh_workers = replicate n Waiting\<rparr>"

subsection \<open>Where each mutant is\<close>

definition held :: "worker \<Rightarrow> mutant multiset" where
  "held w = (case w of Holding m \<Rightarrow> {#m#} | Testing m _ \<Rightarrow> {#m#} | Failed (Some m) \<Rightarrow> {#m#} | _ \<Rightarrow> {#})"

definition recorded :: "output_dir \<Rightarrow> mutant multiset" where
  "recorded od = mset (List.map_filter (\<lambda>o'. scenario_mutant (so_scenario o')) (lo_outcomes (od_lab_outcome od)))"

definition everything :: "shared \<Rightarrow> mutant multiset" where
  "everything s = mset (sh_queue s) + (\<Sum>w\<leftarrow>sh_workers s. held w) + recorded (sh_output s)"

lemma sum_list_update_mset:
  fixes f :: "'a \<Rightarrow> 'b multiset"
  assumes "i < length xs"
  shows "(\<Sum>x\<leftarrow>xs[i := y]. f x) + f (xs ! i) = (\<Sum>x\<leftarrow>xs. f x) + f y"
  using assms
proof (induction xs arbitrary: i)
  case (Cons x xs)
  then show ?case by (cases i) (auto simp: algebra_simps)
qed simp

lemma held_simps [simp]:
  "held Waiting = {#}" "held (Holding m) = {#m#}" "held (Testing m sc) = {#m#}" "held Finished = {#}"
  "held (Failed None) = {#}" "held (Failed (Some m)) = {#m#}"
  by (simp_all add: held_def)

lemma recorded_lab: "od_lab_outcome od' = od_lab_outcome od \<Longrightarrow> recorded od' = recorded od"
  by (simp add: recorded_def)

lemma recorded_add:
  assumes "add_scenario_outcome w ok now o' od = (od', r)" "so_scenario o' = MutantScenario m"
  shows "recorded od' = add_mset m (recorded od)"
  using add_scenario_outcome_frame(3) [OF assms(1)] assms(2)
  by (simp add: recorded_def frame_simps List.map_filter_def scenario_mutant_def)

lemma everything_step: "worker_step s s' \<Longrightarrow> everything s' = everything s"
proof (induction rule: worker_step.induct)
  case (w_take i s m q)
  then show ?case
    using sum_list_update_mset [of i "sh_workers s" held "Holding m"] wq.take_some [OF w_take(3)]
    by (simp add: everything_def)
next
  case (w_done i s)
  then show ?case
    using sum_list_update_mset [of i "sh_workers s" held Finished] by (simp add: everything_def)
next
  case (w_start i s m ok nm od sc)
  then show ?case
    using sum_list_update_mset [of i "sh_workers s" held "Testing m sc"]
      recorded_lab [OF start_scenario_lab [OF w_start(3)]] by (simp add: everything_def)
next
  case (w_start_fails i s m ok nm od e)
  then show ?case
    using sum_list_update_mset [of i "sh_workers s" held "Failed (Some m)"]
      recorded_lab [OF start_scenario_lab [OF w_start_fails(3)]] by (simp add: everything_def)
next
  case (w_log i s m sc ok msg od r)
  then show ?case using recorded_lab [OF message_lab [OF w_log(3)]] by (simp add: everything_def)
next
  case (w_diff i s m sc ok1 ok2 d od r)
  then show ?case using recorded_lab [OF write_diff_lab [OF w_diff(3)]] by (simp add: everything_def)
next
  case (w_fail i s m sc)
  then show ?case
    using sum_list_update_mset [of i "sh_workers s" held "Failed (Some m)"] by (simp add: everything_def)
next
  case (w_record i s m sc o' w ok now od)
  then show ?case
    using sum_list_update_mset [of i "sh_workers s" held Waiting] recorded_add [OF w_record(4,3)]
    by (simp add: everything_def)
next
  case (w_record_fails i s m sc o' w ok now od e)
  then show ?case
    using sum_list_update_mset [of i "sh_workers s" held "Failed None"] recorded_add [OF w_record_fails(4,3)]
    by (simp add: everything_def)
qed

lemma everything_steps: "worker_step\<^sup>*\<^sup>* s s' \<Longrightarrow> everything s' = everything s"
  by (induction rule: rtranclp_induct) (simp_all add: everything_step)

lemma sum_list_no_items [simp]: "sum_list (replicate n ({#} :: 'a multiset)) = {#}"
  by (induction n) simp_all

lemma everything_start:
  "lo_outcomes (od_lab_outcome od) = [] \<Longrightarrow> everything (start_workers n ms od) = mset ms"
  by (simp add: everything_def start_workers_def recorded_def List.map_filter_def)

lemma workers_length: "worker_step\<^sup>*\<^sup>* s s' \<Longrightarrow> length (sh_workers s') = length (sh_workers s)"
  by (induction rule: rtranclp_induct) (auto elim: worker_stepE)

text \<open>A finished worker has seen the queue empty, and the queue never grows.\<close>

definition finished_inv :: "shared \<Rightarrow> bool" where
  "finished_inv s \<longleftrightarrow> (Finished \<in> set (sh_workers s) \<longrightarrow> sh_queue s = [])"

lemma finished_inv_step: "worker_step s s' \<Longrightarrow> finished_inv s \<Longrightarrow> finished_inv s'"
  by (erule worker_stepE)
    (auto simp: finished_inv_def take_next_def split: list.splits dest!: set_update_subset_insert [THEN subsetD])

lemma finished_inv_steps: "worker_step\<^sup>*\<^sup>* s s' \<Longrightarrow> finished_inv s \<Longrightarrow> finished_inv s'"
  by (induction rule: rtranclp_induct) (auto intro: finished_inv_step)

subsection \<open>Progress\<close>

text \<open>Steps that a worker takes towards its end; logging leaves a worker where it is.\<close>

definition left :: "worker \<Rightarrow> nat" where
  "left w = (case w of Waiting \<Rightarrow> 1 | Holding _ \<Rightarrow> 3 | Testing _ _ \<Rightarrow> 2 | _ \<Rightarrow> 0)"

definition work_left :: "shared \<Rightarrow> nat" where
  "work_left s = 4 * length (sh_queue s) + (\<Sum>w\<leftarrow>sh_workers s. left w)"

lemma sum_list_update_nat:
  fixes f :: "'a \<Rightarrow> nat"
  assumes "i < length xs"
  shows "(\<Sum>x\<leftarrow>xs[i := y]. f x) + f (xs ! i) = (\<Sum>x\<leftarrow>xs. f x) + f y"
  using assms
proof (induction xs arbitrary: i)
  case (Cons x xs)
  then show ?case by (cases i) (auto simp: algebra_simps)
qed simp

lemma left_simps [simp]:
  "left Waiting = 1" "left (Holding m) = 3" "left (Testing m sc) = 2" "left Finished = 0" "left (Failed x) = 0"
  by (simp_all add: left_def)

lemma left_moves:
  assumes "i < length ws" "left y < left (ws ! i)"
  shows "(\<Sum>w\<leftarrow>ws[i := y]. left w) < (\<Sum>w\<leftarrow>ws. left w)"
  using sum_list_update_nat [OF assms(1), of left y] assms(2) by simp

lemma left_takes:
  assumes "i < length ws" "ws ! i = Waiting"
  shows "(\<Sum>w\<leftarrow>ws[i := Holding m]. left w) = (\<Sum>w\<leftarrow>ws. left w) + 2"
  using sum_list_update_nat [OF assms(1), of left "Holding m"] assms(2) by simp

lemma work_left_step:
  assumes "worker_step s s'"
  shows "work_left s' < work_left s \<or> (sh_workers s' = sh_workers s \<and> sh_queue s' = sh_queue s)"
  using assms
  by (cases rule: worker_step.cases)
    (auto simp: work_left_def take_next_def left_takes left_moves split: list.splits)

text \<open>A worker that is not at its end can always take a step.\<close>

lemma worker_not_stuck:
  assumes "i < length (sh_workers s)" "sh_workers s ! i \<in> {Waiting} \<union> range Holding \<union> {Testing m sc | m sc. True}"
  shows "\<exists>s'. worker_step s s' \<and> work_left s' < work_left s"
proof -
  note lt = left_moves [OF assms(1)]
  consider (wait) "sh_workers s ! i = Waiting" | (hold) m where "sh_workers s ! i = Holding m"
    | (test) m sc where "sh_workers s ! i = Testing m sc" using assms(2) by auto
  then show ?thesis
  proof cases
    case wait
    show ?thesis
    proof (cases "take_next (sh_queue s)")
      case None
      from w_done [OF assms(1) wait this] lt [of Finished] wait show ?thesis
        by (intro exI conjI) (assumption, simp add: work_left_def)
    next
      case (Some p)
      then obtain m q where t: "take_next (sh_queue s) = Some (m, q)" by (cases p) auto
      then have "sh_queue s = m # q" by (auto simp: take_next_def split: list.splits)
      then show ?thesis using w_take [OF assms(1) wait t] left_takes [OF assms(1) wait]
        by (intro exI conjI) (assumption, simp add: work_left_def)
    qed
  next
    case hold
    obtain od r where st: "start_scenario True (MutantScenario m) [] (sh_output s) = (od, r)" by fastforce
    show ?thesis
    proof (cases r)
      case (Inl e)
      from w_start_fails [OF assms(1) hold st [unfolded Inl]] lt [of "Failed (Some m)"] hold show ?thesis
        by (intro exI conjI) (assumption, simp add: work_left_def)
    next
      case (Inr sc)
      from w_start [OF assms(1) hold st [unfolded Inr]] lt [of "Testing m sc"] hold show ?thesis
        by (intro exI conjI) (assumption, simp add: work_left_def)
    qed
  next
    case test
    from w_fail [OF assms(1) test] lt [of "Failed (Some m)"] test show ?thesis
      by (intro exI conjI) (assumption, simp add: work_left_def)
  qed
qed

subsection \<open>Properties\<close>

text \<open>C2: At every moment of every interleaving, each mutant of the run is in exactly one place: in the
  queue, held by one worker (or by a failed one), or recorded as an outcome.  So none is tested twice
  and none is lost.  When all workers have finished without an error, the recorded outcomes are those
  of exactly the mutants of the run.\<close>

theorem every_mutant_in_one_place:
  assumes "worker_step\<^sup>*\<^sup>* (start_workers n ms od) s" "lo_outcomes (od_lab_outcome od) = []"
  shows "mset (sh_queue s) + (\<Sum>w\<leftarrow>sh_workers s. held w) + recorded (sh_output s) = mset ms
    \<and> (0 < n \<and> (\<forall>w\<in>set (sh_workers s). w = Finished) \<longrightarrow> recorded (sh_output s) = mset ms)"
proof (intro conjI impI)
  show all: "mset (sh_queue s) + (\<Sum>w\<leftarrow>sh_workers s. held w) + recorded (sh_output s) = mset ms"
    using everything_steps [OF assms(1)] everything_start [OF assms(2)] by (simp add: everything_def)
  assume fin: "0 < n \<and> (\<forall>w\<in>set (sh_workers s). w = Finished)"
  have "length (sh_workers s) = n" using workers_length [OF assms(1)] by (simp add: start_workers_def)
  then have ws: "sh_workers s = replicate n Finished" using fin by (metis replicate_eqI)
  have "finished_inv (start_workers n ms od)" by (auto simp: finished_inv_def start_workers_def)
  from finished_inv_steps [OF assms(1) this] have "sh_queue s = []"
    using fin ws by (simp add: finished_inv_def)
  then show "recorded (sh_output s) = mset ms" using all ws by simp
qed

lemma every_mutant_in_one_place_witness:
  "\<exists>s. worker_step\<^sup>*\<^sup>* (start_workers 2 [example_mutant] (empty_output_dir ''o'')) s
    \<and> sh_workers s = [Waiting, Holding example_mutant]
    \<and> mset (sh_queue s) + (\<Sum>w\<leftarrow>sh_workers s. held w) + recorded (sh_output s) = {#example_mutant#}"
proof -
  let ?s = "start_workers 2 [example_mutant] (empty_output_dir ''o'')"
  let ?s' = "?s\<lparr>sh_queue := [], sh_workers := (sh_workers ?s)[1 := Holding example_mutant]\<rparr>"
  have "worker_step ?s ?s'"
    by (rule w_take) (simp_all add: start_workers_def take_next_def)
  then have st: "worker_step\<^sup>*\<^sup>* ?s ?s'" by blast
  have "sh_workers ?s' = [Waiting, Holding example_mutant]"
    by (simp add: start_workers_def numeral_2_eq_2)
  moreover have "mset (sh_queue ?s') + (\<Sum>w\<leftarrow>sh_workers ?s'. held w) + recorded (sh_output ?s') = {#example_mutant#}"
    using every_mutant_in_one_place [OF st] by (simp add: empty_output_dir_def new_lab_outcome_def)
  ultimately show ?thesis using st by blast
qed



end
