(* ===== verification/Progress.thy ===== *)
theory Progress
  imports Workers
begin

text \<open>
  What the user sees during a run (\<open>src/src/console.rs\<close>, \<open>src/src/tail_file.rs\<close>, and
  \<open>summary_string\<close> of \<open>src/src/outcome.rs\<close>): the model behind the progress display with its updates and
  its text, the lines printed for outcomes, and the last line of a log.  The view that draws the text, the
  colours of the terminal and the clock are libraries: a painter turns text into coloured text, and each
  operation is given the time.  An operation that panics has the result \<^term>\<open>None\<close>.
\<close>

subsection \<open>Text\<close>

definition plural :: "nat \<Rightarrow> string \<Rightarrow> string" where
  "plural n noun = (if n = 1 then show_nat n @ '' '' @ noun else show_nat n @ '' '' @ noun @ ''s'')"

definition as_secs :: "duration \<Rightarrow> nat" where
  "as_secs d = d div 10 ^ 9"

definition format_duration :: "duration \<Rightarrow> string" where
  "format_duration d =
     (let secs = as_secs d in
      if secs < 90 then show_nat secs @ ''s''
      else if secs < 90 * 60 then show_nat ((secs + 30) div 60) @ ''m''
      else if secs < 36 * 3600 then show_nat ((secs + 1800) div 3600) @ ''h''
      else show_nat ((secs + 43200) div 86400) @ ''d'')"

definition format_mb :: "nat \<Rightarrow> string" where
  "format_mb bytes = show_nat (bytes div 1000000) @ '' MB''"

datatype style_attr = Cyan | Red | Green | Blue | BoldText | DimText

record painter =
  pn_part :: "part_style \<Rightarrow> string \<Rightarrow> string"
  pn_style :: "style_attr list \<Rightarrow> string \<Rightarrow> string"

definition pad8 :: "string \<Rightarrow> string" where
  "pad8 s = s @ replicate (8 - length s) CHR '' ''"

definition style_secs :: "painter \<Rightarrow> duration \<Rightarrow> string" where
  "style_secs P d = pn_style P [Cyan] (show_nat (as_secs d) @ ''s'')"

definition style_duration :: "painter \<Rightarrow> duration \<Rightarrow> string" where
  "style_duration P d = pn_style P [Cyan] (format_duration (as_secs d * 10 ^ 9))"

definition style_mb :: "painter \<Rightarrow> nat \<Rightarrow> string" where
  "style_mb P bytes = pn_style P [Cyan] (format_mb bytes)"

definition style_scenario :: "painter \<Rightarrow> scenario \<Rightarrow> bool \<Rightarrow> string option" where
  "style_scenario P s line_col =
     (case s of
        Baseline \<Rightarrow> Some ''Unmutated baseline''
      | MutantScenario m \<Rightarrow> to_styled_string (pn_part P) m line_col)"

definition style_outcome :: "scenario_outcome \<Rightarrow> string \<times> style_attr list" where
  "style_outcome o' =
     (case summary o' of
        CaughtMutant \<Rightarrow> (''caught'', [Green])
      | MissedMutant \<Rightarrow> (''MISSED'', [Red, BoldText])
      | Failure \<Rightarrow> (''FAILED'', [Red, BoldText])
      | Success \<Rightarrow> (''ok'', [Green])
      | Unviable \<Rightarrow> (''unviable'', [Blue])
      | Timeout \<Rightarrow> (''TIMEOUT'', [Red, BoldText])
      | Equivalent \<Rightarrow> (''equivalent'', [Cyan])
      | Uncovered \<Rightarrow> (''UNCOVERED'', [Red, BoldText]))"

text \<open>\<open>LabOutcome::summary_string\<close>.\<close>

definition summary_string :: "lab_outcome \<Rightarrow> duration \<Rightarrow> options \<Rightarrow> string" where
  "summary_string lo elapsed o' =
     plural (lo_total_mutants lo) ''mutant'' @ '' tested''
     @ (if opt_show_times o' then '' in '' @ format_duration elapsed else [])
     @ '': ''
     @ join '', ''
         ((if lo_missed lo \<noteq> 0 then [show_nat (lo_missed lo) @ '' missed''] else [])
          @ (if lo_caught lo \<noteq> 0 then [show_nat (lo_caught lo) @ '' caught''] else [])
          @ (if lo_unviable lo \<noteq> 0 then [show_nat (lo_unviable lo) @ '' unviable''] else [])
          @ (if lo_timeout lo \<noteq> 0 then [show_nat (lo_timeout lo) @ '' timeouts''] else [])
          @ (if lo_success lo \<noteq> 0 then [show_nat (lo_success lo) @ '' succeeded''] else [])
          @ (if lo_equivalent lo \<noteq> 0 then [show_nat (lo_equivalent lo) @ '' equivalent''] else [])
          @ (if lo_uncovered lo \<noteq> 0 then [show_nat (lo_uncovered lo) @ '' uncovered''] else []))"

subsection \<open>The last line of a log\<close>

text \<open>
  \<open>String::from_utf8_lossy\<close>: how many bytes the next piece has, and whether they encode a character; if
  not they are shown as the replacement character.
\<close>

definition byte_in :: "nat \<Rightarrow> nat \<Rightarrow> char \<Rightarrow> bool" where
  "byte_in a b c \<longleftrightarrow> a \<le> of_char c \<and> of_char c \<le> b"

definition second_ok :: "char \<Rightarrow> char \<Rightarrow> bool" where
  "second_ok c d =
     (if byte_in 0xE0 0xE0 c then byte_in 0xA0 0xBF d
      else if byte_in 0xED 0xED c then byte_in 0x80 0x9F d
      else if byte_in 0xF0 0xF0 c then byte_in 0x90 0xBF d
      else if byte_in 0xF4 0xF4 c then byte_in 0x80 0x8F d
      else byte_in 0x80 0xBF d)"

text \<open>The number of bytes of a character from its first, 0 where none starts so.\<close>

definition char_width :: "char \<Rightarrow> nat" where
  "char_width c =
     (if byte_in 0 0x7F c then 1 else if byte_in 0xC2 0xDF c then 2
      else if byte_in 0xE0 0xEF c then 3 else if byte_in 0xF0 0xF4 c then 4 else 0)"

definition utf8_piece :: "string \<Rightarrow> nat \<times> bool" where
  "utf8_piece s =
     (case s of
        [] \<Rightarrow> (0, True)
      | c # cs \<Rightarrow>
          let w = char_width c;
              more' = (\<lambda>k. length cs > k \<and> (if k = 0 then second_ok c (cs ! 0) else byte_in 0x80 0xBF (cs ! k)))
          in if w = 0 then (1, False)
             else if w = 1 then (1, True)
             else if \<not> more' 0 then (1, False)
             else if w = 2 then (2, True)
             else if \<not> more' 1 then (2, False)
             else if w = 3 then (3, True)
             else if \<not> more' 2 then (3, False)
             else (4, True))"

definition replacement_character :: string where
  "replacement_character = [CHR 0xEF, CHR 0xBF, CHR 0xBD]"

lemma utf8_piece_pos: "0 < fst (utf8_piece (c # cs))"
  by (simp add: utf8_piece_def Let_def)

function utf8_lossy :: "string \<Rightarrow> string" where
  "utf8_lossy [] = []"
| "utf8_lossy (c # cs) =
     (case utf8_piece (c # cs) of
        (n, valid) \<Rightarrow> (if valid then take n (c # cs) else replacement_character) @ utf8_lossy (drop n (c # cs)))"
  by pat_completeness auto
termination
proof (relation "measure length")
  fix c cs n and valid :: bool
  assume "(n, valid) = utf8_piece (c # cs)"
  then have "0 < n" using utf8_piece_pos [of c cs] by (metis fst_conv)
  then show "(drop n (c # cs), c # cs) \<in> measure length" by simp
qed simp

text \<open>\<open>str::trim().is_empty()\<close>: only white space of Unicode, by its bytes.\<close>

fun is_blank :: "string \<Rightarrow> bool" where
  "is_blank [] = True"
| "is_blank (c # cs) =
     (if c = CHR '' '' \<or> byte_in 9 13 c then is_blank cs
      else (case cs of
              d # ds \<Rightarrow>
                if c = CHR 0xC2 \<and> (d = CHR 0x85 \<or> d = CHR 0xA0) then is_blank ds
                else (case ds of
                        e # es \<Rightarrow>
                          if (c = CHR 0xE1 \<and> d = CHR 0x9A \<and> e = CHR 0x80)
                             \<or> (c = CHR 0xE2 \<and> d = CHR 0x80 \<and> (byte_in 0x80 0x8A e \<or> byte_in 0xA8 0xA9 e \<or> e = CHR 0xAF))
                             \<or> (c = CHR 0xE2 \<and> d = CHR 0x81 \<and> e = CHR 0x9F)
                             \<or> (c = CHR 0xE3 \<and> d = CHR 0x80 \<and> e = CHR 0x80)
                          then is_blank es else False
                      | [] \<Rightarrow> False)
            | [] \<Rightarrow> False))"

record tail_file =
  tf_position :: nat
  tf_last_line_seen :: string

definition new_tail_file :: tail_file where
  "new_tail_file = \<lparr>tf_position = 0, tf_last_line_seen = []\<rparr>"

definition last_nonblank :: "string list \<Rightarrow> string option" where
  "last_nonblank ls = find (\<lambda>l. \<not> is_blank l) (rev ls)"

text \<open>\<open>TailFile::last_line\<close>; \<open>content\<close> is what the file holds, \<^const>\<open>None\<close> if it cannot be read.\<close>

definition last_line :: "string option \<Rightarrow> tail_file \<Rightarrow> tail_file \<times> string option" where
  "last_line content tf =
     (case content of
        None \<Rightarrow> (tf, None)
      | Some body \<Rightarrow>
          let read_buf = drop (tf_position tf) body;
              tf1 = tf\<lparr>tf_position := max (tf_position tf) (length body)\<rparr>;
              tf2 = (case last_nonblank (lines (utf8_lossy read_buf)) of
                       None \<Rightarrow> tf1
                     | Some new_last \<Rightarrow> tf1\<lparr>tf_last_line_seen := new_last\<rparr>)
          in (tf2, Some (tf_last_line_seen tf2)))"

subsection \<open>The model of the display\<close>

record walk_model =
  wm_files_done :: nat
  wm_mutants_found :: nat

record copy_model =
  cp_dest :: path
  cp_bytes_copied :: nat
  cp_start :: duration

record scenario_model =
  sm_dir :: path
  sm_name :: string
  sm_phase_start :: duration
  sm_phase :: "phase option"
  sm_previous_phase_durations :: "(phase \<times> duration) list"
  sm_log_tail :: tail_file

record lab_model =
  lm_walk_tree :: "walk_model option"
  lm_copy_models :: "copy_model list"
  lm_scenario_models :: "scenario_model list"
  lm_lab_start_time :: "duration option"
  lm_mutants_start_time :: "duration option"
  lm_mutants_done :: nat
  lm_n_mutants :: nat
  lm_mutants_caught :: nat
  lm_mutants_missed :: nat
  lm_unviable :: nat
  lm_timeouts :: nat
  lm_successes :: nat
  lm_failures :: nat
  lm_equivalent :: nat
  lm_uncovered :: nat

definition new_lab_model :: lab_model where
  "new_lab_model =
     \<lparr>lm_walk_tree = None, lm_copy_models = [], lm_scenario_models = [], lm_lab_start_time = None,
      lm_mutants_start_time = None, lm_mutants_done = 0, lm_n_mutants = 0, lm_mutants_caught = 0,
      lm_mutants_missed = 0, lm_unviable = 0, lm_timeouts = 0, lm_successes = 0, lm_failures = 0,
      lm_equivalent = 0, lm_uncovered = 0\<rparr>"

subsection \<open>Updates\<close>

fun update_first :: "('a \<Rightarrow> bool) \<Rightarrow> ('a \<Rightarrow> 'a option) \<Rightarrow> 'a list \<Rightarrow> 'a list option" where
  "update_first P f [] = None"
| "update_first P f (x # xs) =
     (if P x then map_option (\<lambda>y. y # xs) (f x) else map_option ((#) x) (update_first P f xs))"

text \<open>\<open>find_scenario_mut\<close>, and what is done with the scenario found.\<close>

definition with_scenario :: "path \<Rightarrow> (scenario_model \<Rightarrow> scenario_model option) \<Rightarrow> lab_model \<Rightarrow> lab_model option" where
  "with_scenario dir f m =
     map_option (\<lambda>sms. m\<lparr>lm_scenario_models := sms\<rparr>)
       (update_first (\<lambda>sm. path_eq (sm_dir sm) dir) f (lm_scenario_models m))"

definition remove_scenario :: "path \<Rightarrow> lab_model \<Rightarrow> lab_model" where
  "remove_scenario dir m =
     m\<lparr>lm_scenario_models := filter (\<lambda>sm. \<not> path_eq (sm_dir sm) dir) (lm_scenario_models m)\<rparr>"

definition new_scenario_model :: "painter \<Rightarrow> path \<Rightarrow> scenario \<Rightarrow> duration \<Rightarrow> scenario_model option" where
  "new_scenario_model P dir s start =
     map_option (\<lambda>name. \<lparr>sm_dir = dir, sm_name = name, sm_phase_start = start, sm_phase = None,
         sm_previous_phase_durations = [], sm_log_tail = new_tail_file\<rparr>) (style_scenario P s True)"

definition phase_started :: "phase \<Rightarrow> duration \<Rightarrow> scenario_model \<Rightarrow> scenario_model" where
  "phase_started p now sm = sm\<lparr>sm_phase := Some p, sm_phase_start := now\<rparr>"

text \<open>With the debug assertion that the phase was the one started.\<close>

definition phase_finished :: "phase \<Rightarrow> duration \<Rightarrow> scenario_model \<Rightarrow> scenario_model option" where
  "phase_finished p now sm =
     (if sm_phase sm \<noteq> Some p then None
      else Some (sm\<lparr>sm_previous_phase_durations :=
                       sm_previous_phase_durations sm @ [(p, now - sm_phase_start sm)],
                   sm_phase := None\<rparr>))"

definition count_in_model :: "summary_outcome \<Rightarrow> lab_model \<Rightarrow> lab_model" where
  "count_in_model s m =
     (case s of
        CaughtMutant \<Rightarrow> m\<lparr>lm_mutants_caught := lm_mutants_caught m + 1\<rparr>
      | MissedMutant \<Rightarrow> m\<lparr>lm_mutants_missed := lm_mutants_missed m + 1\<rparr>
      | Timeout \<Rightarrow> m\<lparr>lm_timeouts := lm_timeouts m + 1\<rparr>
      | Unviable \<Rightarrow> m\<lparr>lm_unviable := lm_unviable m + 1\<rparr>
      | Success \<Rightarrow> m\<lparr>lm_successes := lm_successes m + 1\<rparr>
      | Equivalent \<Rightarrow> m\<lparr>lm_equivalent := lm_equivalent m + 1\<rparr>
      | Uncovered \<Rightarrow> m\<lparr>lm_uncovered := lm_uncovered m + 1\<rparr>
      | Failure \<Rightarrow> m\<lparr>lm_failures := lm_failures m + 1\<rparr>)"

definition finish_in_model :: "path \<Rightarrow> scenario \<Rightarrow> scenario_outcome \<Rightarrow> lab_model \<Rightarrow> lab_model" where
  "finish_in_model dir s o' m =
     remove_scenario dir
       (count_in_model (summary o')
         (if is_mutant s then m\<lparr>lm_mutants_done := lm_mutants_done m + 1\<rparr> else m))"

text \<open>\<open>Vec::swap_remove\<close> puts the last element in the place of the one removed.\<close>

definition swap_remove :: "nat \<Rightarrow> 'a list \<Rightarrow> 'a list" where
  "swap_remove i xs = butlast (xs[i := last xs])"

fun position :: "('a \<Rightarrow> bool) \<Rightarrow> 'a list \<Rightarrow> nat option" where
  "position P [] = None"
| "position P (x # xs) = (if P x then Some 0 else map_option Suc (position P xs))"

definition finish_copy :: "path \<Rightarrow> lab_model \<Rightarrow> lab_model option" where
  "finish_copy dir m =
     map_option (\<lambda>i. m\<lparr>lm_copy_models := swap_remove i (lm_copy_models m)\<rparr>)
       (position (\<lambda>cm. path_eq (cp_dest cm) dir) (lm_copy_models m))"

definition copy_progress :: "path \<Rightarrow> nat \<Rightarrow> lab_model \<Rightarrow> lab_model option" where
  "copy_progress dest total_bytes m =
     map_option (\<lambda>cms. m\<lparr>lm_copy_models := cms\<rparr>)
       (update_first (\<lambda>cm. path_eq (cp_dest cm) dest) (\<lambda>cm. Some (cm\<lparr>cp_bytes_copied := total_bytes\<rparr>))
         (lm_copy_models m))"

text \<open>The methods of \<open>WalkProgress\<close>.\<close>

definition increment_files :: "nat \<Rightarrow> lab_model \<Rightarrow> lab_model option" where
  "increment_files n m =
     (case lm_walk_tree m of
        None \<Rightarrow> None
      | Some w \<Rightarrow> Some (m\<lparr>lm_walk_tree := Some (w\<lparr>wm_files_done := wm_files_done w + n\<rparr>)\<rparr>))"

definition increment_mutants :: "nat \<Rightarrow> lab_model \<Rightarrow> lab_model option" where
  "increment_mutants n m =
     (case lm_walk_tree m of
        None \<Rightarrow> None
      | Some w \<Rightarrow> Some (m\<lparr>lm_walk_tree := Some (w\<lparr>wm_mutants_found := wm_mutants_found w + n\<rparr>)\<rparr>))"

subsection \<open>Lines printed\<close>

text \<open>What is printed when a scenario has finished; \<open>log_content\<close> is the text of its log if it can be read.\<close>

definition outcome_shown :: "scenario_outcome \<Rightarrow> options \<Rightarrow> bool" where
  "outcome_shown o' opts \<longleftrightarrow>
     \<not> ((mutant_caught o' \<and> \<not> opt_print_caught opts)
        \<or> (is_mutant (so_scenario o') \<and> check_or_build_failed o' \<and> \<not> opt_print_unviable opts))"

definition times_text :: "painter \<Rightarrow> scenario_outcome \<Rightarrow> string" where
  "times_text P o' =
     '' in '' @ join '' + '' (map (\<lambda>pr. style_secs P (pr_duration pr) @ '' ''
       @ pn_style P [DimText] (phase_name (pr_phase pr))) (so_phase_results o'))"

definition outcome_text :: "painter \<Rightarrow> options \<Rightarrow> scenario \<Rightarrow> scenario_outcome \<Rightarrow> string option \<Rightarrow> string option" where
  "outcome_text P opts s o' log_content =
     (if \<not> outcome_shown o' opts then Some []
      else
        Option.bind (style_scenario P s True) (\<lambda>name.
        Option.bind (if should_show_logs o' \<or> opt_show_all_logs opts
                     then map_option ((#) newline) log_content else Some []) (\<lambda>logs.
        Option.bind (case s of
                       MutantScenario m \<Rightarrow> if mutant_missed o' then format_annotation (opt_annotations opts) m else Some []
                     | Baseline \<Rightarrow> Some []) (\<lambda>annotation.
          Some ((case style_outcome o' of (word, attrs) \<Rightarrow> pn_style P attrs (pad8 word)) @ '' '' @ name
                @ (if opt_show_times opts then times_text P o' else []) @ logs @ [newline] @ annotation)))))"

definition discovered_text :: "nat \<Rightarrow> string" where
  "discovered_text n = ''Found '' @ plural n ''mutant'' @ '' to test'' @ [newline]"

subsection \<open>The calls\<close>

datatype console_call =
    StartWalk | IncrementFiles nat | IncrementMutants nat | FinishWalk
  | StartCopy path | CopyProgress path nat | FinishCopy path
  | DiscoveredMutants nat | StartTesting nat
  | ScenarioStarted path scenario | PhaseStarted path phase | PhaseFinished path phase
  | ScenarioFinished path scenario scenario_outcome "string option"
  | LabFinished lab_outcome

record console =
  cn_model :: lab_model
  cn_output :: string

definition update_model :: "(lab_model \<Rightarrow> lab_model option) \<Rightarrow> console \<Rightarrow> console option" where
  "update_model f c = map_option (\<lambda>m. c\<lparr>cn_model := m\<rparr>) (f (cn_model c))"

definition print_message :: "string \<Rightarrow> console \<Rightarrow> console" where
  "print_message t c = c\<lparr>cn_output := cn_output c @ t\<rparr>"

definition console_step ::
  "painter \<Rightarrow> options \<Rightarrow> duration \<Rightarrow> duration \<Rightarrow> console_call \<Rightarrow> console \<Rightarrow> console option" where
  "console_step P opts run_start now call c =
     (case call of
        StartWalk \<Rightarrow> update_model (\<lambda>m. Some (m\<lparr>lm_walk_tree := Some \<lparr>wm_files_done = 0, wm_mutants_found = 0\<rparr>\<rparr>)) c
      | IncrementFiles n \<Rightarrow> update_model (increment_files n) c
      | IncrementMutants n \<Rightarrow> update_model (increment_mutants n) c
      | FinishWalk \<Rightarrow> update_model (\<lambda>m. Some (m\<lparr>lm_walk_tree := None\<rparr>)) c
      | StartCopy dir \<Rightarrow> update_model (\<lambda>m. Some (m\<lparr>lm_copy_models :=
          lm_copy_models m @ [\<lparr>cp_dest = dir, cp_bytes_copied = 0, cp_start = now\<rparr>]\<rparr>)) c
      | CopyProgress dir n \<Rightarrow> update_model (copy_progress dir n) c
      | FinishCopy dir \<Rightarrow> update_model (finish_copy dir) c
      | DiscoveredMutants n \<Rightarrow>
          update_model (\<lambda>m. Some (m\<lparr>lm_n_mutants := n, lm_lab_start_time := Some now\<rparr>))
            (print_message (discovered_text n) c)
      | StartTesting _ \<Rightarrow> update_model (\<lambda>m. Some (m\<lparr>lm_mutants_start_time := Some now\<rparr>)) c
      | ScenarioStarted dir s \<Rightarrow>
          update_model (\<lambda>m. map_option (\<lambda>sm. m\<lparr>lm_scenario_models := lm_scenario_models m @ [sm]\<rparr>)
            (new_scenario_model P dir s now)) c
      | PhaseStarted dir p \<Rightarrow> update_model (with_scenario dir (\<lambda>sm. Some (phase_started p now sm))) c
      | PhaseFinished dir p \<Rightarrow> update_model (with_scenario dir (phase_finished p now)) c
      | ScenarioFinished dir s o' log_content \<Rightarrow>
          Option.bind (update_model (\<lambda>m. Some (finish_in_model dir s o' m)) c) (\<lambda>c1.
            map_option (\<lambda>t. print_message t c1) (outcome_text P opts s o' log_content))
      | LabFinished lo \<Rightarrow>
          map_option (print_message (summary_string lo (now - run_start) opts @ [newline]))
            (update_model (\<lambda>m. Some (m\<lparr>lm_scenario_models := []\<rparr>)) c))"

subsection \<open>The text of the display\<close>

text \<open>Floating point, beyond what the timeouts use.\<close>

record float_ops =
  fo_of_nat :: "nat \<Rightarrow> f64"
  fo_sub :: "f64 \<Rightarrow> f64 \<Rightarrow> f64"
  fo_div :: "f64 \<Rightarrow> f64 \<Rightarrow> f64"

definition remaining :: "libs \<Rightarrow> float_ops \<Rightarrow> duration \<Rightarrow> nat \<Rightarrow> nat \<Rightarrow> duration option" where
  "remaining L F elapsed n_mutants mutants_done =
     (let done' = fo_of_nat F mutants_done; remain = fo_sub F (fo_of_nat F n_mutants) done'
      in lib_from_secs_f64 L (fo_div F (lib_mul L (lib_as_secs_f64 L elapsed) remain) done'))"

definition render_walk :: "walk_model \<Rightarrow> string" where
  "render_walk w =
     (if wm_files_done w = 0 then ''Scanning tree metadata...'' @ [newline]
      else ''Finding mutation opportunities: '' @ show_nat (wm_files_done w) @ '' files done, ''
        @ show_nat (wm_mutants_found w) @ '' mutants found'' @ [newline])"

definition render_copy :: "painter \<Rightarrow> duration \<Rightarrow> copy_model \<Rightarrow> string" where
  "render_copy P now cm =
     pn_style P [Cyan] (pad8 ''copy'') @ '' '' @ style_mb P (cp_bytes_copied cm) @ '' in ''
     @ style_secs P (now - cp_start cm)"

definition render_scenario :: "painter \<Rightarrow> duration \<Rightarrow> string option \<Rightarrow> scenario_model \<Rightarrow> scenario_model \<times> string" where
  "render_scenario P now log sm =
     (let parts = (case sm_phase sm of Some p \<Rightarrow> [pn_style P [BoldText, Cyan] (pad8 (phase_name p))] | None \<Rightarrow> [])
            @ [sm_name sm, ''...'', style_secs P (now - sm_phase_start sm)]
      in case last_line log (sm_log_tail sm) of
           (tail, shown) \<Rightarrow>
             (sm\<lparr>sm_log_tail := tail\<rparr>,
              join '' '' parts
              @ (case shown of
                   None \<Rightarrow> []
                 | Some l \<Rightarrow> [newline]
                     @ pn_style P [Cyan] ([CHR 0xE2, CHR 0x94, CHR 0x94] @ replicate 7 CHR '' '')
                     @ '' '' @ pn_style P [DimText] l)))"

definition add_line :: "string \<Rightarrow> string \<Rightarrow> string" where
  "add_line s t = (if s \<noteq> [] then s @ [newline] else s) @ t"

definition count_text :: "painter \<Rightarrow> nat \<Rightarrow> string \<Rightarrow> string" where
  "count_text P n word = (if 0 < n then '', '' @ pn_style P [Cyan] (show_nat n) @ '' '' @ word else [])"

definition render_counts :: "painter \<Rightarrow> duration \<Rightarrow> lab_model \<Rightarrow> string" where
  "render_counts P elapsed m =
     pn_style P [Cyan] (show_nat (lm_mutants_done m)) @ ''/'' @ pn_style P [Cyan] (show_nat (lm_n_mutants m))
     @ '' mutants tested''
     @ count_text P (lm_mutants_missed m) (pn_style P [Red] ''MISSED'')
     @ count_text P (lm_timeouts m) (pn_style P [Red] ''timeout'')
     @ count_text P (lm_mutants_caught m) ''caught''
     @ count_text P (lm_unviable m) ''unviable''
     @ count_text P (lm_equivalent m) ''equivalent''
     @ count_text P (lm_uncovered m) (pn_style P [Red] ''uncovered'')
     @ '', '' @ style_duration P elapsed @ '' elapsed''"

definition render_remaining :: "painter \<Rightarrow> libs \<Rightarrow> float_ops \<Rightarrow> duration \<Rightarrow> lab_model \<Rightarrow> string option" where
  "render_remaining P L F now m =
     (if lm_mutants_done m \<le> 2 then Some []
      else (case lm_mutants_start_time m of
              None \<Rightarrow> None
            | Some start \<Rightarrow>
                map_option (\<lambda>d. '', about '' @ style_duration P d @ '' remaining'')
                  (remaining L F (now - start) (lm_n_mutants m) (lm_mutants_done m))))"

definition render ::
  "painter \<Rightarrow> libs \<Rightarrow> float_ops \<Rightarrow> duration \<Rightarrow> (path \<Rightarrow> string option) \<Rightarrow> lab_model \<Rightarrow> (lab_model \<times> string) option" where
  "render P L F now logs m =
     (let s0 = (case lm_walk_tree m of None \<Rightarrow> [] | Some w \<Rightarrow> render_walk w);
          s1 = fold (\<lambda>cm s. add_line s (render_copy P now cm)) (lm_copy_models m) s0;
          drawn = map (\<lambda>sm. render_scenario P now (logs (sm_dir sm)) sm) (lm_scenario_models m);
          s2 = fold (\<lambda>(_, t) s. add_line s t) drawn s1;
          m1 = m\<lparr>lm_scenario_models := map fst drawn\<rparr>
      in case lm_lab_start_time m of
           None \<Rightarrow> Some (m1, s2)
         | Some start \<Rightarrow>
             map_option (\<lambda>rest. (m1, add_line s2 (render_counts P (now - start) m @ rest)))
               (render_remaining P L F now m))"

subsection \<open>Who calls the console, and when\<close>

text \<open>
  The calls that the main thread and the workers make, as \<open>walk_tree\<close>, \<open>copy_tree\<close> and \<open>lab.rs\<close> make them.
  Where the main thread is, and where a worker is; the path is the build directory it has.
\<close>

datatype main_at =
    MStart | MWalking | MWalked | MDiscovered | MCopying path | MHasDir path
  | MBaseline path "phase option" | MTested path | MTesting | MEnd

datatype job =
    JNew | JCopying path | JReady path | JHolding path mutant | JRunning path mutant "phase option" | JEnded

text \<open>Beside these: the queue, the directory of the baseline until a worker takes it, and all directories used.\<close>

record protocol =
  pc_main :: main_at
  pc_queue :: "mutant list"
  pc_jobs :: "job list"
  pc_spare :: "path option"
  pc_used :: "path list"

definition unused :: "path \<Rightarrow> protocol \<Rightarrow> bool" where
  "unused d p \<longleftrightarrow> (\<forall>u \<in> set (pc_used p). \<not> path_eq u d)"

text \<open>What the main thread does, each step with the call it makes if any.\<close>

inductive main_step :: "protocol \<Rightarrow> console_call list \<Rightarrow> protocol \<Rightarrow> bool" where
  m_walk: "pc_main p = MStart \<Longrightarrow> main_step p [StartWalk] (p\<lparr>pc_main := MWalking\<rparr>)"
| m_files: "pc_main p = MWalking \<Longrightarrow> main_step p [IncrementFiles n] p"
| m_mutants: "pc_main p = MWalking \<Longrightarrow> main_step p [IncrementMutants n] p"
| m_walked: "pc_main p = MWalking \<Longrightarrow> main_step p [FinishWalk] (p\<lparr>pc_main := MWalked\<rparr>)"
| m_discovered: "\<lbrakk>pc_main p = MWalked; list_all mutant_ok ms\<rbrakk> \<Longrightarrow>
    main_step p [DiscoveredMutants (length ms)] (p\<lparr>pc_main := MDiscovered, pc_queue := ms\<rparr>)"
| m_in_place: "pc_main p = MDiscovered \<Longrightarrow>
    main_step p [] (p\<lparr>pc_main := MHasDir d, pc_used := d # pc_used p\<rparr>)"
| m_copy: "pc_main p = MDiscovered \<Longrightarrow>
    main_step p [StartCopy d] (p\<lparr>pc_main := MCopying d, pc_used := d # pc_used p\<rparr>)"
| m_copies: "pc_main p = MCopying d \<Longrightarrow> main_step p [CopyProgress d n] p"
| m_copied: "pc_main p = MCopying d \<Longrightarrow> main_step p [FinishCopy d] (p\<lparr>pc_main := MHasDir d\<rparr>)"
| m_baseline: "pc_main p = MHasDir d \<Longrightarrow>
    main_step p [ScenarioStarted d Baseline] (p\<lparr>pc_main := MBaseline d None\<rparr>)"
| m_phase: "pc_main p = MBaseline d None \<Longrightarrow>
    main_step p [PhaseStarted d ph] (p\<lparr>pc_main := MBaseline d (Some ph)\<rparr>)"
| m_phase_end: "pc_main p = MBaseline d (Some ph) \<Longrightarrow>
    main_step p [PhaseFinished d ph] (p\<lparr>pc_main := MBaseline d None\<rparr>)"
| m_tested: "\<lbrakk>pc_main p = MBaseline d None; so_scenario o' = Baseline\<rbrakk> \<Longrightarrow>
    main_step p [ScenarioFinished d Baseline o' (Some log)] (p\<lparr>pc_main := MTested d\<rparr>)"
| m_start: "pc_main p \<in> {MHasDir d, MTested d} \<Longrightarrow>
    main_step p [StartTesting (length (pc_queue p))]
      (p\<lparr>pc_main := MTesting, pc_jobs := replicate n JNew, pc_spare := Some d\<rparr>)"
| m_finish: "\<lbrakk>pc_main p = MTesting; list_all (\<lambda>j. j = JEnded) (pc_jobs p)\<rbrakk> \<Longrightarrow>
    main_step p [LabFinished lo] (p\<lparr>pc_main := MEnd\<rparr>)"
| m_stop: "\<lbrakk>pc_main p = MTesting \<longrightarrow> list_all (\<lambda>j. j = JEnded) (pc_jobs p)\<rbrakk> \<Longrightarrow> main_step p [] (p\<lparr>pc_main := MEnd\<rparr>)"

text \<open>What a worker does; any of its operations may fail, which ends it.\<close>

inductive job_step :: "protocol \<Rightarrow> job \<Rightarrow> console_call list \<Rightarrow> job \<Rightarrow> protocol \<Rightarrow> bool" where
  j_spare: "pc_spare p = Some d \<Longrightarrow> job_step p JNew [] (JReady d) (p\<lparr>pc_spare := None\<rparr>)"
| j_copy: "\<lbrakk>pc_spare p = None; unused d p\<rbrakk> \<Longrightarrow>
    job_step p JNew [StartCopy d] (JCopying d) (p\<lparr>pc_used := d # pc_used p\<rparr>)"
| j_copies: "job_step p (JCopying d) [CopyProgress d n] (JCopying d) p"
| j_copied: "job_step p (JCopying d) [FinishCopy d] (JReady d) p"
| j_take: "take_next (pc_queue p) = Some (m, q) \<Longrightarrow> job_step p (JReady d) [] (JHolding d m) (p\<lparr>pc_queue := q\<rparr>)"
| j_empty: "take_next (pc_queue p) = None \<Longrightarrow> job_step p (JReady d) [] JEnded p"
| j_started: "job_step p (JHolding d m) [ScenarioStarted d (MutantScenario m)] (JRunning d m None) p"
| j_phase: "job_step p (JRunning d m None) [PhaseStarted d ph] (JRunning d m (Some ph)) p"
| j_phase_end: "job_step p (JRunning d m (Some ph)) [PhaseFinished d ph] (JRunning d m None) p"
| j_tested: "so_scenario o' = MutantScenario m \<Longrightarrow>
    job_step p (JRunning d m None) [ScenarioFinished d (MutantScenario m) o' (Some log)] (JReady d) p"
| j_fail: "job_step p j [] JEnded p"

inductive protocol_step :: "protocol \<Rightarrow> console_call list \<Rightarrow> protocol \<Rightarrow> bool" where
  p_main: "main_step p calls p' \<Longrightarrow> protocol_step p calls p'"
| p_job: "\<lbrakk>pc_main p = MTesting; i < length (pc_jobs p); job_step p (pc_jobs p ! i) calls j p'\<rbrakk> \<Longrightarrow>
    protocol_step p calls (p'\<lparr>pc_jobs := (pc_jobs p)[i := j]\<rparr>)"

definition new_protocol :: protocol where
  "new_protocol = \<lparr>pc_main = MStart, pc_queue = [], pc_jobs = [], pc_spare = None, pc_used = []\<rparr>"

definition new_console :: console where
  "new_console = \<lparr>cn_model = new_lab_model, cn_output = []\<rparr>"

text \<open>The calls go to the console as they are made, and the view draws the model whenever it likes.\<close>

fun console_steps ::
  "painter \<Rightarrow> options \<Rightarrow> duration \<Rightarrow> duration \<Rightarrow> console_call list \<Rightarrow> console \<Rightarrow> console option" where
  "console_steps P opts start now [] c = Some c"
| "console_steps P opts start now (call # calls) c =
     Option.bind (console_step P opts start now call c) (console_steps P opts start now calls)"

inductive display_step ::
  "painter \<Rightarrow> options \<Rightarrow> libs \<Rightarrow> float_ops \<Rightarrow> protocol \<times> console \<Rightarrow> protocol \<times> console \<Rightarrow> bool" for P opts L F where
  d_call: "\<lbrakk>protocol_step p calls p'; console_steps P opts start now calls c = Some c'\<rbrakk> \<Longrightarrow>
    display_step P opts L F (p, c) (p', c')"
| d_draw: "render P L F now logs (cn_model c) = Some (m, t) \<Longrightarrow>
    display_step P opts L F (p, c) (p, c\<lparr>cn_model := m\<rparr>)"

subsection \<open>What one call changes\<close>

definition no_scenario :: "lab_model \<Rightarrow> path \<Rightarrow> bool" where
  "no_scenario m d \<longleftrightarrow> (\<forall>sm \<in> set (lm_scenario_models m). \<not> path_eq (sm_dir sm) d)"

definition copying :: "lab_model \<Rightarrow> path \<Rightarrow> bool" where
  "copying m d \<longleftrightarrow> (\<exists>cm \<in> set (lm_copy_models m). path_eq (cp_dest cm) d)"

definition running :: "lab_model \<Rightarrow> path \<Rightarrow> phase option \<Rightarrow> bool" where
  "running m d ph \<longleftrightarrow>
     (\<exists>sm. find (\<lambda>sm. path_eq (sm_dir sm) d) (lm_scenario_models m) = Some sm \<and> sm_phase sm = ph)"

definition tracked :: "path list \<Rightarrow> lab_model \<Rightarrow> bool" where
  "tracked used m \<longleftrightarrow>
     (\<forall>d \<in> sm_dir ` set (lm_scenario_models m) \<union> cp_dest ` set (lm_copy_models m). \<exists>u \<in> set used. path_eq u d)"

text \<open>A call about the directory \<open>d\<close> leaves alone what the display knows of the others.\<close>

definition only_at :: "path \<Rightarrow> lab_model \<Rightarrow> lab_model \<Rightarrow> bool" where
  "only_at d m m' \<longleftrightarrow>
     lm_walk_tree m' = lm_walk_tree m \<and> lm_n_mutants m' = lm_n_mutants m
     \<and> lm_mutants_start_time m' = lm_mutants_start_time m \<and> lm_lab_start_time m' = lm_lab_start_time m
     \<and> (\<forall>e. \<not> path_eq d e \<longrightarrow> (no_scenario m e \<longrightarrow> no_scenario m' e) \<and> (copying m e \<longrightarrow> copying m' e)
          \<and> (\<forall>ph. running m e ph \<longrightarrow> running m' e ph))
     \<and> (\<forall>used. tracked used m \<longrightarrow> tracked (d # used) m')"

lemma path_eq_trans: "path_eq a b \<Longrightarrow> path_eq b c \<Longrightarrow> path_eq a c"
  by (simp add: path_eq_def)

lemma path_eq_cong: "path_eq a b \<Longrightarrow> path_eq a c = path_eq b c" "path_eq a b \<Longrightarrow> path_eq c a = path_eq c b"
  by (simp_all add: path_eq_def)

lemma update_first_Some:
  "\<exists>x \<in> set xs. P x \<Longrightarrow> (\<And>x. P x \<Longrightarrow> f x \<noteq> None) \<Longrightarrow> \<exists>ys. update_first P f xs = Some ys"
  by (induction xs) auto

lemma update_first_found:
  "find P xs = Some x \<Longrightarrow> f x = Some y \<Longrightarrow> \<exists>ys. update_first P f xs = Some ys"
  by (induction xs) (auto split: if_splits)

lemma find_update_first:
  "update_first P f xs = Some ys \<Longrightarrow> find P xs = Some x \<Longrightarrow> f x = Some y \<Longrightarrow> P y \<Longrightarrow> find P ys = Some y"
  by (induction xs arbitrary: ys) (auto split: if_splits)

lemma find_update_first_other:
  "update_first P f xs = Some ys \<Longrightarrow> (\<And>x y. P x \<Longrightarrow> f x = Some y \<Longrightarrow> \<not> Q x \<and> \<not> Q y) \<Longrightarrow> find Q ys = find Q xs"
  by (induction xs arbitrary: ys) (auto split: if_splits)

lemma update_first_map:
  "update_first P f xs = Some ys \<Longrightarrow> (\<And>x y. f x = Some y \<Longrightarrow> g y = g x) \<Longrightarrow> map g ys = map g xs"
  by (induction xs arbitrary: ys) (auto split: if_splits)

lemma no_scenario_dirs: "no_scenario m d \<longleftrightarrow> (\<forall>e \<in> set (map sm_dir (lm_scenario_models m)). \<not> path_eq e d)"
  by (simp add: no_scenario_def)

lemma copying_dests: "copying m d \<longleftrightarrow> (\<exists>e \<in> set (map cp_dest (lm_copy_models m)). path_eq e d)"
  by (simp add: copying_def)

lemma tracked_dirs:
  "tracked used m \<longleftrightarrow> (\<forall>d \<in> set (map sm_dir (lm_scenario_models m)) \<union> set (map cp_dest (lm_copy_models m)).
     \<exists>u \<in> set used. path_eq u d)"
  by (simp add: tracked_def)

lemma no_scenario_not_running: "running m d ph \<Longrightarrow> \<not> no_scenario m d"
  by (auto simp: running_def no_scenario_def find_Some_iff)

lemma with_scenario_running:
  assumes "running m d ph" "\<And>sm. sm_phase sm = ph \<Longrightarrow> \<exists>sm'. f sm = Some sm'"
    and keeps: "\<And>sm sm'. f sm = Some sm' \<Longrightarrow> sm_dir sm' = sm_dir sm"
    and phase: "\<And>sm sm'. f sm = Some sm' \<Longrightarrow> sm_phase sm' = ph'"
  shows "\<exists>m'. with_scenario d f m = Some m' \<and> running m' d ph' \<and> only_at d m m'"
proof -
  let ?P = "\<lambda>sm. path_eq (sm_dir sm) d"
  obtain sm where sm: "find ?P (lm_scenario_models m) = Some sm" "sm_phase sm = ph" using assms(1) by (auto simp: running_def)
  obtain sm' where f: "f sm = Some sm'" using assms(2) [OF sm(2)] by blast
  obtain sms where u: "update_first ?P f (lm_scenario_models m) = Some sms" using update_first_found [of ?P "lm_scenario_models m" sm f sm', OF sm(1) f] by blast
  let ?m = "m\<lparr>lm_scenario_models := sms\<rparr>"
  have "path_eq (sm_dir sm) d" using sm(1) by (auto simp: find_Some_iff)
  then have "find ?P sms = Some sm'" using find_update_first [OF u sm(1) f] keeps [OF f] by simp
  then have "running ?m d ph'" using phase [OF f] by (simp add: running_def)
  moreover have dirs: "map sm_dir sms = map sm_dir (lm_scenario_models m)" using update_first_map [OF u] keeps by blast
  moreover have "find (\<lambda>sm. path_eq (sm_dir sm) e) sms = find (\<lambda>sm. path_eq (sm_dir sm) e) (lm_scenario_models m)"
    if "\<not> path_eq d e" for e
    by (rule find_update_first_other [OF u]) (use that keeps in \<open>auto simp: path_eq_def\<close>)
  ultimately show ?thesis using u
    by (intro exI [of _ ?m]) (auto simp: with_scenario_def only_at_def no_scenario_dirs copying_def running_def tracked_dirs)
qed

lemma phase_started_running:
  "running m d ph \<Longrightarrow> \<exists>m'. with_scenario d (\<lambda>sm. Some (phase_started p now sm)) m = Some m'
     \<and> running m' d (Some p) \<and> only_at d m m'"
  by (rule with_scenario_running) (auto simp: phase_started_def)

lemma phase_finished_running:
  "running m d (Some p) \<Longrightarrow> \<exists>m'. with_scenario d (phase_finished p now) m = Some m'
     \<and> running m' d None \<and> only_at d m m'"
  by (rule with_scenario_running) (auto simp: phase_finished_def split: if_splits)

lemma scenario_started_running:
  assumes "no_scenario m d" "style_scenario P s True = Some name"
  shows "\<exists>sm. new_scenario_model P d s now = Some sm
    \<and> running (m\<lparr>lm_scenario_models := lm_scenario_models m @ [sm]\<rparr>) d None
    \<and> only_at d m (m\<lparr>lm_scenario_models := lm_scenario_models m @ [sm]\<rparr>)"
proof -
  obtain sm where sm: "new_scenario_model P d s now = Some sm" "sm_dir sm = d" "sm_phase sm = None"
    using assms(2) by (auto simp: new_scenario_model_def)
  have "find (\<lambda>sm. path_eq (sm_dir sm) d) (lm_scenario_models m) = None"
    using assms(1) by (simp add: find_None_iff no_scenario_def)
  moreover have app: "find Q (xs @ [sm]) = (case find Q xs of None \<Rightarrow> if Q sm then Some sm else None | Some x \<Rightarrow> Some x)" for Q xs
    by (induction xs) auto
  ultimately show ?thesis using sm
    by (intro exI [of _ sm])
      (auto simp: running_def only_at_def no_scenario_def copying_def tracked_def dest: path_eq_sym)
qed

lemma count_in_model_fields [simp]:
  "lm_walk_tree (count_in_model s m) = lm_walk_tree m" "lm_n_mutants (count_in_model s m) = lm_n_mutants m"
  "lm_mutants_start_time (count_in_model s m) = lm_mutants_start_time m"
  "lm_lab_start_time (count_in_model s m) = lm_lab_start_time m"
  "lm_scenario_models (count_in_model s m) = lm_scenario_models m"
  "lm_copy_models (count_in_model s m) = lm_copy_models m" "lm_mutants_done (count_in_model s m) = lm_mutants_done m"
  by (simp_all add: count_in_model_def split: summary_outcome.splits)

lemma find_filter_other:
  "\<not> path_eq d e \<Longrightarrow> find (\<lambda>sm. path_eq (sm_dir sm) e) (filter (\<lambda>sm. \<not> path_eq (sm_dir sm) d) xs)
     = find (\<lambda>sm. path_eq (sm_dir sm) e) xs"
  by (induction xs) (auto simp: path_eq_def)

lemma remove_scenario_only:
  "no_scenario (remove_scenario d m) d \<and> only_at d m (remove_scenario d m)"
  by (auto simp: remove_scenario_def only_at_def no_scenario_def copying_def running_def tracked_def find_filter_other)

lemma finish_in_model_done:
  "no_scenario (finish_in_model d s o' m) d \<and> only_at d m (finish_in_model d s o' m)
   \<and> lm_mutants_done (finish_in_model d s o' m) = lm_mutants_done m + (if is_mutant s then 1 else 0)"
proof -
  let ?n = "if is_mutant s then m\<lparr>lm_mutants_done := lm_mutants_done m + 1\<rparr> else m"
  have "only_at d m' (remove_scenario d (count_in_model x m')) = only_at d m' (remove_scenario d m')" for m' x
    by (simp add: only_at_def no_scenario_def copying_def running_def tracked_def remove_scenario_def)
  then have "only_at d ?n (finish_in_model d s o' m)" using remove_scenario_only by (simp add: finish_in_model_def)
  then have "only_at d m (finish_in_model d s o' m)"
    by (cases "is_mutant s") (simp_all add: only_at_def no_scenario_def copying_def running_def tracked_def)
  then show ?thesis using remove_scenario_only by (simp add: finish_in_model_def) (simp add: remove_scenario_def)
qed

lemma copying_image: "copying m d \<longleftrightarrow> (\<exists>e \<in> cp_dest ` set (lm_copy_models m). path_eq e d)"
  by (simp add: copying_def)

lemma only_at_copies:
  assumes "\<And>e. \<not> path_eq d e \<Longrightarrow> copying m e \<Longrightarrow> copying (m\<lparr>lm_copy_models := cms\<rparr>) e"
    and "\<And>x. x \<in> set cms \<Longrightarrow> cp_dest x = d \<or> cp_dest x \<in> cp_dest ` set (lm_copy_models m)"
  shows "only_at d m (m\<lparr>lm_copy_models := cms\<rparr>) \<and> no_scenario (m\<lparr>lm_copy_models := cms\<rparr>) e = no_scenario m e"
proof -
  have "tracked (d # used) (m\<lparr>lm_copy_models := cms\<rparr>)" if t: "tracked used m" for used
  proof -
    have "\<exists>u \<in> set (d # used). path_eq u (cp_dest x)" if "x \<in> set cms" for x
    proof (cases "cp_dest x = d")
      case False
      then have "cp_dest x \<in> cp_dest ` set (lm_copy_models m)" using assms(2) [OF that] by simp
      then show ?thesis using t unfolding tracked_def by auto
    qed simp
    moreover have "\<exists>u \<in> set (d # used). path_eq u (sm_dir x)" if "x \<in> set (lm_scenario_models m)" for x
      using t that unfolding tracked_def by auto
    ultimately show ?thesis unfolding tracked_def by auto
  qed
  then show ?thesis using assms(1) by (simp add: only_at_def no_scenario_def running_def)
qed

lemma start_copy_copying:
  fixes m :: lab_model and d :: path and n :: nat and now :: duration
  defines "m' \<equiv> m\<lparr>lm_copy_models := lm_copy_models m @ [\<lparr>cp_dest = d, cp_bytes_copied = n, cp_start = now\<rparr>]\<rparr>"
  shows "copying m' d \<and> only_at d m m' \<and> no_scenario m' e = no_scenario m e"
proof -
  have "only_at d m m' \<and> no_scenario m' e = no_scenario m e"
    unfolding m'_def by (rule only_at_copies) (auto simp: copying_def)
  then show ?thesis by (simp add: m'_def copying_def)
qed

lemma copy_progress_copying:
  assumes "copying m d"
  shows "\<exists>m'. copy_progress d n m = Some m' \<and> copying m' d \<and> only_at d m m' \<and> no_scenario m' e = no_scenario m e"
proof -
  obtain cms where u: "update_first (\<lambda>cm. path_eq (cp_dest cm) d) (\<lambda>cm. Some (cm\<lparr>cp_bytes_copied := n\<rparr>)) (lm_copy_models m)
      = Some cms"
    using update_first_Some [of "lm_copy_models m" "\<lambda>cm. path_eq (cp_dest cm) d" "\<lambda>cm. Some (cm\<lparr>cp_bytes_copied := n\<rparr>)"] assms
    by (auto simp: copying_def)
  have "map cp_dest cms = map cp_dest (lm_copy_models m)"
    by (rule update_first_map [OF u]) auto
  then have same: "cp_dest ` set cms = cp_dest ` set (lm_copy_models m)" by (metis list.set_map)
  have copies: "lm_copy_models (m\<lparr>lm_copy_models := cms\<rparr>) = cms" by simp
  have keep: "copying (m\<lparr>lm_copy_models := cms\<rparr>) e = copying m e" for e
    unfolding copying_image copies same ..
  have "only_at d m (m\<lparr>lm_copy_models := cms\<rparr>) \<and> no_scenario (m\<lparr>lm_copy_models := cms\<rparr>) e = no_scenario m e"
  proof (rule only_at_copies)
    show "copying (m\<lparr>lm_copy_models := cms\<rparr>) e" if "copying m e" for e using that keep by simp
    show "cp_dest x = d \<or> cp_dest x \<in> cp_dest ` set (lm_copy_models m)" if "x \<in> set cms" for x
      using that same by blast
  qed
  moreover have "copying (m\<lparr>lm_copy_models := cms\<rparr>) d" using assms keep by simp
  moreover have "copy_progress d n m = Some (m\<lparr>lm_copy_models := cms\<rparr>)" by (simp add: copy_progress_def u)
  ultimately show ?thesis by blast
qed

lemma position_Some: "position P xs = Some i \<Longrightarrow> i < length xs \<and> P (xs ! i)"
  by (induction P xs arbitrary: i rule: position.induct) (auto split: if_splits)

lemma position_exists: "\<exists>x \<in> set xs. P x \<Longrightarrow> \<exists>i. position P xs = Some i"
  by (induction xs) auto

lemma swap_remove_mset: "i < length xs \<Longrightarrow> add_mset (xs ! i) (mset (swap_remove i xs)) = mset xs"
proof -
  assume i: "i < length xs"
  then obtain ys z where xs: "xs = ys @ [z]" by (cases xs rule: rev_cases) auto
  show ?thesis
  proof (cases "i < length ys")
    case True
    then have "swap_remove i xs = ys[i := z]" by (simp add: swap_remove_def xs list_update_append butlast_append)
    then show ?thesis using True by (simp add: xs mset_update nth_append)
  next
    case False
    then have "i = length ys" using i xs by simp
    then show ?thesis by (simp add: swap_remove_def xs)
  qed
qed

lemma finish_copy_done:
  assumes "copying m d"
  shows "\<exists>m'. finish_copy d m = Some m' \<and> only_at d m m' \<and> no_scenario m' e = no_scenario m e"
proof -
  obtain i where p: "position (\<lambda>cm. path_eq (cp_dest cm) d) (lm_copy_models m) = Some i"
    using position_exists [of "lm_copy_models m" "\<lambda>cm. path_eq (cp_dest cm) d"] assms by (auto simp: copying_def)
  let ?cms = "swap_remove i (lm_copy_models m)"
  have i: "i < length (lm_copy_models m)" and d: "path_eq (cp_dest (lm_copy_models m ! i)) d"
    using position_Some [OF p] by simp_all
  note ms = swap_remove_mset [OF i]
  have sets: "set (lm_copy_models m) = insert (lm_copy_models m ! i) (set ?cms)"
    using ms by (metis set_mset_add_mset_insert set_mset_mset)
  have "copying (m\<lparr>lm_copy_models := ?cms\<rparr>) e" if other: "\<not> path_eq d e" and c: "copying m e" for e
  proof -
    obtain cm where cm: "cm \<in> set (lm_copy_models m)" "path_eq (cp_dest cm) e" using c by (auto simp: copying_def)
    then have "cm \<noteq> lm_copy_models m ! i" using other d by (auto simp: path_eq_def)
    then have "cm \<in> set ?cms" using cm(1) sets by blast
    then show ?thesis using cm(2) by (auto simp: copying_def)
  qed
  moreover have "cp_dest x \<in> cp_dest ` set (lm_copy_models m)" if "x \<in> set ?cms" for x using that sets by blast
  ultimately have "only_at d m (m\<lparr>lm_copy_models := ?cms\<rparr>) \<and> no_scenario (m\<lparr>lm_copy_models := ?cms\<rparr>) e = no_scenario m e"
    by (intro only_at_copies) blast+
  then show ?thesis using p by (simp add: finish_copy_def)
qed

end
