(* ===== verification/Display.thy ===== *)
theory Display
  imports Progress
begin

text \<open>
  The progress display never panics: the main thread and the workers make their calls in an order in which
  each finds what it updates, whatever the interleaving, and the view can draw the model between any two.
\<close>

subsection \<open>Text can be made\<close>

lemma styled_total: "mutant_ok m \<Longrightarrow> \<exists>t. to_styled_string paint m slc = Some t"
  using describe_parts_total [of m] by (auto simp: to_styled_string_def)

lemma style_scenario_total: "(\<And>m. s = MutantScenario m \<Longrightarrow> mutant_ok m) \<Longrightarrow> \<exists>t. style_scenario P s slc = Some t"
  using styled_total by (auto simp: style_scenario_def split: scenario.splits)

lemma format_annotation_total: "mutant_ok m \<Longrightarrow> \<exists>t. format_annotation a m = Some t"
  using describe_parts_total [of m] by (auto simp: format_annotation_def describe_change_def split: resolved_annotation.splits)

lemma outcome_text_total:
  assumes "\<And>m. s = MutantScenario m \<Longrightarrow> mutant_ok m"
  shows "\<exists>t. outcome_text P opts s o' (Some log) = Some t"
proof -
  obtain name where "style_scenario P s True = Some name" using style_scenario_total [OF assms] by blast
  moreover have "\<exists>a. (case s of
      MutantScenario m \<Rightarrow> if mutant_missed o' then format_annotation (opt_annotations opts) m else Some []
    | Baseline \<Rightarrow> Some []) = Some a"
    using assms format_annotation_total by (auto split: scenario.splits)
  ultimately show ?thesis by (auto simp: outcome_text_def)
qed

subsection \<open>The invariant\<close>

fun job_dir :: "job \<Rightarrow> path option" where
  "job_dir (JCopying d) = Some d"
| "job_dir (JReady d) = Some d"
| "job_dir (JHolding d _) = Some d"
| "job_dir (JRunning d _ _) = Some d"
| "job_dir _ = None"

fun busy :: "job \<Rightarrow> nat" where
  "busy (JHolding _ _) = 1"
| "busy (JRunning _ _ _) = 1"
| "busy _ = 0"

fun job_ok :: "lab_model \<Rightarrow> job \<Rightarrow> bool" where
  "job_ok m (JCopying d) \<longleftrightarrow> copying m d \<and> no_scenario m d"
| "job_ok m (JReady d) \<longleftrightarrow> no_scenario m d"
| "job_ok m (JHolding d mu) \<longleftrightarrow> no_scenario m d \<and> mutant_ok mu"
| "job_ok m (JRunning d mu ph) \<longleftrightarrow> running m d ph \<and> mutant_ok mu"
| "job_ok m _ \<longleftrightarrow> True"

fun main_dir :: "main_at \<Rightarrow> path option" where
  "main_dir (MCopying d) = Some d"
| "main_dir (MHasDir d) = Some d"
| "main_dir (MBaseline d _) = Some d"
| "main_dir (MTested d) = Some d"
| "main_dir _ = None"

fun main_ok :: "lab_model \<Rightarrow> main_at \<Rightarrow> bool" where
  "main_ok m MWalking \<longleftrightarrow> lm_walk_tree m \<noteq> None"
| "main_ok m (MCopying d) \<longleftrightarrow> copying m d \<and> no_scenario m d"
| "main_ok m (MHasDir d) \<longleftrightarrow> no_scenario m d"
| "main_ok m (MBaseline d ph) \<longleftrightarrow> running m d ph"
| "main_ok m (MTested d) \<longleftrightarrow> no_scenario m d"
| "main_ok m MTesting \<longleftrightarrow> lm_mutants_start_time m \<noteq> None"
| "main_ok m _ \<longleftrightarrow> True"

text \<open>No two of the directories held are the same.\<close>

definition apart :: "path option list \<Rightarrow> bool" where
  "apart L \<longleftrightarrow> (\<forall>i < length L. \<forall>k < length L. i \<noteq> k \<longrightarrow> (\<forall>d e. L ! i = Some d \<longrightarrow> L ! k = Some e \<longrightarrow> \<not> path_eq d e))"

definition held :: "protocol \<Rightarrow> path option list" where
  "held p = pc_spare p # map job_dir (pc_jobs p)"

definition jobs_ok :: "protocol \<Rightarrow> lab_model \<Rightarrow> bool" where
  "jobs_ok p m \<longleftrightarrow>
     list_all (job_ok m) (pc_jobs p) \<and> (\<forall>d. pc_spare p = Some d \<longrightarrow> no_scenario m d)
     \<and> apart (held p) \<and> (\<forall>d. Some d \<in> set (held p) \<longrightarrow> d \<in> set (pc_used p))"

definition counts_ok :: "protocol \<Rightarrow> lab_model \<Rightarrow> bool" where
  "counts_ok p m \<longleftrightarrow>
     lm_mutants_done m + length (pc_queue p) + sum_list (map busy (pc_jobs p)) \<le> lm_n_mutants m
     \<and> (0 < lm_mutants_done m \<longrightarrow> lm_mutants_start_time m \<noteq> None)"

definition stage_ok :: "protocol \<Rightarrow> lab_model \<Rightarrow> bool" where
  "stage_ok p m \<longleftrightarrow>
     (pc_main p \<in> {MStart, MWalking, MWalked} \<longrightarrow> lm_mutants_done m = 0)
     \<and> (pc_main p \<in> {MStart, MWalking, MWalked, MDiscovered} \<longrightarrow> pc_used p = [])
     \<and> (pc_main p \<notin> {MTesting, MEnd} \<longrightarrow> pc_jobs p = [])
     \<and> (\<forall>d. main_dir (pc_main p) = Some d \<longrightarrow> d \<in> set (pc_used p))"

definition display_ok :: "protocol \<Rightarrow> lab_model \<Rightarrow> bool" where
  "display_ok p m \<longleftrightarrow>
     main_ok m (pc_main p) \<and> (pc_main p = MTesting \<longrightarrow> jobs_ok p m) \<and> tracked (pc_used p) m
     \<and> stage_ok p m \<and> counts_ok p m \<and> list_all mutant_ok (pc_queue p)"

lemma display_ok_start: "display_ok new_protocol new_lab_model"
  by (simp add: display_ok_def new_protocol_def new_lab_model_def tracked_def stage_ok_def counts_ok_def)

subsection \<open>Calls of the workers\<close>

lemma only_at_refl: "only_at d m m"
  by (auto simp: only_at_def tracked_def)

lemma job_ok_other:
  assumes "job_ok m j" "only_at d m m'" "\<And>e. job_dir j = Some e \<Longrightarrow> \<not> path_eq d e"
  shows "job_ok m' j"
  using assms by (cases j) (auto simp: only_at_def)

lemma apart_update:
  assumes "apart L" "i < length L" "\<And>d k e. x = Some d \<Longrightarrow> k < length L \<Longrightarrow> k \<noteq> i \<Longrightarrow> L ! k = Some e \<Longrightarrow> \<not> path_eq d e"
  shows "apart (L[i := x])"
  unfolding apart_def
proof (intro allI impI)
  fix a k d e
  assume k: "a < length (L[i := x])" "k < length (L[i := x])" "a \<noteq> k" "L[i := x] ! a = Some d" "L[i := x] ! k = Some e"
  show "\<not> path_eq d e"
  proof (cases "a = i")
    case True
    then show ?thesis using k assms(2) assms(3) [of d k e] by simp
  next
    case False
    show ?thesis
    proof (cases "k = i")
      case True
      then have "\<not> path_eq e d" using k False assms(2) assms(3) [of e a d] by simp
      then show ?thesis using path_eq_sym by blast
    next
      case other: False
      then show ?thesis using k False assms(1) by (simp add: apart_def)
    qed
  qed
qed

lemma apart_empty: "apart L \<Longrightarrow> i < length L \<Longrightarrow> apart (L[i := None])"
  by (rule apart_update) auto

lemma set_update_cases: "y \<in> set (xs[i := x]) \<Longrightarrow> y = x \<or> y \<in> set xs"
  using set_update_subset_insert [of xs i x] by blast

lemma held_update: "held (p\<lparr>pc_jobs := (pc_jobs p)[i := j]\<rparr>) = (held p)[Suc i := job_dir j]"
  by (simp add: held_def map_update)

lemma held_nth: "i < length (pc_jobs p) \<Longrightarrow> held p ! Suc i = job_dir (pc_jobs p ! i)"
  by (simp add: held_def)

lemma busy_update:
  "i < length js \<Longrightarrow> sum_list (map busy (js[i := j])) + busy (js ! i) = sum_list (map busy js) + busy j"
  by (induction js arbitrary: i) (auto simp: nth_Cons' list_update_code less_Suc_eq_0_disj)

text \<open>A worker that keeps, gets or gives up its directory, and a model that changed only there.\<close>

lemma job_moves:
  assumes ok: "jobs_ok p m" and i: "i < length (pc_jobs p)"
    and d: "job_dir (pc_jobs p ! i) = Some d \<or> unused d p"
    and only: "only_at d m m'" and j: "job_ok m' j" "job_dir j = Some d"
    and used: "set (pc_used p) \<subseteq> set used" "d \<in> set used"
  shows "jobs_ok (p\<lparr>pc_used := used, pc_queue := q, pc_jobs := (pc_jobs p)[i := j]\<rparr>) m'"
proof -
  have others: "\<not> path_eq d e" if k: "k < length (held p)" "k \<noteq> Suc i" "held p ! k = Some e" for k e
  proof (cases "job_dir (pc_jobs p ! i) = Some d")
    case True
    then have "held p ! Suc i = Some d" using i by (simp add: held_nth)
    moreover have "Suc i < length (held p)" using i by (simp add: held_def)
    ultimately show ?thesis using ok k unfolding jobs_ok_def apart_def by metis
  next
    case False
    then have "unused d p" using d by blast
    moreover have "e \<in> set (pc_used p)" using ok k unfolding jobs_ok_def by (metis nth_mem)
    ultimately show ?thesis using path_eq_sym unfolding unused_def by blast
  qed
  have len: "Suc i < length (held p)" using i by (simp add: held_def)
  let ?p = "p\<lparr>pc_jobs := (pc_jobs p)[i := j]\<rparr>"
  have upd: "held ?p = (held p)[Suc i := Some d]" using j(2) by (simp add: held_update)
  have "apart (held ?p)" unfolding upd
    by (rule apart_update) (use ok len others in \<open>auto simp: jobs_ok_def\<close>)
  moreover have "d' \<in> set used" if "Some d' \<in> set (held ?p)" for d'
  proof -
    have "Some d' \<in> insert (Some d) (set (held p))" using that set_update_cases unfolding upd by fastforce
    then show ?thesis using ok used unfolding jobs_ok_def by blast
  qed
  moreover have "job_ok m' ((pc_jobs p)[i := j] ! k)" if "k < length (pc_jobs p)" for k
  proof (cases "k = i")
    case False
    have "job_ok m (pc_jobs p ! k)" using ok that by (simp add: jobs_ok_def list_all_length)
    moreover have "\<not> path_eq d e" if "job_dir (pc_jobs p ! k) = Some e" for e
      using others [of "Suc k" e] that False \<open>k < length (pc_jobs p)\<close> by (simp add: held_def)
    ultimately show ?thesis using job_ok_other only False by simp
  qed (use j i in simp)
  moreover have "no_scenario m' e" if "pc_spare p = Some e" for e
    using ok that only others [of 0 e] by (simp add: jobs_ok_def held_def only_at_def)
  moreover have "held (p\<lparr>pc_used := used, pc_queue := q, pc_jobs := (pc_jobs p)[i := j]\<rparr>) = held ?p" by (simp add: held_def)
  ultimately show ?thesis by (simp add: jobs_ok_def list_all_length)
qed

lemma job_ends:
  assumes ok: "jobs_ok p m" and i: "i < length (pc_jobs p)"
  shows "jobs_ok (p\<lparr>pc_jobs := (pc_jobs p)[i := JEnded]\<rparr>) m"
proof -
  let ?p = "p\<lparr>pc_jobs := (pc_jobs p)[i := JEnded]\<rparr>"
  have len: "Suc i < length (held p)" using i by (simp add: held_def)
  have upd: "held ?p = (held p)[Suc i := None]" by (simp add: held_update)
  have "apart (held ?p)" unfolding upd using ok len by (simp add: jobs_ok_def apart_empty)
  moreover have "d \<in> set (pc_used p)" if "Some d \<in> set (held ?p)" for d
  proof -
    have "Some d \<in> set (held p)" using that set_update_cases unfolding upd by fastforce
    then show ?thesis using ok unfolding jobs_ok_def by blast
  qed
  moreover have "job_ok m ((pc_jobs p)[i := JEnded] ! k)" if "k < length (pc_jobs p)" for k
    using ok that by (cases "k = i") (simp_all add: jobs_ok_def list_all_length)
  moreover have "no_scenario m e" if "pc_spare p = Some e" for e using ok that by (simp add: jobs_ok_def)
  ultimately show ?thesis by (simp add: jobs_ok_def list_all_length)
qed

lemma job_takes_spare:
  assumes ok: "jobs_ok p m" and i: "i < length (pc_jobs p)" and d: "pc_spare p = Some d"
  shows "jobs_ok (p\<lparr>pc_spare := None, pc_jobs := (pc_jobs p)[i := JReady d]\<rparr>) m"
proof -
  let ?p = "p\<lparr>pc_spare := None, pc_jobs := (pc_jobs p)[i := JReady d]\<rparr>"
  have len: "Suc i < length (held p)" using i by (simp add: held_def)
  have zero: "held p ! 0 = Some d" using d by (simp add: held_def)
  have upd: "held ?p = ((held p)[0 := None])[Suc i := Some d]" by (simp add: held_def map_update)
  have "apart (held ?p)" unfolding upd
  proof (rule apart_update)
    show "apart ((held p)[0 := None])" using ok len by (intro apart_empty) (auto simp: jobs_ok_def)
    show "\<not> path_eq d' e" if "Some d = Some d'" "k < length ((held p)[0 := None])" "(held p)[0 := None] ! k = Some e" for d' k e
    proof -
      have "k \<noteq> 0" using that(2,3) len by (cases "k = 0") auto
      then have "held p ! k = Some e" "k < length (held p)" using that by simp_all
      moreover have "0 < length (held p)" by (simp add: held_def)
      ultimately show ?thesis using ok zero that(1) \<open>k \<noteq> 0\<close> unfolding jobs_ok_def apart_def by (metis option.inject)
    qed
  qed (use len in \<open>simp add: held_def\<close>)
  moreover have "d' \<in> set (pc_used p)" if "Some d' \<in> set (held ?p)" for d'
  proof -
    have "Some d \<in> set (held p)" using zero len by (metis nth_mem gr_implies_not0 neq0_conv)
    moreover have "Some d' = Some d \<or> Some d' \<in> set (held p)"
      using set_update_cases [OF that [unfolded upd]] set_update_cases [of "Some d'" "held p" 0 None] by blast
    ultimately show ?thesis using ok unfolding jobs_ok_def by blast
  qed
  moreover have "job_ok m ((pc_jobs p)[i := JReady d] ! k)" if "k < length (pc_jobs p)" for k
    using ok that d by (cases "k = i") (simp_all add: jobs_ok_def list_all_length)
  ultimately show ?thesis by (simp add: jobs_ok_def list_all_length)
qed

subsection \<open>The console can follow\<close>

lemma done_fields:
  "with_scenario d f m = Some m' \<Longrightarrow> lm_mutants_done m' = lm_mutants_done m"
  "copy_progress d n m = Some m' \<Longrightarrow> lm_mutants_done m' = lm_mutants_done m"
  "finish_copy d m = Some m' \<Longrightarrow> lm_mutants_done m' = lm_mutants_done m"
  by (auto simp: with_scenario_def copy_progress_def finish_copy_def)

lemma steps_update:
  "console_step P opts start now call c = Some c' \<Longrightarrow> console_steps P opts start now [call] c = Some c'"
  by simp

lemma unused_no_scenario: "tracked (pc_used p) m \<Longrightarrow> unused d p \<Longrightarrow> no_scenario m d"
  unfolding tracked_def unused_def no_scenario_def
  by (metis UnI1 image_eqI path_eq_trans)

lemma counts_move:
  assumes "counts_ok p m" "i < length (pc_jobs p)"
    and "lm_n_mutants m' = lm_n_mutants m" "lm_mutants_start_time m' = lm_mutants_start_time m"
    and "lm_mutants_start_time m \<noteq> None"
    and "lm_mutants_done m' + length q + busy j = lm_mutants_done m + length (pc_queue p) + busy (pc_jobs p ! i)"
  shows "counts_ok (p\<lparr>pc_used := used, pc_queue := q, pc_jobs := (pc_jobs p)[i := j]\<rparr>) m'"
  using assms busy_update [of i "pc_jobs p" j] by (simp add: counts_ok_def)

text \<open>What one step of a worker needs of the console: the calls succeed, and change the model only at its directory.\<close>

definition step_follows ::
  "painter \<Rightarrow> options \<Rightarrow> duration \<Rightarrow> duration \<Rightarrow> console_call list \<Rightarrow> console \<Rightarrow> (lab_model \<Rightarrow> bool) \<Rightarrow> bool" where
  "step_follows P opts start now calls c Q \<longleftrightarrow> (\<exists>c'. console_steps P opts start now calls c = Some c' \<and> Q (cn_model c'))"

lemma follows_started:
  assumes "no_scenario (cn_model c) d" "\<And>mu. s = MutantScenario mu \<Longrightarrow> mutant_ok mu"
  shows "step_follows P opts start now [ScenarioStarted d s] c
    (\<lambda>m'. running m' d None \<and> only_at d (cn_model c) m' \<and> lm_mutants_done m' = lm_mutants_done (cn_model c))"
proof -
  obtain name where n: "style_scenario P s True = Some name" using style_scenario_total [OF assms(2)] by blast
  obtain sm where "new_scenario_model P d s now = Some sm"
      "running ((cn_model c)\<lparr>lm_scenario_models := lm_scenario_models (cn_model c) @ [sm]\<rparr>) d None"
      "only_at d (cn_model c) ((cn_model c)\<lparr>lm_scenario_models := lm_scenario_models (cn_model c) @ [sm]\<rparr>)"
    using scenario_started_running [OF assms(1) n, of now] by blast
  then show ?thesis by (simp add: step_follows_def console_step_def update_model_def)
qed

lemma follows_phase_started:
  assumes "running (cn_model c) d ph0"
  shows "step_follows P opts start now [PhaseStarted d ph] c
    (\<lambda>m'. running m' d (Some ph) \<and> only_at d (cn_model c) m' \<and> lm_mutants_done m' = lm_mutants_done (cn_model c))"
  using phase_started_running [OF assms, of ph now] done_fields(1)
  by (auto simp: step_follows_def console_step_def update_model_def)

lemma follows_phase_finished:
  assumes "running (cn_model c) d (Some ph)"
  shows "step_follows P opts start now [PhaseFinished d ph] c
    (\<lambda>m'. running m' d None \<and> only_at d (cn_model c) m' \<and> lm_mutants_done m' = lm_mutants_done (cn_model c))"
  using phase_finished_running [OF assms, of now] done_fields(1)
  by (auto simp: step_follows_def console_step_def update_model_def)

lemma follows_finished:
  assumes "\<And>mu. s = MutantScenario mu \<Longrightarrow> mutant_ok mu"
  shows "step_follows P opts start now [ScenarioFinished d s o' (Some log)] c
    (\<lambda>m'. no_scenario m' d \<and> only_at d (cn_model c) m'
      \<and> lm_mutants_done m' = lm_mutants_done (cn_model c) + (if is_mutant s then 1 else 0))"
proof -
  obtain t where t: "outcome_text P opts s o' (Some log) = Some t" using outcome_text_total [OF assms] by blast
  show ?thesis using finish_in_model_done [of d s o' "cn_model c"]
    by (simp add: step_follows_def console_step_def update_model_def print_message_def t)
qed

lemma follows_copy_started:
  "step_follows P opts start now [StartCopy d] c
    (\<lambda>m'. copying m' d \<and> only_at d (cn_model c) m' \<and> no_scenario m' d = no_scenario (cn_model c) d
      \<and> lm_mutants_done m' = lm_mutants_done (cn_model c))"
  using start_copy_copying [of "cn_model c" d 0 now d] by (simp add: step_follows_def console_step_def update_model_def)

lemma follows_copy_progress:
  assumes "copying (cn_model c) d"
  shows "step_follows P opts start now [CopyProgress d n] c
    (\<lambda>m'. copying m' d \<and> only_at d (cn_model c) m' \<and> no_scenario m' d = no_scenario (cn_model c) d
      \<and> lm_mutants_done m' = lm_mutants_done (cn_model c))"
  using copy_progress_copying [OF assms, of n d] done_fields(2)
  by (auto simp: step_follows_def console_step_def update_model_def)

lemma follows_copy_finished:
  assumes "copying (cn_model c) d"
  shows "step_follows P opts start now [FinishCopy d] c
    (\<lambda>m'. only_at d (cn_model c) m' \<and> no_scenario m' d = no_scenario (cn_model c) d
      \<and> lm_mutants_done m' = lm_mutants_done (cn_model c))"
  using finish_copy_done [OF assms, of d] done_fields(3)
  by (auto simp: step_follows_def console_step_def update_model_def)

lemma follows_none: "Q (cn_model c) \<Longrightarrow> step_follows P opts start now [] c Q"
  by (simp add: step_follows_def)

subsection \<open>The invariant is kept\<close>

text \<open>A worker at its directory, and the console after its calls.\<close>

lemma job_follows:
  assumes ok: "display_ok p (cn_model c)" and main: "pc_main p = MTesting" and i: "i < length (pc_jobs p)"
    and d: "job_dir (pc_jobs p ! i) = Some d \<or> unused d p"
    and used: "set (pc_used p) \<subseteq> set used" "d \<in> set used"
    and q: "set q \<subseteq> set (pc_queue p)" and jd: "job_dir j = Some d"
    and calls: "step_follows P opts start now calls c (\<lambda>m'. job_ok m' j \<and> only_at d (cn_model c) m'
        \<and> lm_mutants_done m' + length q + busy j
          = lm_mutants_done (cn_model c) + length (pc_queue p) + busy (pc_jobs p ! i))"
  shows "step_follows P opts start now calls c
    (display_ok (p\<lparr>pc_used := used, pc_queue := q, pc_jobs := (pc_jobs p)[i := j]\<rparr>))"
proof -
  let ?m = "cn_model c"
  let ?p = "p\<lparr>pc_used := used, pc_queue := q, pc_jobs := (pc_jobs p)[i := j]\<rparr>"
  have "display_ok ?p m'" if m': "job_ok m' j" "only_at d ?m m'" "lm_mutants_done m' + length q + busy j
          = lm_mutants_done ?m + length (pc_queue p) + busy (pc_jobs p ! i)" for m'
  proof -
    have jobs: "jobs_ok p ?m" and counts: "counts_ok p ?m" and track: "tracked (pc_used p) ?m"
      and start: "lm_mutants_start_time ?m \<noteq> None" and stage: "stage_ok p ?m" and queue: "list_all mutant_ok (pc_queue p)"
      using ok main by (simp_all add: display_ok_def)
    have "jobs_ok ?p m'" by (rule job_moves [OF jobs i d m'(2,1) jd used])
    moreover have "counts_ok ?p m'"
      by (rule counts_move [OF counts i _ _ start m'(3)]) (use m'(2) in \<open>simp_all add: only_at_def\<close>)
    moreover have "tracked (d # pc_used p) m'" using m'(2) track by (simp add: only_at_def)
    then have "tracked used m'" using used unfolding tracked_def by (metis set_ConsD subsetD)
    moreover have "stage_ok ?p m'" using stage main by (simp add: stage_ok_def)
    moreover have "list_all mutant_ok q" using q queue by (auto simp: list_all_iff)
    moreover have "lm_mutants_start_time m' \<noteq> None" using start m'(2) by (simp add: only_at_def)
    ultimately show ?thesis using main by (simp add: display_ok_def)
  qed
  then show ?thesis using calls unfolding step_follows_def by blast
qed

lemma step_follows_mono: "step_follows P opts start now calls c Q \<Longrightarrow> (\<And>m. Q m \<Longrightarrow> R m) \<Longrightarrow> step_follows P opts start now calls c R"
  unfolding step_follows_def by blast

lemma job_step_follows:
  assumes ok: "display_ok p (cn_model c)" and main: "pc_main p = MTesting" and i: "i < length (pc_jobs p)"
    and step: "job_step p (pc_jobs p ! i) calls j p'"
  shows "step_follows P opts start now calls c (display_ok (p'\<lparr>pc_jobs := (pc_jobs p)[i := j]\<rparr>))"
proof -
  let ?m = "cn_model c" and ?j = "pc_jobs p ! i"
  have job: "job_ok ?m ?j" using ok main i by (simp add: display_ok_def jobs_ok_def list_all_length)
  have jobs: "jobs_ok p ?m" using ok main by (simp add: display_ok_def)
  have dir: "d \<in> set (pc_used p)" if "job_dir ?j = Some d" for d
    using jobs i that unfolding jobs_ok_def held_def by (metis list.set_intros(2) length_map nth_map nth_mem)
  note here = job_follows [OF ok main i, where used = "pc_used p" and q = "pc_queue p"]
  have same: "p\<lparr>pc_used := pc_used p, pc_queue := pc_queue p, pc_jobs := js\<rparr> = p\<lparr>pc_jobs := js\<rparr>" for js
    by simp
  show ?thesis using step
  proof cases
    case (j_spare d)
    have "jobs_ok (p'\<lparr>pc_jobs := (pc_jobs p)[i := j]\<rparr>) ?m"
      using job_takes_spare [OF jobs i j_spare(5)] j_spare by simp
    moreover have "sum_list (map busy ((pc_jobs p)[i := j])) = sum_list (map busy (pc_jobs p))"
      using busy_update [OF i, of j] j_spare by simp
    ultimately have "display_ok (p'\<lparr>pc_jobs := (pc_jobs p)[i := j]\<rparr>) ?m"
      using ok main j_spare(4) by (simp add: display_ok_def counts_ok_def stage_ok_def)
    then show ?thesis using j_spare by (simp add: follows_none)
  next
    case (j_copy d)
    have "tracked (pc_used p) ?m" using ok by (simp add: display_ok_def)
    then have none: "no_scenario ?m d" using unused_no_scenario j_copy(6) by blast
    have "step_follows P opts start now calls c
      (display_ok (p\<lparr>pc_used := d # pc_used p, pc_queue := pc_queue p, pc_jobs := (pc_jobs p)[i := j]\<rparr>))"
    proof (rule job_follows [OF ok main i])
      show "step_follows P opts start now calls c (\<lambda>m'. job_ok m' j \<and> only_at d ?m m'
          \<and> lm_mutants_done m' + length (pc_queue p) + busy j = lm_mutants_done ?m + length (pc_queue p) + busy ?j)"
        unfolding j_copy(2)
        by (rule step_follows_mono [OF follows_copy_started]) (use none j_copy in auto)
    qed (use j_copy in auto)
    then show ?thesis using j_copy by simp
  next
    case (j_copies d n)
    show ?thesis unfolding j_copies(4)
      by (rule here [unfolded same, of d]) (use dir j_copies job in \<open>auto intro!: step_follows_mono [OF follows_copy_progress]\<close>)
  next
    case (j_copied d)
    show ?thesis unfolding j_copied(4)
      by (rule here [unfolded same, of d]) (use dir j_copied job in \<open>auto intro!: step_follows_mono [OF follows_copy_finished]\<close>)
  next
    case (j_take mu q d)
    have q: "pc_queue p = mu # q" using j_take(5) by (simp add: take_next_def split: list.splits)
    have mu: "mutant_ok mu" using ok q by (simp add: display_ok_def)
    have "step_follows P opts start now calls c
      (display_ok (p\<lparr>pc_used := pc_used p, pc_queue := q, pc_jobs := (pc_jobs p)[i := j]\<rparr>))"
      by (rule job_follows [OF ok main i, of d]) (use dir j_take job q mu in \<open>auto intro!: follows_none simp: only_at_refl\<close>)
    then show ?thesis using j_take by simp
  next
    case (j_started d mu)
    show ?thesis unfolding j_started(4)
      by (rule here [unfolded same, of d]) (use dir j_started job in \<open>auto intro!: step_follows_mono [OF follows_started]\<close>)
  next
    case (j_phase d mu ph)
    show ?thesis unfolding j_phase(4)
      by (rule here [unfolded same, of d]) (use dir j_phase job in \<open>auto intro!: step_follows_mono [OF follows_phase_started]\<close>)
  next
    case (j_phase_end d mu ph)
    show ?thesis unfolding j_phase_end(4)
      by (rule here [unfolded same, of d]) (use dir j_phase_end job in \<open>auto intro!: step_follows_mono [OF follows_phase_finished]\<close>)
  next
    case (j_tested o' mu d log)
    show ?thesis unfolding j_tested(4)
      by (rule here [unfolded same, of d]) (use dir j_tested job in \<open>auto intro!: step_follows_mono [OF follows_finished] simp: is_mutant_def\<close>)
  next
    case (j_empty d)
    have "display_ok (p\<lparr>pc_jobs := (pc_jobs p)[i := JEnded]\<rparr>) ?m"
      using ok main job_ends [OF jobs i] busy_update [OF i, of JEnded] by (simp add: display_ok_def counts_ok_def stage_ok_def)
    then show ?thesis using j_empty by (simp add: follows_none)
  next
    case j_fail
    have "display_ok (p\<lparr>pc_jobs := (pc_jobs p)[i := JEnded]\<rparr>) ?m"
      using ok main job_ends [OF jobs i] busy_update [OF i, of JEnded] by (simp add: display_ok_def counts_ok_def stage_ok_def)
    then show ?thesis using j_fail by (simp add: follows_none)
  qed
qed

text \<open>Before the workers start there are no jobs, and the main thread has at most one directory.\<close>

lemma main_follows:
  assumes ok: "display_ok p (cn_model c)" and jobs: "pc_jobs p = []" and main: "at \<noteq> MTesting"
    and d: "d \<in> set used" "set (pc_used p) \<subseteq> set used" and at: "at \<notin> {MStart, MWalking, MWalked, MDiscovered}"
    and dir: "\<And>e. main_dir at = Some e \<Longrightarrow> e = d"
    and calls: "step_follows P opts start now calls c
      (\<lambda>m'. main_ok m' at \<and> only_at d (cn_model c) m' \<and> lm_mutants_done m' = lm_mutants_done (cn_model c))"
  shows "step_follows P opts start now calls c (display_ok (p\<lparr>pc_main := at, pc_used := used\<rparr>))"
proof (rule step_follows_mono [OF calls])
  fix m'
  assume m': "main_ok m' at \<and> only_at d (cn_model c) m' \<and> lm_mutants_done m' = lm_mutants_done (cn_model c)"
  then have "tracked (d # pc_used p) m'" using ok by (simp add: only_at_def display_ok_def)
  then have "tracked used m'" using d unfolding tracked_def by (metis set_ConsD subsetD)
  moreover have "stage_ok (p\<lparr>pc_main := at, pc_used := used\<rparr>) m'" using jobs at dir d(1) by (auto simp: stage_ok_def)
  moreover have "counts_ok p m'" using ok m' by (simp add: display_ok_def counts_ok_def only_at_def)
  then have "counts_ok (p\<lparr>pc_main := at, pc_used := used\<rparr>) m'" by (simp add: counts_ok_def)
  moreover have "list_all mutant_ok (pc_queue p)" using ok by (simp add: display_ok_def)
  ultimately show "display_ok (p\<lparr>pc_main := at, pc_used := used\<rparr>) m'"
    using m' main by (simp add: display_ok_def)
qed

lemma display_ok_walking:
  assumes ok: "display_ok p m" and early: "pc_main p \<in> {MStart, MWalking, MWalked}" "at \<in> {MWalking, MWalked}"
    and at: "at = MWalking \<Longrightarrow> lm_walk_tree m' \<noteq> None"
    and same: "lm_scenario_models m' = lm_scenario_models m" "lm_copy_models m' = lm_copy_models m"
      "lm_mutants_done m' = lm_mutants_done m" "lm_n_mutants m' = lm_n_mutants m"
  shows "display_ok (p\<lparr>pc_main := at\<rparr>) m'"
proof -
  have "main_ok m' at" using early at by auto
  moreover have "tracked (pc_used p) m" using ok by (simp add: display_ok_def)
  then have "tracked (pc_used p) m'" unfolding tracked_def same .
  moreover have stage: "stage_ok p m" using ok by (simp add: display_ok_def)
  have used: "pc_used p = []" "pc_jobs p = []" "lm_mutants_done m = 0"
    using early(1) stage by (auto simp only: stage_ok_def)
  have "stage_ok (p\<lparr>pc_main := at\<rparr>) m'" using early(2) used same(3) by (elim insertE) (simp_all add: stage_ok_def)
  moreover have "counts_ok p m" using ok by (simp add: display_ok_def)
  then have "counts_ok (p\<lparr>pc_main := at\<rparr>) m'" using used same(3,4) by (simp add: counts_ok_def)
  moreover have "list_all mutant_ok (pc_queue p)" using ok by (simp add: display_ok_def)
  ultimately show ?thesis using early by (auto simp: display_ok_def)
qed

lemma tracked_frame [simp]:
  "tracked used (m\<lparr>lm_walk_tree := w\<rparr>) = tracked used m"
  "tracked used (m\<lparr>lm_n_mutants := n, lm_lab_start_time := t\<rparr>) = tracked used m"
  "tracked used (m\<lparr>lm_mutants_start_time := t\<rparr>) = tracked used m"
  by (simp_all add: tracked_def)

lemma tracked_clear: "tracked used m \<Longrightarrow> tracked used (m\<lparr>lm_scenario_models := []\<rparr>)"
  by (simp add: tracked_def)

lemma early_no_scenario: "display_ok p m \<Longrightarrow> pc_main p = MDiscovered \<Longrightarrow> no_scenario m d"
  by (auto simp: display_ok_def stage_ok_def tracked_def no_scenario_def)

lemma main_step_follows:
  assumes ok: "display_ok p (cn_model c)" and step: "main_step p calls p'"
  shows "step_follows P opts start now calls c (display_ok p')"
proof -
  let ?m = "cn_model c"
  have none: "pc_jobs p = []" if "pc_main p \<notin> {MTesting, MEnd}" using ok that by (simp add: display_ok_def stage_ok_def)
  have dir: "d \<in> set (pc_used p)" if "main_dir (pc_main p) = Some d" for d using ok that by (simp add: display_ok_def stage_ok_def)
  note here = main_follows [OF ok, where used = "pc_used p"]
  have same: "p\<lparr>pc_main := a, pc_used := pc_used p\<rparr> = p\<lparr>pc_main := a\<rparr>" for a by simp
  have stay: "p\<lparr>pc_main := a\<rparr> = p" if "pc_main p = a" for a using that by simp
  show ?thesis using step
  proof cases
    case m_walk
    let ?m' = "?m\<lparr>lm_walk_tree := Some \<lparr>wm_files_done = 0, wm_mutants_found = 0\<rparr>\<rparr>"
    have "display_ok (p\<lparr>pc_main := MWalking\<rparr>) ?m'"
      by (rule display_ok_walking [OF ok]) (simp_all add: m_walk)
    then show ?thesis unfolding m_walk by (simp add: step_follows_def console_step_def update_model_def)
  next
    case (m_files n)
    obtain w where w: "lm_walk_tree ?m = Some w" using ok m_files(3) by (auto simp: display_ok_def)
    have "display_ok (p\<lparr>pc_main := MWalking\<rparr>) (?m\<lparr>lm_walk_tree := Some (w\<lparr>wm_files_done := wm_files_done w + n\<rparr>)\<rparr>)"
      by (rule display_ok_walking [OF ok]) (simp_all add: m_files)
    then show ?thesis unfolding m_files(1,2) stay [OF m_files(3)]
      by (simp add: step_follows_def console_step_def update_model_def increment_files_def w)
  next
    case (m_mutants n)
    obtain w where w: "lm_walk_tree ?m = Some w" using ok m_mutants(3) by (auto simp: display_ok_def)
    have "display_ok (p\<lparr>pc_main := MWalking\<rparr>) (?m\<lparr>lm_walk_tree := Some (w\<lparr>wm_mutants_found := wm_mutants_found w + n\<rparr>)\<rparr>)"
      by (rule display_ok_walking [OF ok]) (simp_all add: m_mutants)
    then show ?thesis unfolding m_mutants(1,2) stay [OF m_mutants(3)]
      by (simp add: step_follows_def console_step_def update_model_def increment_mutants_def w)
  next
    case m_walked
    have "display_ok (p\<lparr>pc_main := MWalked\<rparr>) (?m\<lparr>lm_walk_tree := None\<rparr>)"
      by (rule display_ok_walking [OF ok]) (simp_all add: m_walked)
    then show ?thesis unfolding m_walked by (simp add: step_follows_def console_step_def update_model_def)
  next
    case (m_discovered ms)
    let ?m' = "?m\<lparr>lm_n_mutants := length ms, lm_lab_start_time := Some now\<rparr>"
    have "pc_jobs p = []" using none m_discovered(3) by simp
    then have "display_ok (p\<lparr>pc_main := MDiscovered, pc_queue := ms\<rparr>) ?m'" using ok m_discovered(3,4)
      by (auto simp: display_ok_def stage_ok_def counts_ok_def)
    then show ?thesis unfolding m_discovered(1,2)
      by (simp add: step_follows_def console_step_def update_model_def print_message_def)
  next
    case (m_in_place d)
    show ?thesis unfolding m_in_place(2)
      by (rule main_follows [OF ok, where d = d])
        (use none m_in_place early_no_scenario [OF ok] in \<open>auto intro!: follows_none simp: only_at_refl\<close>)
  next
    case (m_copy d)
    show ?thesis unfolding m_copy(2)
      by (rule main_follows [OF ok, where d = d])
        (use none m_copy early_no_scenario [OF ok] in \<open>auto intro!: step_follows_mono [OF follows_copy_started]\<close>)
  next
    case (m_copies d n)
    have "step_follows P opts start now calls c (display_ok (p\<lparr>pc_main := MCopying d\<rparr>))"
      by (rule here [unfolded same, where d = d])
        (use none dir m_copies ok in \<open>auto intro!: step_follows_mono [OF follows_copy_progress] simp: display_ok_def\<close>)
    then show ?thesis using m_copies stay by simp
  next
    case (m_copied d)
    show ?thesis unfolding m_copied(2)
      by (rule here [unfolded same, where d = d])
        (use none dir m_copied ok in \<open>auto intro!: step_follows_mono [OF follows_copy_finished] simp: display_ok_def\<close>)
  next
    case (m_baseline d)
    show ?thesis unfolding m_baseline(2)
      by (rule here [unfolded same, where d = d])
        (use none dir m_baseline ok in \<open>auto intro!: step_follows_mono [OF follows_started] simp: display_ok_def\<close>)
  next
    case (m_phase d ph)
    show ?thesis unfolding m_phase(2)
      by (rule here [unfolded same, where d = d])
        (use none dir m_phase ok in \<open>auto intro!: step_follows_mono [OF follows_phase_started] simp: display_ok_def\<close>)
  next
    case (m_phase_end d ph)
    show ?thesis unfolding m_phase_end(2)
      by (rule here [unfolded same, where d = d])
        (use none dir m_phase_end ok in \<open>auto intro!: step_follows_mono [OF follows_phase_finished] simp: display_ok_def\<close>)
  next
    case (m_tested d o' log)
    show ?thesis unfolding m_tested(2)
      by (rule here [unfolded same, where d = d])
        (use none dir m_tested ok in \<open>auto intro!: step_follows_mono [OF follows_finished] simp: display_ok_def is_mutant_def\<close>)
  next
    case (m_start d n)
    have d: "main_dir (pc_main p) = Some d" "no_scenario ?m d" using m_start(3) ok by (auto simp: display_ok_def)
    let ?p = "p\<lparr>pc_main := MTesting, pc_jobs := replicate n JNew, pc_spare := Some d\<rparr>"
      and ?m' = "?m\<lparr>lm_mutants_start_time := Some now\<rparr>"
    have held: "held ?p = Some d # replicate n None" by (simp add: held_def)
    have "apart (held ?p)" unfolding held apart_def by (auto simp: nth_Cons' split: if_splits)
    moreover have "no_scenario ?m' d" using d(2) by (simp add: no_scenario_def)
    ultimately have "jobs_ok ?p ?m'" using dir [OF d(1)] held by (auto simp: jobs_ok_def list_all_iff)
    moreover have "pc_jobs p = []" using none m_start(3) by auto
    ultimately have "display_ok ?p ?m'" using ok m_start(3)
      by (simp add: display_ok_def stage_ok_def counts_ok_def sum_list_replicate)
    then show ?thesis unfolding m_start(1,2) by (simp add: step_follows_def console_step_def update_model_def)
  next
    case (m_finish lo)
    then show ?thesis using ok tracked_clear
      by (simp add: step_follows_def console_step_def update_model_def print_message_def display_ok_def stage_ok_def
          counts_ok_def)
  next
    case m_stop
    then show ?thesis using ok by (simp add: follows_none display_ok_def stage_ok_def counts_ok_def)
  qed
qed

lemma protocol_step_follows:
  assumes "display_ok p (cn_model c)" "protocol_step p calls p'"
  shows "step_follows P opts start now calls c (display_ok p')"
  using assms(2)
proof cases
  case p_main
  then show ?thesis using main_step_follows [OF assms(1)] by blast
next
  case (p_job i j p'')
  then show ?thesis using job_step_follows [OF assms(1) p_job(2-4)] by simp
qed

subsection \<open>Drawing\<close>

text \<open>A model that knows the same directories, in the same phases.\<close>

lemma same_shape_ok:
  assumes "map (\<lambda>sm. (sm_dir sm, sm_phase sm)) sms = map (\<lambda>sm. (sm_dir sm, sm_phase sm)) (lm_scenario_models m)"
  shows "display_ok p (m\<lparr>lm_scenario_models := sms\<rparr>) = display_ok p m"
proof -
  let ?m = "m\<lparr>lm_scenario_models := sms\<rparr>"
  have find: "map_option sm_phase (find (\<lambda>sm. path_eq (sm_dir sm) d) ys) = map_option sm_phase (find (\<lambda>sm. path_eq (sm_dir sm) d) xs)"
    if "map (\<lambda>sm. (sm_dir sm, sm_phase sm)) ys = map (\<lambda>sm. (sm_dir sm, sm_phase sm)) xs" for xs ys d
    using that by (induction xs arbitrary: ys) auto
  have "running ?m d ph = running m d ph" for d ph
    using find [OF assms, of d] by (auto simp: running_def map_option_case split: option.splits)
  moreover have dirs: "map sm_dir sms = map sm_dir (lm_scenario_models m)"
    using arg_cong [OF assms, of "map fst"] by (simp add: comp_def)
  then have "no_scenario ?m d = no_scenario m d" for d by (simp add: no_scenario_dirs del: set_map)
  moreover have "copying ?m d = copying m d" for d by (simp add: copying_def)
  moreover have "tracked used ?m = tracked used m" for used using dirs by (simp add: tracked_dirs del: set_map)
  moreover note same = calculation
  have "main_ok ?m a = main_ok m a" for a using same by (cases a) simp_all
  moreover have "job_ok ?m j = job_ok m j" for j using same by (cases j) simp_all
  then have "job_ok ?m = job_ok m" by blast
  ultimately show ?thesis by (simp add: display_ok_def stage_ok_def counts_ok_def jobs_ok_def)
qed

lemma render_scenario_shape:
  "sm_dir (fst (render_scenario P now log sm)) = sm_dir sm" "sm_phase (fst (render_scenario P now log sm)) = sm_phase sm"
  by (simp_all add: render_scenario_def Let_def split: prod.splits)

lemma render_follows:
  assumes ok: "display_ok p m" and L: "\<And>e n d. 2 < d \<Longrightarrow> d \<le> n \<Longrightarrow> remaining L F e n d \<noteq> None"
  shows "\<exists>m' t. render P L F now logs m = Some (m', t) \<and> display_ok p m'"
proof -
  have "lm_mutants_done m \<le> lm_n_mutants m" using ok by (simp add: display_ok_def counts_ok_def)
  then have "render_remaining P L F now m \<noteq> None"
    using ok L by (auto simp: render_remaining_def display_ok_def counts_ok_def split: option.splits)
  then obtain r where "render_remaining P L F now m = Some r" by blast
  moreover have "display_ok p (m\<lparr>lm_scenario_models :=
      map fst (map (\<lambda>sm. render_scenario P now (logs (sm_dir sm)) sm) (lm_scenario_models m))\<rparr>)"
    using ok by (subst same_shape_ok) (simp_all add: render_scenario_shape comp_def)
  ultimately show ?thesis by (auto simp: render_def Let_def comp_def split: option.splits)
qed

lemma display_step_ok:
  assumes "display_step P opts L F x y" "display_ok (fst x) (cn_model (snd x))"
    and "\<And>e n d. 2 < d \<Longrightarrow> d \<le> n \<Longrightarrow> remaining L F e n d \<noteq> None"
  shows "display_ok (fst y) (cn_model (snd y))"
  using assms(1)
proof cases
  case (d_call p calls p' start now c c')
  then show ?thesis using protocol_step_follows [of p c calls p' P opts start now] assms(2) by (auto simp: step_follows_def)
next
  case (d_draw now logs c m t p)
  then show ?thesis using render_follows [of p "cn_model c" L F P now logs] assms(2,3) by auto
qed

lemma display_reachable_ok:
  assumes "(display_step P opts L F)\<^sup>*\<^sup>* (new_protocol, new_console) x"
    and "\<And>e n d. 2 < d \<Longrightarrow> d \<le> n \<Longrightarrow> remaining L F e n d \<noteq> None"
  shows "display_ok (fst x) (cn_model (snd x))"
  using assms(1)
proof (induction rule: rtranclp_induct)
  case base
  show ?case using display_ok_start by (simp add: new_console_def)
next
  case (step y z)
  then show ?case using display_step_ok assms(2) by blast
qed


definition plain_painter :: painter where
  "plain_painter = \<lparr>pn_part = (\<lambda>_ t. t), pn_style = (\<lambda>_ t. t)\<rparr>"

definition whole_floats :: float_ops where
  "whole_floats = \<lparr>fo_of_nat = of_nat, fo_sub = (-), fo_div = (div)\<rparr>"

lemma d_call1:
  "main_step p calls p' \<Longrightarrow> console_steps P opts start now calls c = Some c' \<Longrightarrow>
   (display_step P opts L F)\<^sup>*\<^sup>* x (p, c) \<Longrightarrow> (display_step P opts L F)\<^sup>*\<^sup>* x (p', c')"
  by (meson d_call p_main rtranclp.rtrancl_into_rtrancl)


text \<open>A log that is not UTF-8 cannot be read as text; printing the outcome then panics.\<close>

lemma unreadable_log_panics:
  assumes "outcome_shown o' opts" "should_show_logs o' \<or> opt_show_all_logs opts"
  shows "console_step P opts start now (ScenarioFinished d s o' None) c = None"
proof -
  have "outcome_text P opts s o' None = None"
    using assms by (cases "style_scenario P s True") (simp_all add: outcome_text_def)
  then show ?thesis by (simp add: console_step_def update_model_def)
qed

end
