(* ===== verification/Tail.thy ===== *)
theory Tail
  imports Progress
begin

text \<open>
  Tailing a log (\<open>src/src/tail_file.rs\<close>): when the log grows by whole lines, reading each time only what is
  new shows the same last line as reading it all.
\<close>

lemma newline_bytes: "\<not> second_ok c newline" "\<not> byte_in 0x80 0xBF newline" "char_width newline = 1"
  by (simp_all add: second_ok_def byte_in_def char_width_def)

text \<open>A piece does not reach past a newline, and ends with one only when it is one.\<close>

lemma utf8_piece_line:
  assumes "last (c # cs) = newline"
  shows "utf8_piece (c # cs @ b) = utf8_piece (c # cs) \<and> fst (utf8_piece (c # cs)) \<le> length (c # cs)
    \<and> (fst (utf8_piece (c # cs)) = length (c # cs) \<longrightarrow> utf8_piece (c # cs) = (1, True) \<and> cs = [])"
proof (cases cs)
  case Nil
  then show ?thesis using assms by (simp add: utf8_piece_def newline_bytes Let_def)
next
  case (Cons d ds)
  show ?thesis
  proof (cases ds)
    case Nil
    then have "d = newline" using assms Cons by simp
    then show ?thesis using Cons Nil by (simp add: utf8_piece_def newline_bytes Let_def)
  next
    case ds: (Cons e es)
    show ?thesis
    proof (cases es)
      case Nil
      then have "e = newline" using assms Cons ds by simp
      then show ?thesis using Cons ds Nil by (simp add: utf8_piece_def newline_bytes Let_def)
    next
      case es: (Cons f fs)
      show ?thesis
      proof (cases fs)
        case Nil
        then have "f = newline" using assms Cons ds es by simp
        then show ?thesis using Cons ds es Nil by (simp add: utf8_piece_def newline_bytes Let_def)
      qed (use Cons ds es in \<open>simp add: utf8_piece_def Let_def\<close>)
    qed
  qed
qed

definition whole_lines :: "string \<Rightarrow> bool" where
  "whole_lines s \<longleftrightarrow> s = [] \<or> last s = newline"

lemma utf8_lossy_line: "s \<noteq> [] \<Longrightarrow> last s = newline \<Longrightarrow> utf8_lossy (s @ b) = utf8_lossy s @ utf8_lossy b
   \<and> utf8_lossy s \<noteq> [] \<and> last (utf8_lossy s) = newline"
proof (induction s rule: length_induct)
  case (1 s)
  then obtain c cs where s: "s = c # cs" by (cases s) auto
  obtain n v where p: "utf8_piece (c # cs) = (n, v)" by fastforce
  have line: "last (c # cs) = newline" using 1(3) s by simp
  note piece = utf8_piece_line [OF line, of b]
  have n: "0 < n" "n \<le> length (c # cs)" using utf8_piece_pos [of c cs] piece p by auto
  show ?case
  proof (cases "n = length (c # cs)")
    case True
    then have "cs = []" "v" "n = 1" "c = newline" using piece p line by auto
    moreover from this have "utf8_piece (newline # b) = (1, True)" using piece p by simp
    ultimately show ?thesis using s p by simp
  next
    case False
    let ?d = "drop n (c # cs)"
    have d: "?d \<noteq> []" "last ?d = newline" "length ?d < length s" using n False line s by (auto simp: last_drop)
    then have IH: "utf8_lossy (?d @ b) = utf8_lossy ?d @ utf8_lossy b \<and> utf8_lossy ?d \<noteq> [] \<and> last (utf8_lossy ?d) = newline"
      using 1(1) by blast
    have "drop n ((c # cs) @ b) = ?d @ b" "take n ((c # cs) @ b) = take n (c # cs)"
      using n(2) drop_append [of n "c # cs" b] take_append [of n "c # cs" b] by (simp_all del: append_Cons)
    then show ?thesis using IH p piece s by simp
  qed
qed

lemma utf8_lossy_append: "whole_lines a \<Longrightarrow> utf8_lossy (a @ b) = utf8_lossy a @ utf8_lossy b \<and> whole_lines (utf8_lossy a)"
  using utf8_lossy_line [of a b] by (cases "a = []") (auto simp: whole_lines_def)

lemma whole_lines_append: "whole_lines a \<Longrightarrow> whole_lines b \<Longrightarrow> whole_lines (a @ b)"
  by (auto simp: whole_lines_def last_append)

lemma split_inclusive_append: "whole_lines a \<Longrightarrow> split_inclusive (a @ b) = split_inclusive a @ split_inclusive b"
proof (induction a rule: split_inclusive.induct)
  case (2 c cs)
  show ?case
  proof (cases "c = newline")
    case True
    then show ?thesis using 2 by (cases cs) (auto simp: whole_lines_def)
  next
    case False
    then have "cs \<noteq> []" "whole_lines cs" using 2(3) by (auto simp: whole_lines_def split: if_splits)
    moreover from this have "split_inclusive cs \<noteq> []" by (cases cs) (auto split: list.splits)
    ultimately show ?thesis using 2(2) False by (cases "split_inclusive cs") auto
  qed
qed simp

lemma lines_append: "whole_lines a \<Longrightarrow> lines (utf8_lossy (a @ b)) = lines (utf8_lossy a) @ lines (utf8_lossy b)"
  using utf8_lossy_append [of a b] by (simp add: lines_def split_inclusive_append)

lemma find_append: "find P (xs @ ys) = (case find P xs of None \<Rightarrow> find P ys | Some x \<Rightarrow> Some x)"
  by (induction xs) auto

lemma last_nonblank_append:
  "last_nonblank (xs @ ys) = (case last_nonblank ys of None \<Rightarrow> last_nonblank xs | Some x \<Rightarrow> Some x)"
  unfolding last_nonblank_def rev_append find_append ..

text \<open>The tail of a file that has the given content, all of it read.\<close>

definition tail_of :: "string \<Rightarrow> tail_file" where
  "tail_of body = \<lparr>tf_position = length body, tf_last_line_seen = unwrap_or (last_nonblank (lines (utf8_lossy body))) []\<rparr>"

lemma last_line_grown:
  assumes "whole_lines body"
  shows "last_line (Some (body @ chunk)) (tail_of body)
    = (tail_of (body @ chunk), Some (unwrap_or (last_nonblank (lines (utf8_lossy (body @ chunk)))) []))"
  using lines_append [OF assms, of chunk]
  by (auto simp: last_line_def tail_of_def Let_def last_nonblank_append unwrap_or_def split: option.splits)

text \<open>A reader that looks each time the log has grown by one of the chunks.\<close>

fun tail_reads :: "string \<Rightarrow> string list \<Rightarrow> tail_file \<Rightarrow> tail_file" where
  "tail_reads body [] tf = tf"
| "tail_reads body (chunk # chunks) tf = tail_reads (body @ chunk) chunks (fst (last_line (Some (body @ chunk)) tf))"

lemma tail_reads_whole:
  "whole_lines body \<Longrightarrow> list_all whole_lines chunks \<Longrightarrow> tail_reads body chunks (tail_of body) = tail_of (body @ concat chunks)"
proof (induction chunks arbitrary: body)
  case (Cons chunk chunks)
  have "whole_lines (body @ chunk)" using Cons(2,3) by (simp add: whole_lines_append)
  then show ?case using Cons last_line_grown [OF Cons(2), of chunk] by simp
qed simp

text \<open>C33: Tailing a log gives the same line as reading the whole log.  However often the log was looked at while
  it grew, as long as each time it had grown by whole lines, what the display shows next is the last line of the
  whole log that is not blank (the empty line if there is none), though only the new part is read; bytes that are
  not UTF-8 are replaced, wherever they are.\<close>

theorem tail_shows_last_line:
  assumes "list_all whole_lines chunks"
  shows "snd (last_line (Some (concat chunks @ rest)) (tail_reads [] chunks new_tail_file))
    = Some (unwrap_or (last_nonblank (lines (utf8_lossy (concat chunks @ rest)))) [])"
proof -
  have "new_tail_file = tail_of []" by (simp add: new_tail_file_def tail_of_def last_nonblank_def lines_def unwrap_or_def)
  moreover have "whole_lines (concat chunks)" using assms by (induction chunks) (simp_all add: whole_lines_append whole_lines_def [of "[]"])
  ultimately show ?thesis using tail_reads_whole [of "[]" chunks] assms last_line_grown [of "concat chunks" rest]
    by (simp add: whole_lines_def)
qed

theorem tail_shows_last_line_witness:
  "snd (last_line (Some ([CHR ''a'', newline, newline] @ [CHR 0xFF, newline, CHR '' '']))
     (tail_reads [] [[CHR ''a'', newline], [newline], [CHR 0xFF, newline]] new_tail_file)) = Some replacement_character"
proof -
  have "list_all whole_lines [[CHR ''a'', newline], [newline], [CHR 0xFF, newline]]" by (simp add: whole_lines_def)
  from tail_shows_last_line [OF this, of "'' ''"] show ?thesis
    by (simp add: utf8_piece_def char_width_def byte_in_def Let_def lines_def strip_line_end_def last_nonblank_def
        replacement_character_def unwrap_or_def)
qed

end
