(* ===== verification/Listing.thy ===== *)
theory Listing
  imports Timeouts
begin

text \<open>
  Listing mutants and files (\<open>src/src/list.rs\<close>) as text and as JSON, with the JSON of a mutant
  (\<open>to_json\<close> and \<open>Serialize\<close> in \<open>src/src/mutant.rs\<close>).  The printer of JSON and the terminal
  colours are libraries, passed as arguments.  Where the code panics the model returns \<^term>\<open>None\<close>.
\<close>

subsection \<open>JSON values\<close>

text \<open>An object is a list of keys and values: in the order of the keys where \<open>serde_json\<close> keeps a value, in that
  of the fields where it writes a structure.\<close>

datatype json =
    JNull | JBool bool | JNum int | JFloat f64 | JStr string | JArray "json list" | JObject "(string \<times> json) list"

fun json_insert :: "string \<Rightarrow> json \<Rightarrow> (string \<times> json) list \<Rightarrow> (string \<times> json) list" where
  "json_insert k v [] = [(k, v)]"
| "json_insert k v ((j, w) # r) =
     (if k = j then (k, v) # r else if k < j then (k, v) # (j, w) # r else (j, w) # json_insert k v r)"

definition json_object :: "(string \<times> json) list \<Rightarrow> json" where
  "json_object kvs = JObject (fold (\<lambda>(k, v). json_insert k v) kvs [])"

text \<open>\<open>serde_json::to_value\<close>: what is serialised becomes a value, with every object in the order of its keys.\<close>

primrec to_value :: "json \<Rightarrow> json" where
  "to_value JNull = JNull"
| "to_value (JBool b) = JBool b"
| "to_value (JNum n) = JNum n"
| "to_value (JFloat x) = JFloat x"
| "to_value (JStr t) = JStr t"
| "to_value (JArray js) = JArray (map to_value js)"
| "to_value (JObject kvs) = json_object (map (map_prod id to_value) kvs)"

definition line_column_json :: "line_column \<Rightarrow> json" where
  "line_column_json lc = JObject [(''line'', JNum (int (lc_line lc))), (''column'', JNum (int (lc_column lc)))]"

definition span_json :: "span \<Rightarrow> json" where
  "span_json sp =
     JObject [(''start'', line_column_json (sp_start sp)), (''end'', line_column_json (sp_end sp))]"

definition function_json :: "function_info \<Rightarrow> json" where
  "function_json f =
     JObject [(''function_name'', JStr (fi_name f)), (''return_type'', JStr (fi_return_type f)),
       (''span'', span_json (fi_span f))]"

definition genre_name :: "genre \<Rightarrow> string" where
  "genre_name g =
     (case g of FnValue \<Rightarrow> ''FnValue'' | BinaryOperator \<Rightarrow> ''BinaryOperator'' | UnaryOperator \<Rightarrow> ''UnaryOperator''
      | MatchArm \<Rightarrow> ''MatchArm'' | MatchArmGuard \<Rightarrow> ''MatchArmGuard'' | IfCondition \<Rightarrow> ''IfCondition''
      | WhileCondition \<Rightarrow> ''WhileCondition'' | BoolLiteral \<Rightarrow> ''BoolLiteral'' | DeleteStatement \<Rightarrow> ''DeleteStatement''
      | ReturnValue \<Rightarrow> ''ReturnValue'' | StructField \<Rightarrow> ''StructField'')"

text \<open>\<open>Serialize for Mutant\<close>: the fields in the order of the code.\<close>

definition serialize_mutant :: "mutant \<Rightarrow> (string \<times> json) list option" where
  "serialize_mutant m =
     map_option (\<lambda>name.
       [(''name'', JStr name),
        (''package'', JStr (pkg_name (sf_package (mu_source_file m)))),
        (''file'', JStr (sf_slash_path (mu_source_file m))),
        (''function'', case mu_function m of None \<Rightarrow> JNull | Some f \<Rightarrow> function_json f),
        (''span'', span_json (mu_span m)),
        (''replacement'', JStr (mu_replacement m)),
        (''genre'', JStr (genre_name (mu_genre m)))]) (full_name m)"

definition to_json :: "(string \<Rightarrow> string \<Rightarrow> string) \<Rightarrow> mutant \<Rightarrow> json option" where
  "to_json unified m =
     Option.bind (serialize_mutant m) (\<lambda>fields.
       map_option (\<lambda>d.
         case to_value (JObject fields) of
           JObject obj \<Rightarrow> JObject (json_insert ''diff'' (JStr d) obj)
         | j \<Rightarrow> j) (diff_of unified m))"

text \<open>\<open>MutantsJson\<close>: each mutant on its own.\<close>

fun mutants_json :: "(string \<Rightarrow> string \<Rightarrow> string) \<Rightarrow> mutant list \<Rightarrow> json list option" where
  "mutants_json unified [] = Some []"
| "mutants_json unified (m # ms) =
     Option.bind (to_json unified m) (\<lambda>j. map_option ((#) j) (mutants_json unified ms))"

subsection \<open>Writing the list of mutants\<close>

text \<open>The libraries that the listing uses, and whether standard output takes what is written to it.\<close>

record list_libs =
  ll_paint :: "part_style \<Rightarrow> string \<Rightarrow> string"
  ll_unified :: "string \<Rightarrow> string \<Rightarrow> string"
  ll_pretty_json :: "json \<Rightarrow> string"
  ll_colors :: bool
  ll_can_write :: "string \<Rightarrow> bool"
  ll_flush_ok :: bool

text \<open>What has been written, and whether a write failed.\<close>

definition write_all :: "list_libs \<Rightarrow> string \<Rightarrow> string \<Rightarrow> string \<times> bool" where
  "write_all L t out = (if ll_can_write L (out @ t) then (out @ t, True) else (out, False))"

text \<open>\<open>active_stdout\<close>: the console library decides when nothing forces a value.\<close>

definition active_stdout :: "(string \<Rightarrow> string option) \<Rightarrow> bool \<Rightarrow> colors \<Rightarrow> bool" where
  "active_stdout getenv enabled c = unwrap_or (forced_value getenv c) enabled"

text \<open>The loop over the mutants, with the buffer \<open>line\<close> that every turn uses again.\<close>

fun write_lines :: "list_libs \<Rightarrow> options \<Rightarrow> string \<Rightarrow> mutant list \<Rightarrow> string \<Rightarrow> (string \<times> bool) option" where
  "write_lines L o' line [] out = Some (out, True)"
| "write_lines L o' line (m # ms) out =
     (let line0 = [] in
      Option.bind (if ll_colors L
                   then map_option (\<lambda>s. line0 @ s) (to_styled_string (ll_paint L) m (opt_show_line_col o'))
                   else write_name m (opt_show_line_col o') line0) (\<lambda>line1.
      let line2 = line1 @ [newline] in
      Option.bind (if emit_diffs o' then map_option (\<lambda>d. line2 @ d @ [newline]) (diff_of (ll_unified L) m)
                   else Some line2) (\<lambda>line3.
      case write_all L line3 out of
        (out1, ok) \<Rightarrow> if ok then write_lines L o' line3 ms out1 else Some (out1, False))))"

definition write_mutants :: "list_libs \<Rightarrow> options \<Rightarrow> mutant list \<Rightarrow> string \<Rightarrow> (string \<times> bool) option" where
  "write_mutants L o' ms out =
     (if opt_emit_json o'
      then map_option (\<lambda>js. write_all L (ll_pretty_json L (JArray js)) out) (mutants_json (ll_unified L) ms)
      else write_lines L o' [] ms out)"

definition write_mutants_to_stdout :: "list_libs \<Rightarrow> options \<Rightarrow> mutant list \<Rightarrow> string \<Rightarrow> (string \<times> bool) option" where
  "write_mutants_to_stdout L o' ms out =
     map_option (\<lambda>(out1, ok). (out1, ok \<and> ll_flush_ok L)) (write_mutants L o' ms out)"

definition file_json :: "source_file \<Rightarrow> json" where
  "file_json sf =
     json_object [(''path'', JStr (to_slash_path (sf_tree_relative_path sf))),
       (''package'', JStr (pkg_name (sf_package sf)))]"

definition list_files :: "list_libs \<Rightarrow> source_file list \<Rightarrow> options \<Rightarrow> string" where
  "list_files L sfs o' =
     (if opt_emit_json o' then ll_pretty_json L (JArray (map file_json sfs))
      else concat (map (\<lambda>sf. to_slash_path (sf_tree_relative_path sf) @ [newline]) sfs))"

subsection \<open>The list of mutants\<close>

lemma mutated_code_total: "mutant_ok m \<Longrightarrow> \<exists>t. mutated_code m = Some t"
  unfolding mutant_ok_def source_ok_def mutated_code_def by (metis replace_extract)

lemma diff_of_total: "mutant_ok m \<Longrightarrow> \<exists>d. diff_of unified m = Some d"
  using mutated_code_total [of m] by (auto simp: diff_of_def split: option.splits)

text \<open>What the list says of one mutant.\<close>

definition listed_name :: "list_libs \<Rightarrow> options \<Rightarrow> mutant \<Rightarrow> string option" where
  "listed_name L o' m =
     (if ll_colors L then to_styled_string (ll_paint L) m (opt_show_line_col o') else name_of m (opt_show_line_col o'))"

definition listed_text :: "list_libs \<Rightarrow> options \<Rightarrow> mutant \<Rightarrow> string option" where
  "listed_text L o' m =
     Option.bind (listed_name L o' m) (\<lambda>n.
       if emit_diffs o' then map_option (\<lambda>d. n @ [newline] @ d @ [newline]) (diff_of (ll_unified L) m)
       else Some (n @ [newline]))"

lemma listed_text_total: "mutant_ok m \<Longrightarrow> \<exists>t. listed_text L o' m = Some t"
proof -
  assume ok: "mutant_ok m"
  obtain ps where "describe_parts m = Some ps" using describe_parts_total [OF ok] by blast
  then have "\<exists>n. listed_name L o' m = Some n"
    using name_total [OF ok] by (auto simp: listed_name_def to_styled_string_def)
  then show ?thesis using diff_of_total [OF ok, of "ll_unified L"] by (auto simp: listed_text_def)
qed

lemma write_lines_step:
  "write_lines L o' line (m # ms) out =
     Option.bind (listed_text L o' m) (\<lambda>t.
       case write_all L t out of (out1, ok) \<Rightarrow> if ok then write_lines L o' t ms out1 else Some (out1, False))"
  by (cases "listed_name L o' m"; cases "diff_of (ll_unified L) m")
    (auto simp: listed_text_def listed_name_def name_of_def Let_def split: option.splits prod.splits if_splits)

lemma write_lines_all:
  assumes "list_all mutant_ok ms" "\<And>t. ll_can_write L t"
  shows "write_lines L o' line ms out = Some (out @ concat (map (\<lambda>m. the (listed_text L o' m)) ms), True)"
  using assms(1)
proof (induction ms arbitrary: line out)
  case (Cons m ms)
  then obtain t where "listed_text L o' m = Some t" using listed_text_total [of m L o'] by auto
  with Cons assms(2) show ?case by (simp add: write_lines_step write_all_def del: write_lines.simps)
qed simp

lemma write_lines_prefix:
  assumes "list_all mutant_ok ms"
  shows "\<exists>k ok. k \<le> length ms \<and> (ok \<longrightarrow> k = length ms)
    \<and> write_lines L o' line ms out = Some (out @ concat (map (\<lambda>m. the (listed_text L o' m)) (take k ms)), ok)"
  using assms
proof (induction ms arbitrary: line out)
  case Nil
  show ?case by (intro exI [of _ 0] exI [of _ True]) simp
next
  case (Cons m ms)
  then obtain t where t: "listed_text L o' m = Some t" using listed_text_total [of m L o'] by auto
  show ?case
  proof (cases "ll_can_write L (out @ t)")
    case True
    have "list_all mutant_ok ms" using Cons(2) by simp
    from Cons(1) [OF this, of t "out @ t"] obtain k ok where "k \<le> length ms \<and> (ok \<longrightarrow> k = length ms)
        \<and> write_lines L o' t ms (out @ t) = Some ((out @ t) @ concat (map (\<lambda>m. the (listed_text L o' m)) (take k ms)), ok)"
      by blast
    then show ?thesis using t True
      by (intro exI [of _ "Suc k"] exI [of _ ok]) (simp add: write_lines_step write_all_def del: write_lines.simps)
  next
    case False
    then show ?thesis using t
      by (intro exI [of _ 0] exI [of _ False]) (simp add: write_lines_step write_all_def del: write_lines.simps)
  qed
qed


subsection \<open>The JSON of a mutant\<close>

lemma to_json_fields:
  assumes "to_json unified m = Some j"
  shows "\<exists>n d. full_name m = Some n \<and> diff_of unified m = Some d \<and> j = JObject
    [(''diff'', JStr d), (''file'', JStr (sf_slash_path (mu_source_file m))),
     (''function'', case mu_function m of None \<Rightarrow> JNull | Some f \<Rightarrow> to_value (function_json f)),
     (''genre'', JStr (genre_name (mu_genre m))), (''name'', JStr n),
     (''package'', JStr (pkg_name (sf_package (mu_source_file m)))),
     (''replacement'', JStr (mu_replacement m)), (''span'', to_value (span_json (mu_span m)))]"
proof -
  obtain n d where nd: "full_name m = Some n" "diff_of unified m = Some d"
    using assms by (auto simp: to_json_def serialize_mutant_def bind_eq_Some_conv)
  show ?thesis
    by (rule exI [of _ n], rule exI [of _ d])
      (use assms nd in \<open>simp add: to_json_def serialize_mutant_def json_object_def less_char_def split: option.splits\<close>)
qed

lemma span_json_inject: "to_value (span_json a) = to_value (span_json b) \<longleftrightarrow> a = b"
  by (cases a; cases b) (auto simp: span_json_def json_object_def line_column_json_def less_char_def intro: line_column.equality)

lemma function_json_inject: "to_value (function_json f) = to_value (function_json g) \<longleftrightarrow> f = g"
  by (cases f; cases g) (auto simp: function_json_def json_object_def less_char_def span_json_inject)

lemma function_json_not_null: "to_value (function_json f) \<noteq> JNull"
  by (simp add: function_json_def json_object_def)

lemma genre_name_inject: "genre_name a = genre_name b \<longleftrightarrow> a = b"
  by (cases a; cases b) (simp_all add: genre_name_def)

lemma same_change_same_json:
  assumes "mutant_eq a b"
  shows "to_json unified a = to_json unified b"
proof -
  have same: "mu_source_file a = mu_source_file b" "mu_function a = mu_function b" "mu_span a = mu_span b"
    "mu_short_replaced a = mu_short_replaced b" "mu_replacement a = mu_replacement b" "mu_genre a = mu_genre b"
    "mu_target a = mu_target b"
    using assms by (auto simp: mutant_eq_def)
  have "full_name a = full_name b"
    unfolding full_name_def describe_change_def describe_parts_def in_function_part_def original_text_def same ..
  moreover have "diff_of unified a = diff_of unified b"
    unfolding diff_of_def diff_window_of_def window_lo_def window_hi_def first_diff_line_def
      replacement_with_marker_def mutated_code_def same ..
  ultimately show ?thesis using same by (simp add: to_json_def serialize_mutant_def)
qed

text \<open>C37: The JSON of a mutant says exactly which change it makes.  Every mutant that discovery builds has one, with
  its eight keys in alphabetical order; mutants that are equal, however they were found, have the same; and two
  mutants of one file with the same JSON have the same name, change the same place in the same way, and so give
  the same code.\<close>

theorem json_says_the_change:
  assumes "mutant_ok a" "mutant_ok b" "mu_source_file a = mu_source_file b"
  shows "(\<exists>kvs. to_json unified a = Some (JObject kvs)
        \<and> map fst kvs = [''diff'', ''file'', ''function'', ''genre'', ''name'', ''package'', ''replacement'', ''span''])
    \<and> (mutant_eq a b \<longrightarrow> to_json unified a = to_json unified b)
    \<and> (to_json unified a = to_json unified b \<longrightarrow>
         full_name a = full_name b \<and> mu_genre a = mu_genre b \<and> mu_function a = mu_function b
         \<and> mu_span a = mu_span b \<and> mutated_code a = mutated_code b)"
proof -
  obtain na where "full_name a = Some na" using name_total [OF assms(1), of True] by (auto simp: name_of_def write_name_def)
  moreover obtain da where "diff_of unified a = Some da" using diff_of_total [OF assms(1)] by blast
  ultimately obtain j where j: "to_json unified a = Some j" by (simp add: to_json_def serialize_mutant_def)
  note a = to_json_fields [OF j]
  have "full_name a = full_name b \<and> mu_genre a = mu_genre b \<and> mu_function a = mu_function b
      \<and> mu_span a = mu_span b \<and> mutated_code a = mutated_code b" if "to_json unified a = to_json unified b"
  proof -
    have "to_json unified b = Some j" using that j by simp
    note b = to_json_fields [OF this]
    have "full_name a = full_name b" "mu_genre a = mu_genre b" "mu_function a = mu_function b" "mu_span a = mu_span b"
      "mu_replacement a = mu_replacement b"
      using a b by (auto simp: genre_name_inject span_json_inject function_json_inject function_json_not_null
          function_json_not_null [symmetric] split: option.splits)
    then show ?thesis using assms(3) by (simp add: mutated_code_def replacement_with_marker_def)
  qed
  then show ?thesis using a j same_change_same_json by auto
qed

definition plain_list :: list_libs where
  "plain_list = \<lparr>ll_paint = (\<lambda>_ t. t), ll_unified = (\<lambda>a b. b), ll_pretty_json = (\<lambda>_. []), ll_colors = False,
     ll_can_write = (\<lambda>_. True), ll_flush_ok = True\<rparr>"

theorem json_says_the_change_witness:
  "to_json (\<lambda>a b. b) example_mutant = to_json (\<lambda>a b. b) (example_mutant\<lparr>mu_const_eval := True\<rparr>)"
proof -
  have "mutant_ok (example_mutant\<lparr>mu_const_eval := True\<rparr>)" using example_mutant_ok by (simp add: mutant_ok_def)
  from json_says_the_change [OF example_mutant_ok this, of "\<lambda>a b. b"] show ?thesis by (simp add: mutant_eq_def)
qed


end
