(* ===== verification/Coverage.thy ===== *)
theory Coverage
  imports Listing CargoRun Progress
begin

text \<open>
  Measuring coverage (\<open>src/src/coverage.rs\<close>): finding the LLVM tools, merging the profiles that the baseline wrote and
  exporting them.  Running a command, the file system and the derived reader of the export are arguments; the reader
  of a segment is the code's own.
\<close>

subsection \<open>Segments\<close>

text \<open>A segment is read from an array whose fields may be missing or of another kind.  A \<open>usize\<close> holds every \<open>u64\<close>.\<close>

definition as_u64 :: "json \<Rightarrow> nat option" where
  "as_u64 j = (case j of JNum n \<Rightarrow> if 0 \<le> n \<and> n < 2 ^ 64 then Some (nat n) else None | _ \<Rightarrow> None)"

definition as_bool :: "json \<Rightarrow> bool option" where
  "as_bool j = (case j of JBool b \<Rightarrow> Some b | _ \<Rightarrow> None)"

definition segment_of_json :: "json list \<Rightarrow> segment" where
  "segment_of_json row =
     \<lparr>sg_line = unwrap_or (Option.bind (get_opt row 0) as_u64) 0,
      sg_count = unwrap_or (Option.bind (get_opt row 2) as_u64) 0,
      sg_has_count = unwrap_or (Option.bind (get_opt row 3) as_bool) False\<rparr>"

subsection \<open>The tools\<close>

record command_output =
  co_success :: bool
  co_stdout :: string

record cov_system =
  cv_run :: "string list \<Rightarrow> command_output option"  \<comment> \<open>None if the command cannot be started\<close>
  cv_is_file :: "path \<Rightarrow> bool"
  cv_read_dir :: "path \<Rightarrow> path option list option"  \<comment> \<open>an entry may fail on its own\<close>
  cv_canonicalize :: "path \<Rightarrow> path option"
  cv_parse_export :: "string \<Rightarrow> (path \<times> json list list) list list option"

datatype cov_error =
    RustcNotRun | RustcFailed | LibdirNotUtf8 | LibdirNoParent path | ToolMissing path | NoBinaries | ProfrawUnreadable path
  | NoProfraw path | MergeNotRun | MergeFailed | ExportNotRun | ExportFailed | ExportNotUtf8 | ExportNotParsed

record llvm_tools =
  lt_profdata :: path
  lt_cov :: path

text \<open>\<open>str::trim\<close>: without the longest blank end, then without the longest blank start.\<close>

definition str_trim :: "string \<Rightarrow> string" where
  "str_trim s =
     (let s1 = take (unwrap_or (find (\<lambda>k. is_blank (drop k s)) [0..<Suc (length s)]) (length s)) s
      in drop (unwrap_or (find (\<lambda>k. is_blank (take k s1)) (rev [0..<Suc (length s1)])) 0) s1)"

definition find_tools :: "cov_system \<Rightarrow> (cov_error, llvm_tools) rresult" where
  "find_tools W =
     (case cv_run W [''rustc'', ''--print'', ''target-libdir''] of
        None \<Rightarrow> Err RustcNotRun
      | Some out \<Rightarrow>
          if \<not> co_success out then Err RustcFailed
          else if \<not> utf8 (co_stdout out) then Err LibdirNotUtf8
          else
            let libdir = str_trim (co_stdout out) in
            case path_parent libdir of
              None \<Rightarrow> Err (LibdirNoParent libdir)
            | Some dir \<Rightarrow>
                let bin = join_path dir ''bin'';
                    profdata = join_path bin ''llvm-profdata'';
                    cov = join_path bin ''llvm-cov''
                in if \<not> cv_is_file W profdata then Err (ToolMissing profdata)
                   else if \<not> cv_is_file W cov then Err (ToolMissing cov)
                   else Ok \<lparr>lt_profdata = profdata, lt_cov = cov\<rparr>)"

definition raw_profiles :: "path option list \<Rightarrow> path list" where
  "raw_profiles entries =
     sort_key path_key (filter (\<lambda>p. extension p = Some ''profraw'') (List.map_filter id entries))"

definition merge_profiles :: "cov_system \<Rightarrow> llvm_tools \<Rightarrow> path \<Rightarrow> path \<Rightarrow> (cov_error, unit) rresult" where
  "merge_profiles W tools raw_dir profdata_path =
     (case cv_read_dir W raw_dir of
        None \<Rightarrow> Err (ProfrawUnreadable raw_dir)
      | Some entries \<Rightarrow>
          let raws = raw_profiles entries in
          if raws = [] then Err (NoProfraw raw_dir)
          else
            (case cv_run W (lt_profdata tools # [''merge'', ''-sparse''] @ raws @ [''-o'', profdata_path]) of
               None \<Rightarrow> Err MergeNotRun
             | Some out \<Rightarrow> if co_success out then Ok () else Err MergeFailed))"

definition export_profile :: "cov_system \<Rightarrow> llvm_tools \<Rightarrow> path \<Rightarrow> path list \<Rightarrow> (cov_error, string) rresult" where
  "export_profile W tools profdata_path binaries =
     (case cv_run W ([lt_cov tools, ''export'', ''--instr-profile'', profdata_path, ''--format=text''] @ binaries) of
        None \<Rightarrow> Err ExportNotRun
      | Some out \<Rightarrow>
          if \<not> co_success out then Err ExportFailed
          else if utf8 (co_stdout out) then Ok (co_stdout out) else Err ExportNotUtf8)"

definition exported_files :: "(path \<times> json list list) list list \<Rightarrow> export_file list" where
  "exported_files datas =
     map (\<lambda>(name, segments). \<lparr>ef_filename = name, ef_segments = map segment_of_json segments\<rparr>) (concat datas)"

definition from_export_json :: "cov_system \<Rightarrow> string \<Rightarrow> path \<Rightarrow> (cov_error, line_coverage) rresult" where
  "from_export_json W json build_dir =
     (case cv_parse_export W json of
        None \<Rightarrow> Err ExportNotParsed
      | Some datas \<Rightarrow> Ok (from_export build_dir (cv_canonicalize W build_dir) (exported_files datas)))"

definition read_coverage ::
  "cov_system \<Rightarrow> llvm_tools \<Rightarrow> path \<Rightarrow> path list \<Rightarrow> path \<Rightarrow> (cov_error, line_coverage) rresult" where
  "read_coverage W tools raw_dir binaries build_dir =
     (if binaries = [] then Err NoBinaries
      else
        let profdata_path = join_path raw_dir ''merged.profdata'' in
        rbind (merge_profiles W tools raw_dir profdata_path) (\<lambda>_.
        rbind (export_profile W tools profdata_path binaries) (\<lambda>json.
          from_export_json W json build_dir)))"

subsection \<open>What is covered\<close>

lemma raw_profiles_set: "set (raw_profiles entries) = {p. Some p \<in> set entries \<and> extension p = Some ''profraw''}"
  by (force simp: raw_profiles_def List.map_filter_def)

text \<open>A line counts as covered exactly if the export has a segment with a positive count that starts on it, in a
  file of the build directory under its name or its canonical name.  The export is that of the binaries given
  over a merge of every profile in the directory, and there is none without a binary or a profile.\<close>

theorem coverage_is_what_was_exported:
  assumes "read_coverage W tools dir binaries build_dir = Ok cov"
  shows "binaries \<noteq> [] \<and> (\<exists>entries raws merged out datas. cv_read_dir W dir = Some entries \<and> raws \<noteq> []
    \<and> set raws = {p. Some p \<in> set entries \<and> extension p = Some ''profraw''}
    \<and> cv_run W (lt_profdata tools # [''merge'', ''-sparse''] @ raws @ [''-o'', join_path dir ''merged.profdata'']) = Some merged
    \<and> co_success merged
    \<and> cv_run W ([lt_cov tools, ''export'', ''--instr-profile'', join_path dir ''merged.profdata'', ''--format=text''] @ binaries)
        = Some out
    \<and> co_success out \<and> cv_parse_export W (co_stdout out) = Some datas
    \<and> (\<forall>p l. covers cov p l \<longleftrightarrow>
         (\<exists>name segments row. (name, segments) \<in> set (concat datas) \<and> row \<in> set segments
            \<and> (\<exists>rel. strip_first (coverage_prefixes build_dir (cv_canonicalize W build_dir)) name = Some rel \<and> path_eq p rel)
            \<and> unwrap_or (Option.bind (get_opt row 3) as_bool) False
            \<and> (\<exists>n. get_opt row 2 = Some (JNum n) \<and> 0 < n \<and> n < 2 ^ 64)
            \<and> l = unwrap_or (Option.bind (get_opt row 0) as_u64) 0)))"
proof -
  let ?merge = "\<lambda>raws. lt_profdata tools # [''merge'', ''-sparse''] @ raws @ [''-o'', join_path dir ''merged.profdata'']"
  let ?export = "[lt_cov tools, ''export'', ''--instr-profile'', join_path dir ''merged.profdata'', ''--format=text''] @ binaries"
  have some: "binaries \<noteq> []" using assms by (auto simp: read_coverage_def)
  obtain json where m: "merge_profiles W tools dir (join_path dir ''merged.profdata'') = Ok ()"
    and e: "export_profile W tools (join_path dir ''merged.profdata'') binaries = Ok json"
    and f: "from_export_json W json build_dir = Ok cov"
    using assms some by (auto simp: read_coverage_def Let_def rbind_Ok_iff)
  from m obtain entries merged where merge: "cv_read_dir W dir = Some entries" "raw_profiles entries \<noteq> []"
    "cv_run W (?merge (raw_profiles entries)) = Some merged" "co_success merged"
    by (auto simp: merge_profiles_def Let_def split: option.splits if_splits)
  from e obtain out where export: "cv_run W ?export = Some out" "co_success out" "json = co_stdout out"
    by (auto simp: export_profile_def split: option.splits if_splits)
  from f obtain datas where datas: "cv_parse_export W json = Some datas"
    "cov = from_export build_dir (cv_canonicalize W build_dir) (exported_files datas)"
    by (auto simp: from_export_json_def split: option.splits)
  have count: "0 < sg_count (segment_of_json row) \<longleftrightarrow> (\<exists>n. get_opt row 2 = Some (JNum n) \<and> 0 < n \<and> n < 2 ^ 64)" for row
    by (cases "get_opt row 2") (auto simp: segment_of_json_def as_u64_def unwrap_or_def split: json.splits)
  have seg: "sg_line (segment_of_json row) = unwrap_or (Option.bind (get_opt row 0) as_u64) 0"
    "sg_has_count (segment_of_json row) = unwrap_or (Option.bind (get_opt row 3) as_bool) False" for row
    by (simp_all add: segment_of_json_def)
  have "covers cov p l \<longleftrightarrow> (\<exists>name segments row. (name, segments) \<in> set (concat datas) \<and> row \<in> set segments
      \<and> (\<exists>rel. strip_first (coverage_prefixes build_dir (cv_canonicalize W build_dir)) name = Some rel \<and> path_eq p rel)
      \<and> unwrap_or (Option.bind (get_opt row 3) as_bool) False
      \<and> (\<exists>n. get_opt row 2 = Some (JNum n) \<and> 0 < n \<and> n < 2 ^ 64)
      \<and> l = unwrap_or (Option.bind (get_opt row 0) as_u64) 0)" for p l
    unfolding datas(2) covered_lines_are_region_starts count [symmetric] seg [symmetric] exported_files_def by force
  then show ?thesis using some merge export datas(1) raw_profiles_set [of entries] by blast
qed

text \<open>The directory is not emptied before the baseline runs, so the profiles of an earlier run count as well.\<close>

lemma earlier_profiles_are_merged:
  assumes "cv_read_dir W dir = Some entries" "Some p \<in> set entries" "extension p = Some ''profraw''"
  shows "p \<in> set (raw_profiles entries)"
  using assms by (simp add: raw_profiles_set)

subsection \<open>An example\<close>

definition example_cov :: cov_system where
  "example_cov =
     \<lparr>cv_run = (\<lambda>_. Some \<lparr>co_success = True, co_stdout = []\<rparr>), cv_is_file = (\<lambda>_. True),
      cv_read_dir = (\<lambda>_. Some [Some ''/b/1.profraw'']), cv_canonicalize = (\<lambda>_. None),
      cv_parse_export = (\<lambda>_. Some [[(''/b/src/lib.rs'', [[JNum 3, JNum 1, JNum 7, JBool True], [JNum 9, JNum 5, JNum 0, JBool True]])]])\<rparr>"

lemma coverage_is_what_was_exported_witness:
  "\<exists>cov. read_coverage example_cov \<lparr>lt_profdata = ''p'', lt_cov = ''c''\<rparr> ''/b'' [''t''] ''/b'' = Ok cov
    \<and> \<not> covers cov ''src/lib.rs'' 9"
proof -
  let ?tools = "\<lparr>lt_profdata = ''p'', lt_cov = ''c''\<rparr>"
  have raw: "raw_profiles [Some ''/b/1.profraw''] = [''/b/1.profraw'']"
    by (simp add: raw_profiles_def List.map_filter_def extension_def file_name_def components_def rsplit_dot_def last_opt_def
        is_absolute_def starts_with_def)
  have "utf8 []" by (simp add: utf8_def)
  then obtain cov where cov: "read_coverage example_cov ?tools ''/b'' [''t''] ''/b'' = Ok cov"
    by (simp add: read_coverage_def merge_profiles_def export_profile_def from_export_json_def example_cov_def raw Let_def)
  have "\<not> covers cov ''src/lib.rs'' 9"
  proof
    assume "covers cov ''src/lib.rs'' 9"
    have "\<exists>(out :: command_output) datas. cv_parse_export example_cov (co_stdout out) = Some datas
        \<and> (\<forall>p l. covers cov p l \<longleftrightarrow>
             (\<exists>name segments row. (name, segments) \<in> set (concat datas) \<and> row \<in> set segments
                \<and> (\<exists>rel. strip_first (coverage_prefixes ''/b'' (cv_canonicalize example_cov ''/b'')) name = Some rel \<and> path_eq p rel)
                \<and> unwrap_or (Option.bind (get_opt row 3) as_bool) False
                \<and> (\<exists>n. get_opt row 2 = Some (JNum n) \<and> 0 < n \<and> n < 2 ^ 64)
                \<and> l = unwrap_or (Option.bind (get_opt row 0) as_u64) 0))"
      using coverage_is_what_was_exported [OF cov] by (elim conjE exE) blast
    then obtain out :: command_output and datas where d: "cv_parse_export example_cov (co_stdout out) = Some datas"
      and c: "\<exists>name segments row. (name, segments) \<in> set (concat datas) \<and> row \<in> set segments
        \<and> (\<exists>n. get_opt row 2 = Some (JNum n) \<and> 0 < n) \<and> 9 = unwrap_or (Option.bind (get_opt row 0) as_u64) 0"
      using \<open>covers cov _ _\<close> by blast
    from c obtain name segments row where "(name, segments) \<in> set (concat datas)" "row \<in> set segments"
      "\<exists>n. get_opt row 2 = Some (JNum n) \<and> 0 < n" "9 = unwrap_or (Option.bind (get_opt row 0) as_u64) 0" by blast
    with d(1) show False
      by (auto simp: example_cov_def get_opt_def unwrap_or_def as_u64_def)
  qed
  with cov show ?thesis by blast
qed

end
