(* ===== verification/Program.thy ===== *)
theory Program
  imports WalkTree InDiff Copying Listing Lab Coverage
begin

text \<open>
  The program as a whole (\<open>main\<close> and \<open>mutate_file\<close> in \<open>src/src/main.rs\<close>): how the command line and the
  configuration choose the workspace, the packages, the mutants and what is done with them.  The parts are those
  of the other theories.  What lies outside the program is one record: the file system as it is read, cargo's
  metadata, the parsers, the directory that will hold \<open>mutants.out\<close>, and the system calls that can fail.
\<close>

subsection \<open>The system\<close>

record 'fp system =
  sy_libs :: libs
  sy_getenv :: "string \<Rightarrow> string option"
  sy_colors_enabled :: bool
  sy_list :: list_libs
  sy_version :: string
  sy_schema :: string
  sy_completions :: "string \<Rightarrow> string"
  sy_read :: "path \<Rightarrow> string option"
  sy_is_file :: "path \<Rightarrow> bool"
  sy_exists :: "path \<Rightarrow> bool"
  sy_is_dir :: "path \<Rightarrow> bool"
  sy_canonicalize :: "path \<Rightarrow> path option"
  sy_interrupted :: bool
  sy_metadata :: "path \<Rightarrow> metadata option"
  sy_config :: "path \<Rightarrow> config option"  \<comment> \<open>reading and parsing a file as TOML\<close>
  sy_parser :: parser
  sy_machine :: "package \<Rightarrow> machine"
  sy_parse_diff :: "string \<Rightarrow> (string, patch list) rresult"
  sy_debug :: "string \<Rightarrow> string"
  sy_read_diff :: "path \<Rightarrow> (string, string) rresult"
  sy_out :: "path \<Rightarrow> out_parent"
  sy_out_ok :: "out_step \<Rightarrow> bool"
  sy_write_caught_ok :: bool
  sy_open_debug_log_ok :: bool
  sy_files :: files
  sy_copy :: copy_world
  sy_parse_toml :: "string \<Rightarrow> toml_table option"
  sy_pretty_toml :: "toml_table \<Rightarrow> string option"
  sy_env :: env
  sy_digest :: "(string \<times> string) list \<Rightarrow> 'fp"
  sy_cov :: cov_system
  sy_run :: run_world  \<comment> \<open>without the build directory and the coverage\<close>

text \<open>The command line after parsing; what \<open>clap\<close> does by itself ends with an exit code of its own.\<close>

record cli =
  cli_args :: args
  cli_completions :: "string option"
  cli_emit_schema :: bool

datatype main_error =
    ErrConfig path | ErrOptions opt_error | ErrNoParent | ErrNotDirectory path | ErrInterrupted | ErrMetadata path
  | ErrPackages ws_error | ErrWalk walk_error | ErrPreviouslyCaught out_error | ErrOutput out_step
  | ErrWritePreviouslyCaught out_error | ErrDebugLog | ErrLab lab_error | ErrStdout | ErrNoFileName | ErrOutsideTree

text \<open>\<open>Failed\<close> is an error returned from \<open>main\<close>, \<open>Crashed\<close> a panic, \<open>Endless\<close> a run that takes more than the
  fuel for the walk of the tree.\<close>

datatype main_end = Exited exit_code | Failed main_error | Crashed | Endless

text \<open>\<open>fin_stdout\<close> is what \<open>main\<close> itself prints; what the lab prints is in the theory of the display.\<close>

record 'fp finished =
  fin_end :: main_end
  fin_stdout :: string
  fin_out :: "path \<Rightarrow> out_parent"
  fin_lab :: "('fp lab_state \<times> (lab_error, lab_outcome) rresult) option"

text \<open>An end that has tested nothing.\<close>

definition ends :: "'fp system \<Rightarrow> string \<Rightarrow> main_end \<Rightarrow> 'fp finished" where
  "ends sy out e = \<lparr>fin_end = e, fin_stdout = out, fin_out = sy_out sy, fin_lab = None\<rparr>"

text \<open>What the shell sees: an error returned from \<open>main\<close> gives 1 and a panic 101.\<close>

definition shell_status :: "main_end \<Rightarrow> nat option" where
  "shell_status e =
     (case e of Exited c \<Rightarrow> Some (exit_code_value c) | Failed _ \<Rightarrow> Some 1 | Crashed \<Rightarrow> Some 101 | Endless \<Rightarrow> None)"

subsection \<open>Choices\<close>

definition clap_exit_code :: "nat \<Rightarrow> exit_code" where
  "clap_exit_code n = (if n = 2 then ECUsage else if n = 0 then ECSuccess else ECSoftware)"

text \<open>Where to start: a path, or the end that is reached at once.\<close>

definition start_dir_of :: "(path \<Rightarrow> bool) \<Rightarrow> args \<Rightarrow> (main_end, path) rresult" where
  "start_dir_of is_file a =
     (case arg_manifest_path a of
        Some manifest_path \<Rightarrow>
          if \<not> is_file manifest_path then Err (Exited ECUsage)
          else (case path_parent manifest_path of None \<Rightarrow> Err (Failed ErrNoParent) | Some d \<Rightarrow> Ok d)
      | None \<Rightarrow> (case arg_dir a of Some d \<Rightarrow> Ok d | None \<Rightarrow> Ok ''.''))"

definition read_config :: "'fp system \<Rightarrow> path \<Rightarrow> (main_end, config) rresult" where
  "read_config sy p = (case sy_config sy p of None \<Rightarrow> Err (Failed (ErrConfig p)) | Some c \<Rightarrow> Ok c)"

definition choose_config :: "'fp system \<Rightarrow> args \<Rightarrow> path \<Rightarrow> (main_end, config) rresult" where
  "choose_config sy a root =
     (if arg_no_config a then Ok default_config
      else (case arg_config a of
              Some p \<Rightarrow> read_config sy p
            | None \<Rightarrow> read_tree_config (sy_exists sy) (read_config sy) root))"

definition open_workspace :: "'fp system \<Rightarrow> path \<Rightarrow> (main_end, workspace) rresult" where
  "open_workspace sy start_dir =
     (if \<not> sy_is_dir sy start_dir then Err (Failed (ErrNotDirectory start_dir))
      else if sy_interrupted sy then Err (Failed ErrInterrupted)
      else (case sy_metadata sy start_dir of
              None \<Rightarrow> Err (Failed (ErrMetadata start_dir))
            | Some md \<Rightarrow> Ok (workspace_open md)))"

definition new_options :: "'fp system \<Rightarrow> args \<Rightarrow> config \<Rightarrow> (main_end, options) rresult" where
  "new_options sy a c =
     (case options_new (sy_libs sy) (sy_getenv sy) a c of
        Err OptPanic \<Rightarrow> Err Crashed
      | Err e \<Rightarrow> Err (Failed (ErrOptions e))
      | Ok o' \<Rightarrow> Ok o')"

definition choose_packages :: "args \<Rightarrow> path \<Rightarrow> package_filter" where
  "choose_packages a start_dir =
     (if arg_mutate_packages a \<noteq> [] then FilterExplicit (arg_mutate_packages a)
      else if arg_workspace a then FilterAll
      else FilterAuto start_dir)"

definition walk_env_of :: "'fp system \<Rightarrow> options \<Rightarrow> path \<Rightarrow> walk_env" where
  "walk_env_of sy o' dir =
     \<lparr>we_read = sy_read sy, we_is_file = sy_is_file sy, we_parser = sy_parser sy, we_libs = sy_libs sy,
      we_options = o', we_workspace_dir = dir\<rparr>"

definition discover_mutants ::
  "'fp system \<Rightarrow> nat \<Rightarrow> args \<Rightarrow> path \<Rightarrow> workspace \<Rightarrow> options \<Rightarrow> (main_end, discovered) rresult" where
  "discover_mutants sy fuel a start_dir ws o' =
     (case discover (walk_env_of sy o' (ws_root ws)) (sy_machine sy) fuel
             (locate_project (sy_is_dir sy) (sy_is_file sy) (sy_canonicalize sy)) ws (choose_packages a start_dir) of
        Err e \<Rightarrow> Err (Failed (ErrPackages e))
      | Ok (Returned (Err e)) \<Rightarrow> Err (Failed (ErrWalk e))
      | Ok (Returned (Ok d)) \<Rightarrow> Ok d
      | Ok run.Interrupted \<Rightarrow> Err (Failed ErrInterrupted)
      | Ok Panicked \<Rightarrow> Err Crashed
      | Ok OutOfFuel \<Rightarrow> Err Endless)"

definition output_parent_dir :: "options \<Rightarrow> workspace \<Rightarrow> path" where
  "output_parent_dir o' ws = unwrap_or (opt_output_in_dir o') (ws_root ws)"

text \<open>With \<open>--iterate\<close>: the names of the mutants caught before, which are left out.\<close>

definition leave_out_caught ::
  "'fp system \<Rightarrow> args \<Rightarrow> path \<Rightarrow> discovered \<Rightarrow> (main_end, discovered \<times> string list option) rresult" where
  "leave_out_caught sy a parent d =
     (if \<not> arg_iterate a then Ok (d, None)
      else (case load_previously_caught (read_of (op_current (sy_out sy parent))) of
              Err e \<Rightarrow> Err (Failed (ErrPreviouslyCaught e))
            | Ok caught \<Rightarrow>
                (case remove_previously_caught caught d of
                   None \<Rightarrow> Err Crashed
                 | Some d1 \<Rightarrow> Ok (d1, Some caught))))"

definition touched_by_diff :: "'fp system \<Rightarrow> args \<Rightarrow> mutant list \<Rightarrow> (main_end, mutant list) rresult" where
  "touched_by_diff sy a ms =
     (case arg_in_diff a of
        None \<Rightarrow> Ok ms
      | Some p \<Rightarrow>
          (case diff_filter_file (sy_parse_diff sy) (sy_debug sy) ms (sy_read_diff sy p) of
             Err e \<Rightarrow> Err (Exited (error_exit_code e))
           | Ok ms1 \<Rightarrow> Ok ms1))"

definition in_the_shard :: "args \<Rightarrow> options \<Rightarrow> mutant list \<Rightarrow> (main_end, mutant list) rresult" where
  "in_the_shard a o' ms =
     (case arg_shard a of
        None \<Rightarrow> Ok ms
      | Some s \<Rightarrow> (case shard_list (sharding_of o') s ms of None \<Rightarrow> Err Crashed | Some ms1 \<Rightarrow> Ok ms1))"

subsection \<open>Testing\<close>

definition lab_end :: "(lab_error, lab_outcome) rresult \<Rightarrow> main_end" where
  "lab_end r =
     (case r of
        Err LabPanic \<Rightarrow> Crashed
      | Err (LabOut OutPanic) \<Rightarrow> Crashed
      | Err e \<Rightarrow> Failed (ErrLab e)
      | Ok lo \<Rightarrow> Exited (lab_exit_code lo))"

definition lab_of :: "'fp system \<Rightarrow> workspace \<Rightarrow> options \<Rightarrow> 'fp lab" where
  "lab_of sy ws o' =
     \<lparr>lb_options = o', lb_env = sy_env sy, lb_unified = ll_unified (sy_list sy), lb_digest = sy_digest sy,
      lb_debug = sy_debug sy, lb_baseline_fingerprint = None, lb_coverage = None,
      lb_tests_for_mutant = tests_for_mutant o' ws\<rparr>"

text \<open>The coverage of the baseline, read from the profiles in its build directory.\<close>

definition measure_coverage :: "'fp system \<Rightarrow> options \<Rightarrow> path \<Rightarrow> (lab_error, line_coverage) rresult" where
  "measure_coverage sy o' dir =
     (case find_tools (sy_cov sy) of
        Err _ \<Rightarrow> Err CoverageTools
      | Ok tools \<Rightarrow>
          (case read_coverage (sy_cov sy) tools (profraw_dir dir)
                  (map af_path (test_executables (sw_listing (rw_baseline (sy_run sy))) dir o')) dir of
             Err _ \<Rightarrow> Err CoverageRead
           | Ok cov \<Rightarrow> Ok cov))"

text \<open>The build directory is made, and the coverage read, when the run gets that far.\<close>

definition run_world_of :: "'fp system \<Rightarrow> workspace \<Rightarrow> options \<Rightarrow> run_world" where
  "run_world_of sy ws o' =
     (let build_dir = (case for_baseline (sy_copy sy) (sy_parse_toml sy) (sy_pretty_toml sy) ws o' (sy_files sy) of
                        (fs, Ok bd) \<Rightarrow> Some (bd_path bd, fs)
                      | (fs, Err _) \<Rightarrow> None)
      in (sy_run sy)\<lparr>rw_build_dir := build_dir,
           rw_tools_found := is_ok (find_tools (sy_cov sy)),
           rw_coverage := (case build_dir of None \<Rightarrow> Err BuildDirFailed | Some (dir, _) \<Rightarrow> measure_coverage sy o' dir)\<rparr>)"

definition keep_out :: "path \<Rightarrow> out_parent \<Rightarrow> 'fp finished \<Rightarrow> 'fp finished" where
  "keep_out parent op f = f\<lparr>fin_out := (fin_out f)(parent := op)\<rparr>"

definition run_the_lab ::
  "'fp system \<Rightarrow> workspace \<Rightarrow> options \<Rightarrow> path \<Rightarrow> out_parent \<Rightarrow> output_dir \<Rightarrow> mutant list \<Rightarrow> 'fp finished" where
  "run_the_lab sy ws o' parent op od ms =
     (case test_mutants (run_world_of sy ws o') (sy_libs sy) (lab_of sy ws o') ms
             \<lparr>ls_dir = [], ls_files = sy_files sy, ls_output = od, ls_fingerprints = (\<lambda>_. None)\<rparr> of
        None \<Rightarrow> keep_out parent (op\<lparr>op_current := Some od\<rparr>) (ends sy [] Crashed)
      | Some (st, r) \<Rightarrow>
          keep_out parent (op\<lparr>op_current := Some (ls_output st)\<rparr>)
            ((ends sy [] (lab_end r))\<lparr>fin_lab := Some (st, r)\<rparr>))"

definition test_selected ::
  "'fp system \<Rightarrow> workspace \<Rightarrow> options \<Rightarrow> path \<Rightarrow> string list option \<Rightarrow> mutant list \<Rightarrow> 'fp finished" where
  "test_selected sy ws o' parent caught ms =
     (case output_dir_new (sy_out_ok sy) parent (sy_out sy parent) of
        (op, Err e) \<Rightarrow> keep_out parent op (ends sy [] (Failed (ErrOutput e)))
      | (op, Ok od) \<Rightarrow>
          (case (case caught of None \<Rightarrow> (od, Ok ()) | Some names \<Rightarrow> write_previously_caught (sy_write_caught_ok sy) names od) of
             (od1, Err e) \<Rightarrow>
               keep_out parent (op\<lparr>op_current := Some od1\<rparr>) (ends sy [] (Failed (ErrWritePreviouslyCaught e)))
           | (od1, Ok _) \<Rightarrow>
               if \<not> sy_open_debug_log_ok sy
               then keep_out parent (op\<lparr>op_current := Some od1\<rparr>) (ends sy [] (Failed ErrDebugLog))
               else run_the_lab sy ws o' parent op od1 ms))"

subsection \<open>Listing\<close>

definition list_libs_of :: "'fp system \<Rightarrow> options \<Rightarrow> list_libs" where
  "list_libs_of sy o' =
     (sy_list sy)\<lparr>ll_colors := active_stdout (sy_getenv sy) (sy_colors_enabled sy) (opt_colors o')\<rparr>"

definition list_selected :: "'fp system \<Rightarrow> options \<Rightarrow> mutant list \<Rightarrow> 'fp finished" where
  "list_selected sy o' ms =
     (case write_mutants_to_stdout (list_libs_of sy o') o' ms [] of
        None \<Rightarrow> ends sy [] Crashed
      | Some (out, ok) \<Rightarrow> ends sy out (if ok then Exited ECSuccess else Failed ErrStdout))"

text \<open>\<open>mutate_file\<close>: one file, outside any workspace.\<close>

definition single_file_package :: package where
  "single_file_package =
     \<lparr>pkg_name = ''single_file'', pkg_version = ''0.0.0'', pkg_relative_dir = [], pkg_top_sources = []\<rparr>"

definition mutate_file :: "'fp system \<Rightarrow> options \<Rightarrow> path \<Rightarrow> 'fp finished" where
  "mutate_file sy o' p =
     (case path_parent p of
        None \<Rightarrow> ends sy [] (Failed ErrNoParent)
      | Some dir \<Rightarrow>
          (case file_name p of
             None \<Rightarrow> ends sy [] (Failed ErrNoFileName)
           | Some name \<Rightarrow>
               (case load (read_source (walk_env_of sy o' dir)) dir name single_file_package True of
                  Err e \<Rightarrow> ends sy [] (Failed (ErrWalk e))
                | Ok None \<Rightarrow> ends sy [] (Failed ErrOutsideTree)
                | Ok (Some sf) \<Rightarrow>
                    (case walk_file (sy_libs sy) o' (sy_parser sy) sf of
                       None \<Rightarrow> ends sy [] Crashed
                     | Some (Err e) \<Rightarrow> ends sy [] (Failed (ErrWalk e))
                     | Some (Ok (ms, _)) \<Rightarrow> list_selected sy o' ms))))"

subsection \<open>Main\<close>

definition finish_with :: "'fp system \<Rightarrow> (main_end, 'fp finished) rresult \<Rightarrow> 'fp finished" where
  "finish_with sy r = (case r of Err e \<Rightarrow> ends sy [] e | Ok f \<Rightarrow> f)"

definition with_workspace :: "'fp system \<Rightarrow> nat \<Rightarrow> args \<Rightarrow> (main_end, 'fp finished) rresult" where
  "with_workspace sy fuel a =
     rbind (start_dir_of (sy_is_file sy) a) (\<lambda>start_dir.
     rbind (open_workspace sy start_dir) (\<lambda>ws.
     rbind (choose_config sy a (ws_root ws)) (\<lambda>config.
     rbind (new_options sy a config) (\<lambda>o'.
     rbind (discover_mutants sy fuel a start_dir ws o') (\<lambda>discovered.
     rbind (leave_out_caught sy a (output_parent_dir o' ws) discovered) (\<lambda>(discovered1, caught).
     if arg_list_files a
     then Ok (ends sy (list_files (list_libs_of sy o') (di_files discovered1) o') (Exited ECSuccess))
     else
       rbind (touched_by_diff sy a (di_mutants discovered1)) (\<lambda>ms1.
       rbind (in_the_shard a o' ms1) (\<lambda>ms.
         Ok (if arg_list a then list_selected sy o' ms
             else test_selected sy ws o' (output_parent_dir o' ws) caught ms)))))))))"

definition main :: "'fp system \<Rightarrow> nat \<Rightarrow> (nat, cli) rresult \<Rightarrow> 'fp finished" where
  "main sy fuel parsed =
     (case parsed of
        Err clap_code \<Rightarrow> ends sy [] (Exited (clap_exit_code clap_code))
      | Ok cl \<Rightarrow>
          let a = cli_args cl in
          if arg_version a then ends sy (''cargo-mutants '' @ sy_version sy @ [newline]) (Exited ECSuccess)
          else if cli_completions cl \<noteq> None
          then ends sy (sy_completions sy (the (cli_completions cl))) (Exited ECSuccess)
          else if cli_emit_schema cl then ends sy (sy_schema sy @ [newline]) (Exited ECSuccess)
          else (case arg_mutate_file a of
                  Some p \<Rightarrow>
                    finish_with sy
                      (rbind (case arg_config a of Some c \<Rightarrow> read_config sy c | None \<Rightarrow> Ok default_config) (\<lambda>config.
                       rbind (new_options sy a config) (\<lambda>o'. Ok (mutate_file sy o' p))))
                | None \<Rightarrow> finish_with sy (with_workspace sy fuel a)))"

subsection \<open>What is selected\<close>

text \<open>A mutant that \<open>--iterate\<close> and \<open>--in-diff\<close> leave in.\<close>

definition wanted :: "'fp system \<Rightarrow> args \<Rightarrow> string list \<Rightarrow> mutant \<Rightarrow> bool" where
  "wanted sy a caught m \<longleftrightarrow>
     (\<forall>n. full_name m = Some n \<longrightarrow> n \<notin> set caught)
     \<and> (\<forall>p. arg_in_diff a = Some p \<longrightarrow>
          (\<exists>t ds. sy_read_diff sy p = Ok t \<and> sy_parse_diff sy t = Ok ds \<and> mutant_matches (lines_changed_by_path ds) m))"

lemma retain_not_caught_Some:
  "retain_not_caught caught ms = Some ms' \<Longrightarrow> ms' = filter (\<lambda>m. \<forall>n. full_name m = Some n \<longrightarrow> n \<notin> set caught) ms"
proof (induction ms arbitrary: ms')
  case (Cons m ms)
  then show ?case by (cases "full_name m") (auto simp: bind_eq_Some_conv split: if_splits)
qed simp

lemma retain_not_caught_total: "list_all mutant_ok ms \<Longrightarrow> \<exists>ms'. retain_not_caught caught ms = Some ms'"
proof (induction ms)
  case (Cons m ms)
  have "\<exists>n. full_name m = Some n" using name_total [of m True] Cons(2) by (auto simp: name_of_def write_name_def)
  with Cons show ?case by auto
qed simp

lemma touched_by_diff_Ok:
  assumes "touched_by_diff sy a ms = Ok ms'"
  shows "ms' = filter (\<lambda>m. \<forall>p. arg_in_diff a = Some p \<longrightarrow>
    (\<exists>t ds. sy_read_diff sy p = Ok t \<and> sy_parse_diff sy t = Ok ds \<and> mutant_matches (lines_changed_by_path ds) m)) ms"
proof (cases "arg_in_diff a")
  case None
  then show ?thesis using assms by (simp add: touched_by_diff_def)
next
  case (Some p)
  then have "diff_filter_file (sy_parse_diff sy) (sy_debug sy) ms (sy_read_diff sy p) = Ok ms'"
    using assms by (simp add: touched_by_diff_def split: sum.splits)
  then show ?thesis using Some
    by (auto simp: diff_filter_file_def diff_filter_def Let_def split: sum.splits if_splits)
qed

lemma leave_out_caught_Ok:
  assumes "leave_out_caught sy a parent d = Ok (d1, caught)"
  shows "di_mutants d1 = filter (\<lambda>m. \<forall>n. full_name m = Some n \<longrightarrow> n \<notin> set (unwrap_or caught [])) (di_mutants d)
    \<and> di_files d1 = di_files d
    \<and> (if arg_iterate a
       then load_previously_caught (read_of (op_current (sy_out sy parent))) = Ok (unwrap_or caught []) \<and> caught \<noteq> None
       else caught = None)"
proof (cases "arg_iterate a")
  case True
  then obtain cs where c: "load_previously_caught (read_of (op_current (sy_out sy parent))) = Ok cs"
      "remove_previously_caught cs d = Some d1" "caught = Some cs"
    using assms by (auto simp: leave_out_caught_def split: sum.splits option.splits)
  then show ?thesis using True retain_not_caught_Some by (auto simp: remove_previously_caught_def unwrap_or_def)
next
  case False
  then show ?thesis using assms by (auto simp: leave_out_caught_def unwrap_or_def)
qed

text \<open>The way to the selection, as one chain of choices.\<close>

definition selects ::
  "'fp system \<Rightarrow> nat \<Rightarrow> args \<Rightarrow> workspace \<Rightarrow> options \<Rightarrow> discovered \<Rightarrow> string list option \<Rightarrow> bool" where
  "selects sy fuel a ws o' d caught \<longleftrightarrow>
     (\<exists>start_dir c. start_dir_of (sy_is_file sy) a = Ok start_dir \<and> open_workspace sy start_dir = Ok ws
        \<and> choose_config sy a (ws_root ws) = Ok c \<and> new_options sy a c = Ok o'
        \<and> discover_mutants sy fuel a start_dir ws o' = Ok d)
     \<and> (if arg_iterate a
        then load_previously_caught (read_of (op_current (sy_out sy (output_parent_dir o' ws)))) = Ok (unwrap_or caught [])
        else caught = None)"

lemma with_workspace_Ok:
  assumes "with_workspace sy fuel a = Ok f" "\<not> arg_list_files a"
  shows "\<exists>ws o' d caught ms. selects sy fuel a ws o' d caught
    \<and> in_the_shard a o' (filter (wanted sy a (unwrap_or caught [])) (di_mutants d)) = Ok ms
    \<and> f = (if arg_list a then list_selected sy o' ms
           else test_selected sy ws o' (output_parent_dir o' ws) caught ms)"
proof -
  obtain start_dir ws c o' d d1 caught ms1 ms where
    r: "start_dir_of (sy_is_file sy) a = Ok start_dir" "open_workspace sy start_dir = Ok ws"
      "choose_config sy a (ws_root ws) = Ok c" "new_options sy a c = Ok o'"
      "discover_mutants sy fuel a start_dir ws o' = Ok d"
      "leave_out_caught sy a (output_parent_dir o' ws) d = Ok (d1, caught)"
      "touched_by_diff sy a (di_mutants d1) = Ok ms1" "in_the_shard a o' ms1 = Ok ms"
      "f = (if arg_list a then list_selected sy o' ms else test_selected sy ws o' (output_parent_dir o' ws) caught ms)"
    using assms by (auto simp: with_workspace_def rbind_Ok_iff)
  note c = leave_out_caught_Ok [OF r(6)]
  have "ms1 = filter (wanted sy a (unwrap_or caught [])) (di_mutants d)"
    unfolding touched_by_diff_Ok [OF r(7)] c [THEN conjunct1] filter_filter
    by (rule filter_cong [OF refl]) (auto simp: wanted_def)
  moreover have "selects sy fuel a ws o' d caught"
    unfolding selects_def using r(1-5) c by (auto split: if_splits)
  ultimately show ?thesis using r(8,9) by blast
qed

lemma ends_fields [simp]:
  "fin_end (ends sy out e) = e" "fin_stdout (ends sy out e) = out" "fin_out (ends sy out e) = sy_out sy"
  "fin_lab (ends sy out e) = None"
  by (simp_all add: ends_def)

lemma keep_out_fields [simp]:
  "fin_end (keep_out q op f) = fin_end f" "fin_lab (keep_out q op f) = fin_lab f"
  by (simp_all add: keep_out_def)

lemma listing_tests_nothing:
  "fin_lab (list_selected sy o' ms) = None \<and> fin_out (list_selected sy o' ms) = sy_out sy
   \<and> fin_end (list_selected sy o' ms) \<in> {Exited ECSuccess, Failed ErrStdout, Crashed}"
  by (auto simp: list_selected_def split: option.splits prod.splits)

lemma mutate_file_tests_nothing:
  "fin_lab (mutate_file sy o' p) = None \<and> fin_out (mutate_file sy o' p) = sy_out sy
   \<and> (fin_end (mutate_file sy o' p) \<in> {Exited ECSuccess, Crashed} \<or> (\<exists>e. fin_end (mutate_file sy o' p) = Failed e))"
  using listing_tests_nothing by (auto simp: mutate_file_def split: option.splits sum.splits prod.splits)

lemma list_selected_lab [simp]:
  "fin_lab (list_selected sy o' ms) = None" "fin_out (list_selected sy o' ms) = sy_out sy"
  using listing_tests_nothing by blast+

lemma mutate_file_lab [simp]: "fin_lab (mutate_file sy o' p) = None"
  using mutate_file_tests_nothing by blast

text \<open>A run of the lab starts in a new directory, with no outcome recorded.\<close>

lemma new_output_dir_empty:
  assumes "output_dir_new ok q op = (op', Ok od)"
  shows "od_lab_outcome od = new_lab_outcome"
  using assms by (auto simp: output_dir_new_def Let_def empty_output_dir_def split: if_splits)

lemma test_selected_lab:
  assumes "fin_lab (test_selected sy ws o' q caught ms) = Some (st, r)"
  shows "fin_end (test_selected sy ws o' q caught ms) = lab_end r
    \<and> (\<exists>st0. test_mutants (run_world_of sy ws o') (sy_libs sy) (lab_of sy ws o') ms st0 = Some (st, r)
        \<and> od_lab_outcome (ls_output st0) = new_lab_outcome)"
proof -
  obtain op od where new: "output_dir_new (sy_out_ok sy) q (sy_out sy q) = (op, Ok od)"
    using assms by (auto simp: test_selected_def split: prod.splits sum.splits)
  let ?w = "case caught of None \<Rightarrow> (od, Ok ()) | Some names \<Rightarrow> write_previously_caught (sy_write_caught_ok sy) names od"
  obtain od1 where w: "?w = (od1, Ok ())" and dbg: "sy_open_debug_log_ok sy"
    using assms new by (auto simp: test_selected_def split: prod.splits sum.splits if_splits)
  have fresh: "od_lab_outcome od1 = new_lab_outcome"
    using w new_output_dir_empty [OF new] by (auto simp: write_previously_caught_def split: option.splits if_splits)
  have f: "test_selected sy ws o' q caught ms = run_the_lab sy ws o' q op od1 ms"
    by (simp add: test_selected_def new w dbg)
  show ?thesis
    using assms fresh unfolding f by (auto simp: run_the_lab_def split: option.splits prod.splits)
qed

lemma main_lab:
  assumes "fin_lab (main sy fuel (Ok cl)) = Some (st, r)"
  shows "\<exists>ws o' d caught ms. selects sy fuel (cli_args cl) ws o' d caught
    \<and> in_the_shard (cli_args cl) o' (filter (wanted sy (cli_args cl) (unwrap_or caught [])) (di_mutants d)) = Ok ms
    \<and> main sy fuel (Ok cl) = test_selected sy ws o' (output_parent_dir o' ws) caught ms
    \<and> \<not> arg_list (cli_args cl) \<and> \<not> arg_list_files (cli_args cl)"
proof -
  let ?a = "cli_args cl"
  have main: "\<not> arg_version ?a" "cli_completions cl = None" "\<not> cli_emit_schema cl" "arg_mutate_file ?a = None"
    "main sy fuel (Ok cl) = finish_with sy (with_workspace sy fuel ?a)"
    using assms
    by (auto simp: main_def Let_def finish_with_def rbind_def split: if_splits option.splits sum.splits)
  then obtain f where f: "with_workspace sy fuel ?a = Ok f" "main sy fuel (Ok cl) = f"
    using assms by (auto simp: finish_with_def split: sum.splits)
  have files: "\<not> arg_list_files ?a"
  proof
    assume "arg_list_files ?a"
    then have "fin_lab f = None" using f(1) by (auto simp: with_workspace_def rbind_Ok_iff)
    then show False using assms f(2) by simp
  qed
  from with_workspace_Ok [OF f(1) files] obtain ws o' d caught ms where
    s: "selects sy fuel ?a ws o' d caught"
      "in_the_shard ?a o' (filter (wanted sy ?a (unwrap_or caught [])) (di_mutants d)) = Ok ms"
      "f = (if arg_list ?a then list_selected sy o' ms
            else test_selected sy ws o' (output_parent_dir o' ws) caught ms)" by blast
  have list: "\<not> arg_list ?a" using assms f(2) s(3) by auto
  then have "main sy fuel (Ok cl) = test_selected sy ws o' (output_parent_dir o' ws) caught ms" using f(2) s(3) by simp
  then show ?thesis using s(1,2) files list by blast
qed

text \<open>C4: The program tests exactly the mutants selected.  When a run has an outcome, the mutants of its outcomes are
  those discovered in the packages chosen, less those that an earlier run caught if asked to iterate, less
  those not touched by the diff if there is one, and of these the share of the shard: each once, up to the
  order if they are shuffled.  Before them comes the baseline unless it is skipped, and if it fails nothing
  follows.  The exit code is that of the outcome.\<close>

theorem program_tests_what_was_selected:
  assumes "fin_lab (main sy fuel (Ok cl)) = Some (st, Ok lo)" "\<forall>xs. mset (rw_shuffle (sy_run sy) xs) = mset xs"
  shows "\<exists>ws o' d caught share. selects sy fuel (cli_args cl) ws o' d caught
    \<and> in_the_shard (cli_args cl) o' (filter (wanted sy (cli_args cl) (unwrap_or caught [])) (di_mutants d)) = Ok share
    \<and> fin_end (main sy fuel (Ok cl)) = Exited (lab_exit_code lo)
    \<and> (if share = [] then lo_outcomes lo = []
       else if opt_baseline o' = BaselineSkip
       then mset (map so_scenario (lo_outcomes lo)) = mset (map MutantScenario share)
       else \<exists>b os. lo_outcomes lo = b # os \<and> so_scenario b = Baseline
         \<and> (if success b then mset (map so_scenario os) = mset (map MutantScenario share) else os = []))"
proof -
  obtain ws o' d caught share where s: "selects sy fuel (cli_args cl) ws o' d caught"
      "in_the_shard (cli_args cl) o' (filter (wanted sy (cli_args cl) (unwrap_or caught [])) (di_mutants d)) = Ok share"
      "main sy fuel (Ok cl) = test_selected sy ws o' (output_parent_dir o' ws) caught share"
    using main_lab [OF assms(1)] by blast
  from test_selected_lab [OF assms(1) [unfolded s(3)]] obtain st0 where
    t: "test_mutants (run_world_of sy ws o') (sy_libs sy) (lab_of sy ws o') share st0 = Some (st, Ok lo)"
      "od_lab_outcome (ls_output st0) = new_lab_outcome"
    and e: "fin_end (main sy fuel (Ok cl)) = Exited (lab_exit_code lo)" by (auto simp: s(3) lab_end_def)
  define ms where "ms = (if opt_shuffle (lb_options (lab_of sy ws o')) then rw_shuffle (run_world_of sy ws o') share else share)"
  have perm: "mset ms = mset share" using assms(2) by (simp add: ms_def run_world_of_def Let_def)
  then have empty: "ms = [] \<longleftrightarrow> share = []" by (metis mset_zero_iff)
  have image: "mset (map so_scenario os) = mset (map MutantScenario share)"
    if "map so_scenario os = map MutantScenario ms" for os :: "scenario_outcome list"
    using that perm by (metis mset_map)
  have none: "lo_outcomes new_lab_outcome = []" by (simp add: new_lab_outcome_def)
  have o': "lb_options (lab_of sy ws o') = o'" by (simp add: lab_of_def)
  note out = test_mutants_outcomes [OF t ms_def, unfolded empty o']
  have "if share = [] then lo_outcomes lo = []
       else if opt_baseline o' = BaselineSkip
       then mset (map so_scenario (lo_outcomes lo)) = mset (map MutantScenario share)
       else \<exists>b os. lo_outcomes lo = b # os \<and> so_scenario b = Baseline
         \<and> (if success b then mset (map so_scenario os) = mset (map MutantScenario share) else os = [])"
  proof (cases "share = [] \<or> opt_baseline o' = BaselineSkip")
    case True
    then show ?thesis using out none image by (auto simp del: mset_map)
  next
    case False
    then obtain b os where "lo_outcomes lo = b # os" "so_scenario b = Baseline"
        "if success b then map so_scenario os = map MutantScenario ms else os = []"
      using out by (auto split: if_splits)
    moreover from this have "if success b then mset (map so_scenario os) = mset (map MutantScenario share) else os = []"
      using image [of os] by (simp split: if_splits del: mset_map)
    ultimately show ?thesis using False by (simp del: mset_map)
  qed
  then show ?thesis using s(1,2) e by blast
qed

subsection \<open>Listing ends\<close>

text \<open>What is relied on: \<open>syn\<close>, the file system, the thread pool, modules that do not lead back, a shard number
  that the parser of shards accepts, and the length of a vector.\<close>

definition system_ok :: "'fp system \<Rightarrow> (path \<Rightarrow> nat) \<Rightarrow> args \<Rightarrow> bool" where
  "system_ok sy rank a \<longleftrightarrow>
     parser_ok (sy_parser sy) \<and> (\<forall>pkg. 0 < mc_parallelism (sy_machine sy pkg))
     \<and> (\<forall>o' dir. reads_ok (walk_env_of sy o' dir) \<and> mods_descend (walk_env_of sy o' dir) rank)
     \<and> (\<forall>s. arg_shard a = Some s \<longrightarrow> shard_ok s
          \<and> (\<forall>fuel start_dir ws o' d. discover_mutants sy fuel a start_dir ws o' = Ok d \<longrightarrow> vec_len_ok (di_mutants d)))"

lemma walk_env_of_fields [simp]:
  "we_parser (walk_env_of sy o' dir) = sy_parser sy"
  "(walk_env_of sy o' dir)\<lparr>we_workspace_dir := dir'\<rparr> = walk_env_of sy o' dir'"
  by (simp_all add: walk_env_of_def)

lemma discover_mutants_ends:
  assumes "system_ok sy rank a"
  shows "\<exists>k. \<forall>fuel\<ge>k. discover_mutants sy fuel a start_dir ws o' \<notin> {Err Endless, Err Crashed}"
proof (cases "filter_packages (locate_project (sy_is_dir sy) (sy_is_file sy) (sy_canonicalize sy)) ws
    (choose_packages a start_dir)")
  case (Inl e)
  then show ?thesis by (simp add: discover_mutants_def discover_def)
next
  case (Inr sel)
  let ?E = "walk_env_of sy o' (ws_root ws)" and ?M = "sy_machine sy" and ?pkgs = "expand_selection ws sel"
  have "\<exists>k. \<forall>fuel\<ge>k. (\<exists>r. walk_tree ?E ?M fuel ?pkgs = Returned r) \<or> walk_tree ?E ?M fuel ?pkgs = run.Interrupted"
    by (rule walk_tree_ends [where rank = rank]) (use assms in \<open>auto simp: system_ok_def\<close>)
  then obtain k where k: "\<And>fuel. k \<le> fuel \<Longrightarrow>
      (\<exists>r. walk_tree ?E ?M fuel ?pkgs = Returned r) \<or> walk_tree ?E ?M fuel ?pkgs = run.Interrupted" by blast
  have "discover_mutants sy fuel a start_dir ws o' \<notin> {Err Endless, Err Crashed}" if "k \<le> fuel" for fuel
  proof -
    from k [OF that] have "walk_tree ?E ?M fuel ?pkgs \<noteq> Panicked" "walk_tree ?E ?M fuel ?pkgs \<noteq> OutOfFuel" by auto
    then show ?thesis by (auto simp: discover_mutants_def discover_def Inr split: run.splits sum.splits)
  qed
  then show ?thesis by blast
qed

lemma discover_mutants_ok:
  assumes "system_ok sy rank a" "discover_mutants sy fuel a start_dir ws o' = Ok d"
  shows "list_all mutant_ok (di_mutants d)"
proof -
  from assms(2) obtain sel where "walk_tree (walk_env_of sy o' (ws_root ws)) (sy_machine sy) fuel (expand_selection ws sel)
      = Returned (Ok d)"
    by (auto simp: discover_mutants_def discover_def rbind_def split: run.splits sum.splits)
  from walk_tree_well_formed [OF _ _ _ this] assms(1) show ?thesis by (auto simp: system_ok_def list_all_iff)
qed

lemma list_selected_no_panic: "list_all mutant_ok ms \<Longrightarrow> fin_end (list_selected sy o' ms) \<noteq> Crashed"
proof -
  assume ok: "list_all mutant_ok ms"
  have "\<exists>r. write_mutants L o' ms out = Some r" for L out
  proof (cases "opt_emit_json o'")
    case True
    have "\<exists>js. mutants_json u ms = Some js" for u using ok
    proof (induction ms)
      case (Cons m ms)
      have "\<exists>n. full_name m = Some n" using name_total [of m True] Cons(2) by (auto simp: name_of_def write_name_def)
      moreover have "\<exists>d. diff_of u m = Some d" using diff_of_total Cons(2) by simp
      ultimately show ?case using Cons by (auto simp: to_json_def serialize_mutant_def)
    qed simp
    then obtain js where "mutants_json (ll_unified L) ms = Some js" by blast
    then show ?thesis using True by (simp add: write_mutants_def)
  next
    case False
    then show ?thesis using write_lines_prefix [OF ok, of L o' "[]" out] by (auto simp: write_mutants_def)
  qed
  then obtain out ok where "write_mutants (list_libs_of sy o') o' ms [] = Some (out, ok)" by fastforce
  then show ?thesis by (simp add: list_selected_def write_mutants_to_stdout_def)
qed

lemma with_workspace_start:
  "with_workspace sy fuel a =
     rbind (start_dir_of (sy_is_file sy) a) (\<lambda>start_dir.
     rbind (open_workspace sy start_dir) (\<lambda>ws.
     rbind (choose_config sy a (ws_root ws)) (\<lambda>c.
     rbind (new_options sy a c) (\<lambda>o'.
     rbind (discover_mutants sy fuel a start_dir ws o') (\<lambda>d.
     rbind (leave_out_caught sy a (output_parent_dir o' ws) d) (\<lambda>(d1, caught).
       if arg_list_files a then Ok (ends sy (list_files (list_libs_of sy o') (di_files d1) o') (Exited ECSuccess))
       else rbind (touched_by_diff sy a (di_mutants d1)) (\<lambda>ms1.
            rbind (in_the_shard a o' ms1) (\<lambda>ms.
              Ok (if arg_list a then list_selected sy o' ms
                  else test_selected sy ws o' (output_parent_dir o' ws) caught ms)))))))))"
  by (simp add: with_workspace_def)

lemma start_dir_of_ends: "start_dir_of f a \<noteq> Err Crashed" "start_dir_of f a \<noteq> Err Endless"
  by (auto simp: start_dir_of_def split: option.splits)

lemma open_workspace_ends: "open_workspace sy d \<noteq> Err Crashed" "open_workspace sy d \<noteq> Err Endless"
  by (auto simp: open_workspace_def split: option.splits)

lemma choose_config_ends: "choose_config sy a r \<noteq> Err Crashed" "choose_config sy a r \<noteq> Err Endless"
  by (auto simp: choose_config_def read_config_def read_tree_config_def Let_def split: option.splits)

lemma new_options_ends:
  "new_options sy a c \<noteq> Err Endless" "new_options sy a c = Err Crashed \<Longrightarrow> options_new (sy_libs sy) (sy_getenv sy) a c = Err OptPanic"
  by (auto simp: new_options_def split: sum.splits opt_error.splits)

lemma leave_out_caught_ends:
  "leave_out_caught sy a q d \<noteq> Err Endless"
  "list_all mutant_ok (di_mutants d) \<Longrightarrow> leave_out_caught sy a q d \<noteq> Err Crashed"
proof -
  show "leave_out_caught sy a q d \<noteq> Err Endless" by (auto simp: leave_out_caught_def split: sum.splits option.splits)
  assume "list_all mutant_ok (di_mutants d)"
  then have some: "(remove_previously_caught cs d = None) = False" for cs
    using retain_not_caught_total [of "di_mutants d" cs] by (auto simp: remove_previously_caught_def)
  show "leave_out_caught sy a q d \<noteq> Err Crashed" by (auto simp: leave_out_caught_def some split: sum.splits option.splits)
qed

lemma touched_by_diff_ends: "touched_by_diff sy a ms \<noteq> Err Crashed" "touched_by_diff sy a ms \<noteq> Err Endless"
  by (auto simp: touched_by_diff_def split: option.splits sum.splits)

lemma in_the_shard_ends:
  "in_the_shard a o' ms \<noteq> Err Endless"
  "(\<And>s. arg_shard a = Some s \<Longrightarrow> shard_ok s \<and> vec_len_ok ms) \<Longrightarrow> in_the_shard a o' ms \<noteq> Err Crashed"
proof -
  show "in_the_shard a o' ms \<noteq> Err Endless" by (auto simp: in_the_shard_def split: option.splits)
  assume s: "\<And>s. arg_shard a = Some s \<Longrightarrow> shard_ok s \<and> vec_len_ok ms"
  have "shard_list (sharding_of o') s ms \<noteq> None" if "arg_shard a = Some s" for s
    using shard_list_total [of ms s "sharding_of o'"] s [OF that] by auto
  then show "in_the_shard a o' ms \<noteq> Err Crashed" by (auto simp: in_the_shard_def split: option.splits)
qed

lemma shard_list_subset:
  assumes "vec_len_ok ms" "shard_ok s" "shard_list how s ms = Some ys"
  shows "set ys \<subseteq> set ms"
proof (cases how)
  case RoundRobin
  then have "ys = round_robin (unat (shard_k s)) (unat (shard_n s)) ms" using assms round_robin_computes [OF assms(1,2)] by simp
  then show ?thesis by (auto simp: round_robin_def in_set_enumerate_eq)
next
  case Slice
  then have "ys = slice_of (unat (shard_k s)) (unat (shard_n s)) ms" using assms slice_computes [OF assms(1,2)] by simp
  then show ?thesis by (auto simp: slice_of_def dest: in_set_takeD in_set_dropD)
qed

lemma with_workspace_ends:
  assumes ok: "system_ok sy rank a" and list: "arg_list a \<or> arg_list_files a"
  shows "\<exists>k. \<forall>fuel\<ge>k. (case with_workspace sy fuel a of
      Err e \<Rightarrow> e \<noteq> Endless \<and> (e = Crashed \<longrightarrow> (\<exists>c. options_new (sy_libs sy) (sy_getenv sy) a c = Err OptPanic))
    | Ok f \<Rightarrow> fin_end f \<notin> {Endless, Crashed} \<and> fin_out f = sy_out sy \<and> fin_lab f = None)"
proof -
  consider (start) e where "start_dir_of (sy_is_file sy) a = Err e"
    | (ws) start_dir e where "start_dir_of (sy_is_file sy) a = Ok start_dir" "open_workspace sy start_dir = Err e"
    | (config) start_dir ws e where "start_dir_of (sy_is_file sy) a = Ok start_dir"
        "open_workspace sy start_dir = Ok ws" "choose_config sy a (ws_root ws) = Err e"
    | (options) start_dir ws c e where "start_dir_of (sy_is_file sy) a = Ok start_dir"
        "open_workspace sy start_dir = Ok ws" "choose_config sy a (ws_root ws) = Ok c" "new_options sy a c = Err e"
    | (go) start_dir ws c o' where "start_dir_of (sy_is_file sy) a = Ok start_dir"
        "open_workspace sy start_dir = Ok ws" "choose_config sy a (ws_root ws) = Ok c" "new_options sy a c = Ok o'"
    by (metis sumE)
  then show ?thesis
  proof cases
    case start
    then show ?thesis using start_dir_of_ends by (auto simp: with_workspace_start)
  next
    case ws
    then show ?thesis using open_workspace_ends [of sy] by (auto simp: with_workspace_start)
  next
    case config
    then show ?thesis using choose_config_ends [of sy] by (auto simp: with_workspace_start)
  next
    case (options start_dir ws c e)
    then have "e = Crashed \<longrightarrow> options_new (sy_libs sy) (sy_getenv sy) a c = Err OptPanic" "e \<noteq> Endless"
      using new_options_ends [of sy a c] by auto
    then show ?thesis using options by (auto simp: with_workspace_start)
  next
    case go
    obtain k where k: "\<And>fuel. k \<le> fuel \<Longrightarrow> discover_mutants sy fuel a start_dir ws o' \<notin> {Err Endless, Err Crashed}"
      using discover_mutants_ends [OF ok] by blast
    have "case with_workspace sy fuel a of Err e \<Rightarrow> e \<noteq> Endless \<and> e \<noteq> Crashed
      | Ok f \<Rightarrow> fin_end f \<notin> {Endless, Crashed} \<and> fin_out f = sy_out sy \<and> fin_lab f = None" if "k \<le> fuel" for fuel
    proof (cases "discover_mutants sy fuel a start_dir ws o'")
      case (Inl e)
      then show ?thesis using k [OF that] go by (auto simp: with_workspace_start)
    next
      case (Inr d)
      have d: "list_all mutant_ok (di_mutants d)" "arg_shard a \<noteq> None \<Longrightarrow> vec_len_ok (di_mutants d)"
        using discover_mutants_ok [OF ok Inr] ok Inr by (auto simp: system_ok_def)
      show ?thesis
      proof (cases "leave_out_caught sy a (output_parent_dir o' ws) d")
        case (Inl e)
        then show ?thesis using Inr go d leave_out_caught_ends(1) [of sy a _ d]
            leave_out_caught_ends(2) [OF d(1), of sy a] by (auto simp: with_workspace_start)
      next
        case caught: (Inr r)
        obtain d1 cs where r: "r = (d1, cs)" by fastforce
        have d1: "list_all mutant_ok (di_mutants d1)" "length (di_mutants d1) \<le> length (di_mutants d)"
          using leave_out_caught_Ok [OF caught [unfolded r]] d(1) by (auto simp: list_all_iff)
        show ?thesis
        proof (cases "arg_list_files a")
          case True
          then show ?thesis using Inr go caught r by (simp add: with_workspace_start)
        next
          case False
          show ?thesis
          proof (cases "touched_by_diff sy a (di_mutants d1)")
            case (Inl e)
            then show ?thesis using Inr go caught r False touched_by_diff_ends [of sy a] by (auto simp: with_workspace_start)
          next
            case ms1: (Inr ms1)
            have m1: "list_all mutant_ok ms1" "arg_shard a \<noteq> None \<Longrightarrow> vec_len_ok ms1"
            proof -
              have f: "length ms1 \<le> length (di_mutants d1)" "set ms1 \<subseteq> set (di_mutants d1)"
                using touched_by_diff_Ok [OF ms1] by auto
              show "list_all mutant_ok ms1" using f(2) d1(1) by (auto simp: list_all_iff)
              show "vec_len_ok ms1" if "arg_shard a \<noteq> None" using f(1) d1(2) d(2) [OF that] by (simp add: vec_len_ok_def)
            qed
            show ?thesis
            proof (cases "in_the_shard a o' ms1")
              case (Inl e)
              then show ?thesis using Inr go caught r False ms1 m1 ok in_the_shard_ends(1) [of a o' ms1]
                    in_the_shard_ends(2) [of a ms1 o']
                by (auto simp: with_workspace_start system_ok_def)
            next
              case ms: (Inr ms)
              have "list_all mutant_ok ms"
                using ms m1 ok shard_list_subset [of ms1 _ "sharding_of o'" ms]
                by (fastforce simp: in_the_shard_def list_all_iff system_ok_def split: option.splits)
              then show ?thesis using Inr go caught r False ms1 ms list list_selected_no_panic [of ms sy o']
                  listing_tests_nothing [of sy o' ms] by (auto simp: with_workspace_start)
            qed
          qed
        qed
      qed
    qed
    then show ?thesis by (metis (no_types, lifting) sum.case_eq_if)
  qed
qed


subsection \<open>Exit codes\<close>

text \<open>The ends that a choice on the way to the mutants can have.\<close>

definition early_end :: "args \<Rightarrow> main_end \<Rightarrow> bool" where
  "early_end a e \<longleftrightarrow>
     (case e of
        Exited c \<Rightarrow> c = ECUsage \<or> (arg_in_diff a \<noteq> None \<and> c \<in> {ECSuccess, ECFilterDiffMismatch, ECFilterDiffInvalid})
      | _ \<Rightarrow> True)"

lemma early_end_simps [simp]:
  "early_end a (Failed e)" "early_end a Crashed" "early_end a Endless" "early_end a (Exited ECUsage)"
  by (simp_all add: early_end_def)

lemma with_workspace_early:
  assumes "with_workspace sy fuel a = Err e"
  shows "early_end a e"
proof -
  have "start_dir_of (sy_is_file sy) a = Err e \<Longrightarrow> early_end a e" for e
    by (auto simp: start_dir_of_def split: option.splits if_splits)
  moreover have "open_workspace sy d = Err e \<Longrightarrow> early_end a e" for d e
    by (auto simp: open_workspace_def split: option.splits if_splits)
  moreover have "choose_config sy a r = Err e \<Longrightarrow> early_end a e" for r e
    by (auto simp: choose_config_def read_config_def read_tree_config_def Let_def split: option.splits if_splits)
  moreover have "new_options sy a c = Err e \<Longrightarrow> early_end a e" for c e
    by (auto simp: new_options_def split: sum.splits opt_error.splits)
  moreover have "discover_mutants sy fuel a s ws o' = Err e \<Longrightarrow> early_end a e" for s ws o' e
    by (auto simp: discover_mutants_def split: sum.splits run.splits)
  moreover have "leave_out_caught sy a q d = Err e \<Longrightarrow> early_end a e" for q d e
    by (auto simp: leave_out_caught_def split: sum.splits option.splits if_splits)
  moreover have "touched_by_diff sy a ms = Err e \<Longrightarrow> early_end a e" for ms e
    by (auto simp: touched_by_diff_def early_end_def error_exit_code_def split: option.splits sum.splits diff_filter_error.splits)
  moreover have "in_the_shard a o' ms = Err e \<Longrightarrow> early_end a e" for o' ms e
    by (auto simp: in_the_shard_def split: option.splits)
  ultimately show ?thesis using assms unfolding with_workspace_start rbind_def
    by (auto split: sum.splits prod.splits if_splits)
qed

lemma test_selected_end:
  "(\<exists>st lo. fin_lab (test_selected sy ws o' q caught ms) = Some (st, Ok lo)
      \<and> fin_end (test_selected sy ws o' q caught ms) = Exited (lab_exit_code lo))
   \<or> fin_end (test_selected sy ws o' q caught ms) = Crashed
   \<or> (\<exists>e. fin_end (test_selected sy ws o' q caught ms) = Failed e)"
  by (auto simp: test_selected_def run_the_lab_def lab_end_def
      split: prod.splits sum.splits option.splits if_splits lab_error.splits out_error.splits)

text \<open>Every way the program can end, with what the lab has to do with it.\<close>

lemma main_end_cases:
  "(\<exists>st lo. fin_lab (main sy fuel parsed) = Some (st, Ok lo) \<and> fin_end (main sy fuel parsed) = Exited (lab_exit_code lo))
   \<or> fin_end (main sy fuel parsed) \<in> {Crashed, Endless, Exited ECUsage}
   \<or> (\<exists>e. fin_end (main sy fuel parsed) = Failed e)
   \<or> (fin_end (main sy fuel parsed) = Exited ECSuccess \<and> fin_lab (main sy fuel parsed) = None)
   \<or> (\<exists>n. parsed = Err n \<and> n \<noteq> 0 \<and> n \<noteq> 2 \<and> fin_end (main sy fuel parsed) = Exited ECSoftware)
   \<or> (\<exists>cl c. parsed = Ok cl \<and> arg_in_diff (cli_args cl) \<noteq> None \<and> c \<in> {ECFilterDiffMismatch, ECFilterDiffInvalid}
        \<and> main sy fuel parsed = ends sy [] (Exited c))"
proof (cases parsed)
  case (Inl n)
  then show ?thesis by (auto simp: main_def clap_exit_code_def)
next
  case (Inr cl)
  let ?a = "cli_args cl"
  let ?short = "arg_version ?a \<or> cli_completions cl \<noteq> None \<or> cli_emit_schema cl"
  show ?thesis
  proof (cases "?short \<or> arg_mutate_file ?a \<noteq> None")
    case True
    then consider "?short" | p where "\<not> ?short" "arg_mutate_file ?a = Some p" by blast
    then show ?thesis
    proof cases
      case 1
      then show ?thesis using Inr by (auto simp: main_def Let_def)
    next
      case 2
      define c where "c = (case arg_config ?a of Some c \<Rightarrow> read_config sy c | None \<Rightarrow> Ok default_config)"
      have main: "main sy fuel parsed = finish_with sy (rbind c (\<lambda>config. rbind (new_options sy ?a config) (\<lambda>o'. Ok (mutate_file sy o' p))))"
        using 2 Inr by (simp add: main_def Let_def c_def)
      have "c = Err e \<Longrightarrow> \<exists>x. e = Failed x" for e by (auto simp: c_def read_config_def split: option.splits)
      moreover have "new_options sy ?a x = Err e \<Longrightarrow> e = Crashed \<or> (\<exists>x. e = Failed x)" for x e
        by (auto simp: new_options_def split: sum.splits opt_error.splits)
      ultimately have "(\<exists>e. main sy fuel parsed = ends sy [] (Failed e)) \<or> main sy fuel parsed = ends sy [] Crashed
          \<or> (\<exists>o'. main sy fuel parsed = mutate_file sy o' p)"
      proof (cases c)
        case (Inr x)
        assume "\<And>x e. new_options sy ?a x = Err e \<Longrightarrow> e = Crashed \<or> (\<exists>x. e = Failed x)"
        then show ?thesis using Inr unfolding main by (cases "new_options sy ?a x") (auto simp: finish_with_def)
      qed (auto simp: main finish_with_def)
      then consider e where "main sy fuel parsed = ends sy [] (Failed e)" | "main sy fuel parsed = ends sy [] Crashed"
        | o' where "main sy fuel parsed = mutate_file sy o' p" by blast
      then show ?thesis using mutate_file_tests_nothing [of sy _ p] by cases auto
    qed
  next
    case False
    then have m: "main sy fuel parsed = finish_with sy (with_workspace sy fuel ?a)" using Inr by (auto simp: main_def Let_def)
    show ?thesis
    proof (cases "with_workspace sy fuel ?a")
      case (Inl e)
      then have f: "main sy fuel parsed = ends sy [] e" by (simp add: m finish_with_def)
      from with_workspace_early [OF Inl] consider "e \<in> {Crashed, Endless, Exited ECUsage, Exited ECSuccess}" | x where "e = Failed x"
        | c where "e = Exited c" "arg_in_diff ?a \<noteq> None" "c \<in> {ECFilterDiffMismatch, ECFilterDiffInvalid}"
        by (cases e) (auto simp: early_end_def)
      then show ?thesis
      proof cases
        case 1
        then show ?thesis unfolding f by auto
      next
        case 2
        then show ?thesis unfolding f by simp
      next
        case 3
        then show ?thesis unfolding f using Inr \<open>parsed = Inr cl\<close> by blast
      qed
    next
      case r: (Inr f)
      then have f: "main sy fuel parsed = f" by (simp add: m finish_with_def)
      show ?thesis
      proof (cases "arg_list_files ?a")
        case True
        then have "fin_end f = Exited ECSuccess \<and> fin_lab f = None" using r by (auto simp: with_workspace_def rbind_Ok_iff)
        then show ?thesis unfolding f by blast
      next
        case False
        from with_workspace_Ok [OF r False] obtain ws o' d caught ms where
          "f = (if arg_list ?a then list_selected sy o' ms else test_selected sy ws o' (output_parent_dir o' ws) caught ms)"
          by blast
        then show ?thesis unfolding f using listing_tests_nothing [of sy o' ms]
            test_selected_end [of sy ws o' "output_parent_dir o' ws" caught ms]
          by (cases "arg_list ?a") (simp, blast)+
      qed
    qed
  qed
qed


subsection \<open>An example\<close>

text \<open>A workspace of one package with one file, which has one mutant, and a baseline that does not build.\<close>

definition example_metadata :: metadata where
  "example_metadata =
     \<lparr>md_workspace_root = ''/w'',
      md_workspace_packages = [\<lparr>mp_name = ''p'', mp_version = ''0.1.0'', mp_manifest_path = ''/w/Cargo.toml'',
        mp_targets = [\<lparr>mt_name = ''p'', mt_kind = [TLib], mt_src_path = ''/w/src/lib.rs''\<rparr>]\<rparr>],
      md_default_packages = None\<rparr>"

definition failing_run :: run_world where
  "failing_run =
     \<lparr>rw_tools_found = False, rw_debug_log_ok = True, rw_shuffle = id, rw_mutants_list_ok = True, rw_build_dir = None,
      rw_jobserver_ok = True, rw_profraw_dir_ok = True, rw_baseline = example_world (\<lambda>_. ExitFailure 101), rw_coverage = Ok [],
      rw_mutants = (\<lambda>_. example_world (\<lambda>_. ExitSuccess)), rw_finish = JsonOk, rw_end = 0\<rparr>"

definition example_tree :: files where
  "example_tree = [[''/''] \<mapsto> Directory, [''/'', ''w''] \<mapsto> Directory]"

definition example_copy_world :: copy_world where
  "example_copy_world =
     \<lparr>cw_temp = (\<lambda>_. None), cw_walk = (\<lambda>_ _. []), cw_interrupted = (\<lambda>_. False), cw_reflink = (\<lambda>_. False),
      cw_mtime_ok = (\<lambda>_. True), cw_metadata_ok = (\<lambda>_. True), cw_copy_ok = (\<lambda>_. True), cw_create_dir_ok = (\<lambda>_. True),
      cw_read_link_ok = (\<lambda>_. True), cw_symlink_ok = (\<lambda>_. True), cw_manifest_write_ok = True, cw_config_write_ok = True\<rparr>"

definition example_system :: "parser \<Rightarrow> string system" where
  "example_system P =
     \<lparr>sy_libs = example_libs, sy_getenv = (\<lambda>_. None), sy_colors_enabled = False, sy_list = plain_list,
      sy_version = ''1'', sy_schema = [], sy_completions = (\<lambda>_. []),
      sy_read = (\<lambda>p. if p = ''/w/src/lib.rs'' then Some const_code else None),
      sy_is_file = (\<lambda>p. p = ''/w/src/lib.rs''), sy_exists = (\<lambda>_. False), sy_is_dir = (\<lambda>_. True),
      sy_canonicalize = Some, sy_interrupted = False, sy_metadata = (\<lambda>_. Some example_metadata),
      sy_config = (\<lambda>_. None), sy_parser = P, sy_machine = (\<lambda>_. one_thread), sy_parse_diff = (\<lambda>_. Ok []),
      sy_debug = (\<lambda>s. s), sy_read_diff = (\<lambda>_. Ok []),
      sy_out = (\<lambda>_. \<lparr>op_exists = True, op_current = None, op_rotated = None\<rparr>), sy_out_ok = (\<lambda>_. True),
      sy_write_caught_ok = True, sy_open_debug_log_ok = True, sy_files = example_tree, sy_copy = example_copy_world,
      sy_parse_toml = (\<lambda>_. None), sy_pretty_toml = (\<lambda>_. None), sy_env = (\<lambda>_. None), sy_digest = concat \<circ> map snd,
      sy_cov = example_cov, sy_run = failing_run\<rparr>"

definition example_cli :: cli where
  "example_cli =
     \<lparr>cli_args = default_args\<lparr>arg_no_config := True, arg_workspace := True, arg_in_place := True\<rparr>,
      cli_completions = None, cli_emit_schema = False\<rparr>"

definition empty_parser :: parser where
  "empty_parser = const_parser\<lparr>ps_source := \<lambda>_. Some (Node 1 KFile [] (quad 1 1 1 1) [] [])\<rparr>"

lemma empty_walk: "walk_file L o' empty_parser sf = Some (Ok (ms, mods)) \<Longrightarrow> mods = []"
  by (auto simp: walk_file_def parse_file_def empty_parser_def visit_node_def visit_file_def
      attrs_excluded_def in_exclude_re_scope_def push_exclude_re_def attrs_exclude_re_patterns_def
      new_visitor_def visitor_result_def split: option.splits sum.splits if_splits)

lemma example_system_ok: "system_ok (example_system empty_parser) (\<lambda>_. 0) (cli_args example_cli)"
proof -
  have "parser_ok empty_parser"
    by (auto simp: parser_ok_def empty_parser_def const_parser_def shaped_def shaped_here_def unique_ids_def)
  moreover have "path_parent rel \<noteq> None" if "join_path dir rel = ''/w/src/lib.rs''" for dir rel
  proof -
    have "suffix rel ''/w/src/lib.rs''" using that [symmetric] unfolding join_path_def
      by (auto intro: suffixI split: if_splits)
    then have "rel \<in> set (suffixes ''/w/src/lib.rs'')" by (simp only: in_set_suffixes)
    moreover have "rel \<noteq> []" using that by (auto simp: join_path_def is_absolute_def starts_with_def split: if_splits)
    ultimately show ?thesis
      by (auto simp: path_parent_def components_def is_absolute_def starts_with_def)
  qed
  moreover have "utf8 const_code" by (simp add: const_code_def utf8_def lead_len_def)
  moreover have "mods = []" if "load_and_walk_file (walk_env_of (example_system empty_parser) o' dir) pkg p
      = Some (Ok (Some (sf, ms, mods)))" for o' dir pkg p sf ms mods
    using that empty_walk
    by (cases p) (auto simp: load_and_walk_file_def walk_env_of_def example_system_def rbind_Ok_iff split: sum.splits option.splits)
  then have "mods_descend (walk_env_of (example_system empty_parser) o' dir) (\<lambda>_. 0)" for o' dir
    unfolding mods_descend_def mod_of_def by fastforce
  ultimately show ?thesis
    by (auto simp: system_ok_def example_system_def walk_env_of_def reads_ok_def one_thread_def example_cli_def default_args_def)
qed



lemma const_walk_plain:
  assumes "opt_error_values o' = []" "opt_examine_name_re o' = []" "opt_exclude_name_re o' = []"
  shows "walk_file example_libs o' const_parser const_source = Some (Ok ([const_mutant], []))"
  using assms const_parsed(2)
  by (simp add: walk_file_def parse_file_def const_file_def const_item_def visit_node_def visit_file_def
      attrs_excluded_def in_exclude_re_scope_def push_exclude_re_def attrs_exclude_re_patterns_def visit_const_def
      in_const_eval_scope_def visit_expr_lit_def new_visitor_def collect_mutant_def excluded_by_attr_re_def
      allows_mutant_def walk_ctx_def push_mutant_def visitor_result_def new_mutant_def const_mutant_def)

lemma example_packages: "expand_selection (workspace_open example_metadata) SelAll = [example_package]"
  by (simp add: workspace_open_def packages_from_metadata_def example_metadata_def
      from_cargo_metadata_def package_top_sources_def path_strip_prefix_def path_parent_def components_def
      is_absolute_def starts_with_def should_mutate_target_def path_of_def expand_selection_def example_package_def
      List.map_filter_def strip_prefix_def)

lemma example_discover:
  assumes "opt_error_values o' = []" "opt_examine_name_re o' = []" "opt_exclude_name_re o' = []"
    "opt_examine_globset o' = None" "opt_exclude_globset o' = None"
  shows "discover_mutants (example_system const_parser) 2 (cli_args example_cli) ''.'' (workspace_open example_metadata) o'
    = Ok \<lparr>di_mutants = [const_mutant], di_files = [const_source]\<rparr>"
proof -
  let ?E = "walk_env_of (example_system const_parser) o' ''/w''"
  have "load (read_source ?E) ''/w'' ''src/lib.rs'' example_package True = Ok (Some const_source)"
    by (simp add: load_def read_source_def walk_env_of_def example_system_def const_source_def example_source_def const_code_def
        join_path_def is_absolute_def starts_with_def ascent_def components_def to_slash_path_def Let_def)
  then have load: "load_and_walk_file ?E example_package (''src/lib.rs'', True) = Some (Ok (Some (const_source, [const_mutant], [])))"
    using const_walk_plain [OF assms(1-3)]
    by (simp add: load_and_walk_file_def walk_env_of_def example_system_def)
  have "allows_source_file_path (we_libs ?E) o' p" for p using assms(4,5) by (simp add: allows_source_file_path_def)
  moreover have "pkg_top_sources example_package = [''src/lib.rs'']" by (simp add: example_package_def)
  moreover have "mc_parallelism one_thread = 1" "\<And>l. \<not> mc_interrupted one_thread l" by (simp_all add: one_thread_def)
  moreover have "we_options ?E = o'" by (simp add: walk_env_of_def)
  ultimately have "walk_tree ?E (\<lambda>_. one_thread) 2 [example_package]
      = Returned (Ok \<lparr>di_mutants = [const_mutant], di_files = [const_source]\<rparr>)"
    using load by (simp add: walk_tree_def walk_package_def start_package_def new_walk_def numeral_2_eq_2
        walk_files_ordered del: One_nat_def)
  moreover have "ws_root (workspace_open example_metadata) = ''/w''" by (simp add: workspace_open_def example_metadata_def)
  moreover have "sy_machine (example_system const_parser) = (\<lambda>_. one_thread)" by (simp add: example_system_def)
  moreover have "choose_packages (cli_args example_cli) ''.'' = FilterAll"
    by (simp add: choose_packages_def example_cli_def default_args_def)
  ultimately show ?thesis
    by (simp add: discover_mutants_def discover_def filter_packages_def example_packages)
qed

lemma failing_baseline:
  assumes "phases (lb_options lb) = [Build, Test]" "ample ts" "od_logs (ls_output st) = (\<lambda>_. None)"
    "od_used_log_names (ls_output st) = (\<lambda>_. None)"
  shows "\<exists>st' b. run_one_scenario lb (example_world (\<lambda>_. ExitFailure 101)) Baseline pk ts [] st = Some (st', Ok b)
    \<and> \<not> success b"
proof -
  let ?w = "example_world (\<lambda>_. ExitFailure 101)"
  obtain nm where nm: "show_scenario Baseline = Some nm" by (simp add: show_scenario_def)
  obtain od sc where s: "start_scenario True Baseline nm (ls_output st) = (od, Ok sc)"
    using assms(3,4) by (auto simp: start_scenario_def allocate_name_def scenario_output_new_def Let_def)
  let ?o = "new_outcome (sc_output_dir sc) (sc_log_path sc) (sc_diff_path sc) Baseline"
  obtain od1 pr where 1: "run_cargo (lb_env lb) (example_cargo (ExitFailure 101)) pk Build
      (timeout_of_phase ts Build) (lb_options lb) [] sc od = Some (od1, Ok pr)" "pr_status pr = ExitFailure 101"
    using example_run_cargo [OF assms(2)] by metis
  let ?st = "(set_output od st)\<lparr>ls_output := od1, ls_files := ls_files st\<rparr>" and ?b = "add_phase_result pr ?o"
  have run: "run_phases lb ?w Baseline pk ts [] sc (phases (lb_options lb)) ?o (set_output od st) = Some (?st, PhasesDone ?b)"
    using 1 assms(1) by (simp add: Let_def pr_is_success_def is_success_def)
  have "so_scenario ?b = Baseline" by (simp add: new_outcome_def add_phase_result_def)
  then obtain st4 where fin: "finish_scenario ?w ?b ?st = (st4, Ok ?b)"
    using add_scenario_outcome_ok [of ?b "sw_now ?w" "ls_output ?st"] by (auto simp: finish_scenario_def outcome_ok_def)
  have "run_one_scenario lb ?w Baseline pk ts [] st = Some (st4, Ok ?b)"
    by (simp add: run_one_scenario_def nm s Let_def test_and_finish_def run revert_scenario_def fin)
  moreover have "\<not> success ?b"
    using 1(2) by (simp add: success_def last_phase_result_def new_outcome_def add_phase_result_def is_some_and_def is_success_def last_opt_def)
  ultimately show ?thesis by blast
qed

theorem program_tests_what_was_selected_witness:
  "\<exists>st lo. fin_lab (main (example_system const_parser) 2 (Ok example_cli)) = Some (st, Ok lo)
    \<and> (\<exists>b os. lo_outcomes lo = b # os \<and> so_scenario b = Baseline
         \<and> (if success b then mset (map so_scenario os) = mset (map MutantScenario [const_mutant]) else os = []))"
proof -
  let ?sy = "example_system const_parser" and ?a = "cli_args example_cli" and ?ws = "workspace_open example_metadata"
  obtain o' where o': "new_options ?sy ?a default_config = Ok o'" "opt_error_values o' = []" "opt_examine_name_re o' = []"
    "opt_exclude_name_re o' = []" "opt_examine_globset o' = None" "opt_exclude_globset o' = None"
    "opt_in_place o'" "opt_baseline o' = BaselineRun" "phases o' = [Build, Test]" "\<not> opt_skip_uncovered o'"
    "\<not> opt_shuffle o'" "opt_build_timeout o' = None" "opt_test_timeout o' = None" "opt_output_in_dir o' = None"
    by (simp add: new_options_def options_eval example_cli_def example_system_def f64_20_def unwrap_or_def phases_def)
  have d: "discover_mutants ?sy 2 ?a ''.'' ?ws o' = Ok \<lparr>di_mutants = [const_mutant], di_files = [const_source]\<rparr>"
    by (rule example_discover) (use o' in simp_all)
  have q: "output_parent_dir o' ?ws = ''/w''"
    using o' by (simp add: output_parent_dir_def unwrap_or_def workspace_open_def example_metadata_def)
  have dir: "for_baseline example_copy_world (\<lambda>_. None) (\<lambda>_. None) ?ws o' example_tree
      = (example_tree, Ok \<lparr>bd_path = ''/w'', bd_temp = False\<rparr>)"
    using o'(7) by (simp add: for_baseline_def in_place_def workspace_open_def example_metadata_def canonicalize_def real_path_def
        components_def is_absolute_def starts_with_def MAX_LINKS_def example_tree_def path_of_def)
  let ?f = "test_selected ?sy ?ws o' ''/w'' None [const_mutant]"
  have main: "main ?sy 2 (Ok example_cli) = ?f"
    using o'(1) d q
    by (simp add: main_def finish_with_def with_workspace_def example_cli_def default_args_def start_dir_of_def
        open_workspace_def example_system_def choose_config_def leave_out_caught_def touched_by_diff_def in_the_shard_def)
  let ?od = "empty_output_dir (join_path ''/w'' OUTDIR_NAME)" and ?w = "run_world_of ?sy ?ws o'" and ?lb = "lab_of ?sy ?ws o'"
  let ?st0 = "\<lparr>ls_dir = [], ls_files = example_tree, ls_output = ?od, ls_fingerprints = (\<lambda>_. None)\<rparr> :: string lab_state"
  have new: "\<exists>op. output_dir_new (\<lambda>_. True) ''/w'' \<lparr>op_exists = True, op_current = None, op_rotated = None\<rparr> = (op, Ok ?od)"
    by (simp add: output_dir_new_def Let_def)
  obtain found cov where w: "?w = failing_run\<lparr>rw_build_dir := Some (''/w'', example_tree), rw_tools_found := found, rw_coverage := cov\<rparr>"
    using dir by (simp add: run_world_of_def example_system_def Let_def)
  have lb: "lb_options ?lb = o'" by (simp add: lab_of_def)
  define st1 where "st1 = (set_output (?od\<lparr>od_mutants_json := Some [const_mutant]\<rparr>) ?st0)\<lparr>ls_dir := ''/w'', ls_files := example_tree\<rparr>"
  have ample: "ample (timeouts_for_baseline o')"
    using o' by (simp add: ample_def timeouts_for_baseline_def timeout_of_phase_def split: phase.splits)
  obtain st2 b where b: "run_one_scenario ?lb (example_world (\<lambda>_. ExitFailure 101)) Baseline
      (SelExplicit (all_mutated_packages [const_mutant])) (timeouts_for_baseline o') [] st1 = Some (st2, Ok b)" "\<not> success b"
    using failing_baseline [of ?lb "timeouts_for_baseline o'" st1 "SelExplicit (all_mutated_packages [const_mutant])"] o' lb ample
    by (auto simp: st1_def empty_output_dir_def set_output_def)
  have rb: "run_baseline ?lb (rw_baseline ?w) False (rw_profraw_dir_ok ?w) (rw_coverage ?w) [const_mutant] st1
      = Some (?lb, st2, Ok b)"
    using b by (simp add: run_baseline_def w failing_run_def lb)
  obtain st lo where fin: "finish_lab ?w st2 = (st, Ok lo)"
    by (simp add: finish_lab_def finish_def write_lab_outcome_def Let_def w failing_run_def)
  have "test_mutants ?w example_libs ?lb [const_mutant] ?st0 = Some (st, Ok lo)"
    using o' rb fin b(2)
    by (simp add: test_mutants_def coverage_tools_def lb write_mutants_list_def test_in_build_dir_def w failing_run_def st1_def)
  then have lab: "fin_lab ?f = Some (st, Ok lo)" using new
    by (auto simp: test_selected_def example_system_def run_the_lab_def)
  have "\<forall>xs. mset (rw_shuffle (sy_run ?sy) xs) = mset xs" by (simp add: example_system_def failing_run_def)
  from program_tests_what_was_selected [OF lab [folded main] this] obtain ws2 o2 d2 caught share where
    s: "selects ?sy 2 ?a ws2 o2 d2 caught"
      "in_the_shard ?a o2 (filter (wanted ?sy ?a (unwrap_or caught [])) (di_mutants d2)) = Ok share"
    and out: "if share = [] then lo_outcomes lo = []
       else if opt_baseline o2 = BaselineSkip
       then mset (map so_scenario (lo_outcomes lo)) = mset (map MutantScenario share)
       else \<exists>b os. lo_outcomes lo = b # os \<and> so_scenario b = Baseline
         \<and> (if success b then mset (map so_scenario os) = mset (map MutantScenario share) else os = [])" by blast
  have early: "start_dir_of (sy_is_file ?sy) ?a = Ok ''.''" "open_workspace ?sy ''.'' = Ok ?ws"
    "choose_config ?sy ?a r = Ok default_config" "\<not> arg_iterate ?a" "arg_in_diff ?a = None" "arg_shard ?a = None" for r
    by (simp_all add: start_dir_of_def open_workspace_def choose_config_def example_cli_def default_args_def example_system_def)
  then have "ws2 = ?ws" "o2 = o'" "d2 = \<lparr>di_mutants = [const_mutant], di_files = [const_source]\<rparr>" "caught = None"
    using s(1) o'(1) d by (auto simp: selects_def)
  then have "o2 = o'" "share = [const_mutant]" using s(2) early by (auto simp: in_the_shard_def wanted_def unwrap_or_def)
  with out o'(8) obtain b os where "lo_outcomes lo = b # os" "so_scenario b = Baseline"
      "if success b then mset (map so_scenario os) = mset (map MutantScenario [const_mutant]) else os = []" by auto
  moreover have "fin_lab (main ?sy 2 (Ok example_cli)) = Some (st, Ok lo)" using main lab by simp
  ultimately show ?thesis by blast
qed

end
