(* ===== verification/Locking.thy ===== *)
theory Locking
  imports Outputs
begin

text \<open>
  Several runs of the program at once (\<open>LockFile::acquire_lock\<close> and \<open>OutputDir::new\<close> in \<open>src/src/output.rs\<close>).
  Each process goes through the calls of \<open>OutputDir::new\<close> one at a time, and those of other processes may
  come between any two.  Directories and lock files have identities of their own, so that a lock can be held
  on the file of a directory that has been renamed since.  The names and the order of the calls are those of
  Unix.
\<close>

subsection \<open>Processes and directories\<close>

record out_dir_entry =
  de_lock :: "nat option"  \<comment> \<open>the file \<open>lock.json\<close>\<close>
  de_log :: bool
  de_diff :: bool
  de_lists :: nat

definition no_entries :: out_dir_entry where
  "no_entries = \<lparr>de_lock = None, de_log = False, de_diff = False, de_lists = 0\<rparr>"

text \<open>The next call of a process; the argument is the lock file that it has open.\<close>

datatype stage =
    Idle | OpeningOld | WaitingOld nat | WritingOld nat | RemovingRotated | Renaming | Creating
  | OpeningNew | WaitingNew nat | WritingNew nat | MakingLogDir nat | MakingDiffDir nat | OpeningLists nat nat
  | Running nat | Ended

record lock_state =
  lk_current :: "nat option"  \<comment> \<open>the directory called \<open>mutants.out\<close>\<close>
  lk_rotated :: "nat option"  \<comment> \<open>the directory called \<open>mutants.out.old\<close>\<close>
  lk_dirs :: "nat \<Rightarrow> out_dir_entry"
  lk_holder :: "nat \<Rightarrow> nat option"  \<comment> \<open>the process that holds the lock of a file\<close>
  lk_next :: nat
  lk_stage :: "nat \<Rightarrow> stage"

datatype choice = Proceed | IoError | Interrupt

definition to_stage :: "nat \<Rightarrow> stage \<Rightarrow> lock_state \<Rightarrow> lock_state" where
  "to_stage p st s = s\<lparr>lk_stage := (lk_stage s)(p := st)\<rparr>"

text \<open>Dropping the file releases the lock.\<close>

definition drop_locks :: "nat \<Rightarrow> (nat \<Rightarrow> nat option) \<Rightarrow> nat \<Rightarrow> nat option" where
  "drop_locks p holder l = (if holder l = Some p then None else holder l)"

definition release :: "nat \<Rightarrow> lock_state \<Rightarrow> lock_state" where
  "release p s = s\<lparr>lk_holder := drop_locks p (lk_holder s)\<rparr>"

definition leave :: "nat \<Rightarrow> lock_state \<Rightarrow> lock_state" where
  "leave p s = to_stage p Ended (release p s)"

definition in_current :: "(out_dir_entry \<Rightarrow> out_dir_entry) \<Rightarrow> nat \<Rightarrow> lock_state \<Rightarrow> lock_state" where
  "in_current f d s = s\<lparr>lk_dirs := (lk_dirs s)(d := f (lk_dirs s d))\<rparr>"

subsection \<open>The calls\<close>

text \<open>Opening the lock file by its path, which creates it when there is none.\<close>

definition open_lock :: "lock_state \<Rightarrow> (nat \<times> lock_state) option" where
  "open_lock s =
     (case lk_current s of
        None \<Rightarrow> None
      | Some d \<Rightarrow>
          (case de_lock (lk_dirs s d) of
             Some l \<Rightarrow> Some (l, s)
           | None \<Rightarrow>
               Some (lk_next s, (in_current (\<lambda>e. e\<lparr>de_lock := Some (lk_next s)\<rparr>) d s)\<lparr>lk_next := lk_next s + 1\<rparr>)))"

definition try_lock :: "nat \<Rightarrow> nat \<Rightarrow> lock_state \<Rightarrow> lock_state option" where
  "try_lock p l s = (if lk_holder s l = None then Some (s\<lparr>lk_holder := (lk_holder s)(l \<mapsto> p)\<rparr>) else None)"

text \<open>One turn of the loop that waits: an interrupt counts only when the lock is not free.\<close>

definition wait_for_lock :: "nat \<Rightarrow> nat \<Rightarrow> bool \<Rightarrow> stage \<Rightarrow> lock_state \<Rightarrow> lock_state" where
  "wait_for_lock p l interrupted st s =
     (case try_lock p l s of
        Some s1 \<Rightarrow> to_stage p st s1
      | None \<Rightarrow> if interrupted then leave p s else s)"

definition open_and_wait :: "nat \<Rightarrow> (nat \<Rightarrow> stage) \<Rightarrow> lock_state \<Rightarrow> lock_state" where
  "open_and_wait p st s = (case open_lock s of None \<Rightarrow> leave p s | Some (l, s1) \<Rightarrow> to_stage p (st l) s1)"

text \<open>The directory \<open>mutants.out\<close> is moved; a directory of that name that is not empty is in the way.\<close>

definition rename_current :: "nat \<Rightarrow> lock_state \<Rightarrow> lock_state" where
  "rename_current p s =
     (case lk_current s of
        None \<Rightarrow> leave p s
      | Some d \<Rightarrow>
          if (case lk_rotated s of None \<Rightarrow> False | Some e \<Rightarrow> lk_dirs s e \<noteq> no_entries) then leave p s
          else to_stage p Creating (s\<lparr>lk_rotated := Some d, lk_current := None\<rparr>))"

definition create_current :: "nat \<Rightarrow> lock_state \<Rightarrow> lock_state" where
  "create_current p s =
     (if lk_current s \<noteq> None then leave p s
      else to_stage p OpeningNew
        (s\<lparr>lk_current := Some (lk_next s), lk_dirs := (lk_dirs s)(lk_next s := no_entries), lk_next := lk_next s + 1\<rparr>))"

text \<open>Making something in whatever directory is called \<open>mutants.out\<close> by then.\<close>

definition make_in_current ::
  "nat \<Rightarrow> (out_dir_entry \<Rightarrow> bool) \<Rightarrow> (out_dir_entry \<Rightarrow> out_dir_entry) \<Rightarrow> stage \<Rightarrow> lock_state \<Rightarrow> lock_state" where
  "make_in_current p there f st s =
     (case lk_current s of
        None \<Rightarrow> leave p s
      | Some d \<Rightarrow> if there (lk_dirs s d) then leave p s else to_stage p st (in_current f d s))"

text \<open>\<open>OutputDir::new\<close>, with the run that follows and the drop of the \<open>OutputDir\<close> at its end.  Every error leaves.\<close>

definition lock_step :: "nat \<Rightarrow> choice \<Rightarrow> lock_state \<Rightarrow> lock_state" where
  "lock_step p c s =
     (if c = IoError \<and> lk_stage s p \<noteq> Ended then leave p s
      else
        (case lk_stage s p of
           Idle \<Rightarrow> to_stage p (if lk_current s = None then Creating else OpeningOld) s
         | OpeningOld \<Rightarrow> open_and_wait p WaitingOld s
         | WaitingOld l \<Rightarrow> wait_for_lock p l (c = Interrupt) (WritingOld l) s
         | WritingOld l \<Rightarrow> to_stage p RemovingRotated (release p s)
         | RemovingRotated \<Rightarrow> to_stage p Renaming (s\<lparr>lk_rotated := None\<rparr>)
         | Renaming \<Rightarrow> rename_current p s
         | Creating \<Rightarrow> create_current p s
         | OpeningNew \<Rightarrow> open_and_wait p WaitingNew s
         | WaitingNew l \<Rightarrow> wait_for_lock p l (c = Interrupt) (WritingNew l) s
         | WritingNew l \<Rightarrow> to_stage p (MakingLogDir l) s
         | MakingLogDir l \<Rightarrow> make_in_current p de_log (\<lambda>e. e\<lparr>de_log := True\<rparr>) (MakingDiffDir l) s
         | MakingDiffDir l \<Rightarrow> make_in_current p de_diff (\<lambda>e. e\<lparr>de_diff := True\<rparr>) (OpeningLists l 0) s
         | OpeningLists l k \<Rightarrow>
             make_in_current p (\<lambda>_. False) (\<lambda>e. e\<lparr>de_lists := max (de_lists e) (k + 1)\<rparr>)
               (if k + 1 < 6 then OpeningLists l (k + 1) else Running l) s
         | Running l \<Rightarrow> leave p s
         | Ended \<Rightarrow> s))"

definition lock_run :: "(nat \<times> choice) list \<Rightarrow> lock_state \<Rightarrow> lock_state" where
  "lock_run ps s = fold (\<lambda>(p, c). lock_step p c) ps s"

subsection \<open>Runs that start one after the other\<close>

definition setting_up :: "stage \<Rightarrow> bool" where
  "setting_up st \<longleftrightarrow> (case st of Idle \<Rightarrow> False | Running _ \<Rightarrow> False | Ended \<Rightarrow> False | _ \<Rightarrow> True)"

text \<open>At first no process has started, and there may be the directories of earlier runs.\<close>

definition nobody_yet :: "lock_state \<Rightarrow> bool" where
  "nobody_yet s \<longleftrightarrow> (\<forall>p. lk_stage s p = Idle) \<and> (\<forall>l. lk_holder s l = None)"

text \<open>No process starts while another is still on its way through \<open>OutputDir::new\<close>, which may be waiting for
  the end of a third.\<close>

inductive orderly :: "lock_state \<Rightarrow> bool" where
  orderly_start: "nobody_yet s \<Longrightarrow> orderly s"
| orderly_step: "orderly s \<Longrightarrow> (lk_stage s p = Idle \<Longrightarrow> \<forall>q. \<not> setting_up (lk_stage s q)) \<Longrightarrow> orderly (lock_step p c s)"

subsection \<open>What holds at each stage\<close>

definition opened :: "nat \<Rightarrow> lock_state \<Rightarrow> bool" where
  "opened l s \<longleftrightarrow> (\<exists>d. lk_current s = Some d \<and> de_lock (lk_dirs s d) = Some l)"

definition locked :: "nat \<Rightarrow> nat \<Rightarrow> lock_state \<Rightarrow> bool" where
  "locked p l s \<longleftrightarrow> opened l s \<and> lk_holder s l = Some p"

definition nobody_runs :: "lock_state \<Rightarrow> bool" where
  "nobody_runs s \<longleftrightarrow> (\<forall>q l. lk_stage s q \<noteq> Running l)"

fun stage_kept :: "nat \<Rightarrow> stage \<Rightarrow> lock_state \<Rightarrow> bool" where
  "stage_kept p Idle s = True"
| "stage_kept p OpeningOld s = True"
| "stage_kept p (WaitingOld l) s = opened l s"
| "stage_kept p (WritingOld l) s = locked p l s"
| "stage_kept p RemovingRotated s = nobody_runs s"
| "stage_kept p Renaming s = nobody_runs s"
| "stage_kept p Creating s = nobody_runs s"
| "stage_kept p OpeningNew s = nobody_runs s"
| "stage_kept p (WaitingNew l) s = (nobody_runs s \<and> opened l s)"
| "stage_kept p (WritingNew l) s = (nobody_runs s \<and> locked p l s)"
| "stage_kept p (MakingLogDir l) s = (nobody_runs s \<and> locked p l s)"
| "stage_kept p (MakingDiffDir l) s = (nobody_runs s \<and> locked p l s)"
| "stage_kept p (OpeningLists l k) s = (nobody_runs s \<and> locked p l s)"
| "stage_kept p (Running l) s = locked p l s"
| "stage_kept p Ended s = True"

definition runs_apart :: "lock_state \<Rightarrow> bool" where
  "runs_apart s \<longleftrightarrow> (\<forall>p. stage_kept p (lk_stage s p) s)
     \<and> (\<forall>p q. setting_up (lk_stage s p) \<and> setting_up (lk_stage s q) \<longrightarrow> p = q)"

lemma locked_unique: "locked p l s \<Longrightarrow> locked q k s \<Longrightarrow> q = p \<and> k = l"
  by (auto simp: locked_def opened_def)

lemma setting_up_simps [simp]:
  "\<not> setting_up Idle" "\<not> setting_up Ended" "\<not> setting_up (Running l)"
  by (simp_all add: setting_up_def)

lemma idle_or_running: "\<not> setting_up st \<Longrightarrow> st = Idle \<or> st = Ended \<or> (\<exists>l. st = Running l)"
  by (auto simp: setting_up_def split: stage.splits)

text \<open>A step of a process that is alone in setting up has to keep the directory and the lock of one that runs.\<close>

lemma apart_move:
  assumes "runs_apart s" "\<And>q. q \<noteq> p \<Longrightarrow> \<not> setting_up (lk_stage s q)"
    and "lk_stage s' = (lk_stage s)(p := st)" "stage_kept p st s'"
    and "\<And>q l. q \<noteq> p \<Longrightarrow> lk_stage s q = Running l \<Longrightarrow> locked q l s \<Longrightarrow> locked q l s'"
  shows "runs_apart s'"
proof -
  have "stage_kept q (lk_stage s' q) s'" for q
  proof (cases "q = p")
    case True
    then show ?thesis using assms(3,4) by simp
  next
    case False
    have "stage_kept q (lk_stage s q) s" using assms(1) by (simp add: runs_apart_def)
    then show ?thesis using idle_or_running [OF assms(2) [OF False]] assms(3,5) False by auto
  qed
  then show ?thesis using assms(2,3) by (auto simp: runs_apart_def)
qed

lemma release_fields [simp]:
  "lk_current (release p s) = lk_current s" "lk_rotated (release p s) = lk_rotated s"
  "lk_dirs (release p s) = lk_dirs s" "lk_stage (release p s) = lk_stage s"
  by (simp_all add: release_def)

lemma to_stage_fields [simp]:
  "lk_current (to_stage p st s) = lk_current s" "lk_rotated (to_stage p st s) = lk_rotated s"
  "lk_dirs (to_stage p st s) = lk_dirs s" "lk_holder (to_stage p st s) = lk_holder s"
  "lk_stage (to_stage p st s) = (lk_stage s)(p := st)"
  by (simp_all add: to_stage_def)

lemma opened_same [simp]: "opened l (to_stage p st s) = opened l s" "opened l (release p s) = opened l s"
  by (simp_all add: opened_def)

lemma locked_to_stage [simp]: "locked q l (to_stage p st s) = locked q l s"
  by (simp add: locked_def)

lemma locked_release: "q \<noteq> p \<Longrightarrow> locked q l (release p s) = locked q l s"
  unfolding locked_def opened_same by (simp add: release_def drop_locks_def)

lemma leave_fields [simp]:
  "lk_stage (leave p s) = (lk_stage s)(p := Ended)" "opened l (leave p s) = opened l s"
  by (simp_all add: leave_def)

lemma nobody_runs_move: "nobody_runs (to_stage p st s) \<longleftrightarrow> (\<forall>q l. q \<noteq> p \<longrightarrow> lk_stage s q \<noteq> Running l) \<and> (\<forall>l. st \<noteq> Running l)"
  by (auto simp: nobody_runs_def)

lemma apart_leave: "runs_apart s \<Longrightarrow> runs_apart (leave p s)"
proof -
  assume a: "runs_apart s"
  have "stage_kept q (lk_stage s q) (leave p s)" if "q \<noteq> p" for q
  proof -
    have "stage_kept q (lk_stage s q) s" using a by (simp add: runs_apart_def)
    moreover have "nobody_runs s \<Longrightarrow> nobody_runs (leave p s)" by (auto simp: nobody_runs_def)
    ultimately show ?thesis using that by (cases "lk_stage s q") (auto simp: leave_def locked_release)
  qed
  with a show ?thesis by (auto simp: runs_apart_def)
qed

text \<open>What the calls do to the lock.\<close>

lemma open_lock_opened:
  assumes "open_lock s = Some (l, s1)"
  shows "opened l s1 \<and> lk_stage s1 = lk_stage s \<and> (\<forall>q k. locked q k s \<longrightarrow> locked q k s1)"
  using assms by (auto simp: open_lock_def opened_def locked_def in_current_def split: option.splits)

lemma try_lock_locks:
  assumes "try_lock p l s = Some s1" "opened l s"
  shows "locked p l s1 \<and> lk_stage s1 = lk_stage s \<and> (\<forall>q k. \<not> locked q k s)"
  using assms by (auto simp: try_lock_def opened_def locked_def split: if_splits)

lemma in_current_lock:
  "(\<And>e. de_lock (f e) = de_lock e) \<Longrightarrow> locked q l (in_current f d s) = locked q l s"
  "lk_stage (in_current f d s) = lk_stage s"
  by (auto simp: in_current_def locked_def opened_def)

lemma apart_open:
  assumes "runs_apart s" "\<And>q. q \<noteq> p \<Longrightarrow> \<not> setting_up (lk_stage s q)"
    and "\<And>l s1. opened l s1 \<Longrightarrow> lk_stage s1 = lk_stage s \<Longrightarrow> stage_kept p (st l) (to_stage p (st l) s1)"
  shows "runs_apart (open_and_wait p st s)"
proof (cases "open_lock s")
  case None
  then show ?thesis using apart_leave [OF assms(1)] by (simp add: open_and_wait_def)
next
  case (Some ls)
  then obtain l s1 where o: "open_lock s = Some (l, s1)" by (cases ls) auto
  note op = open_lock_opened [OF o]
  show ?thesis unfolding open_and_wait_def o
    by simp (rule apart_move [OF assms(1,2)]; use op assms(3) in auto)
qed

lemma apart_wait:
  assumes "runs_apart s" "\<And>q. q \<noteq> p \<Longrightarrow> \<not> setting_up (lk_stage s q)" "opened l s"
    and "\<And>s1. locked p l s1 \<Longrightarrow> lk_stage s1 = lk_stage s \<Longrightarrow> stage_kept p st (to_stage p st s1)"
  shows "runs_apart (wait_for_lock p l i st s)"
proof (cases "try_lock p l s")
  case None
  then show ?thesis using assms(1) apart_leave [OF assms(1)] by (simp add: wait_for_lock_def)
next
  case (Some s1)
  note got = try_lock_locks [OF Some assms(3)]
  show ?thesis unfolding wait_for_lock_def Some
    by simp (rule apart_move [OF assms(1,2)]; use got assms(4) in auto)
qed

lemma apart_make:
  assumes "runs_apart s" "\<And>q. q \<noteq> p \<Longrightarrow> \<not> setting_up (lk_stage s q)" "locked p l s"
    and "\<And>e. de_lock (f e) = de_lock e"
    and "\<And>s1. locked p l s1 \<Longrightarrow> lk_stage s1 = lk_stage s \<Longrightarrow> stage_kept p st (to_stage p st s1)"
  shows "runs_apart (make_in_current p there f st s)"
proof -
  have "runs_apart (to_stage p st (in_current f d s))" for d
    by (rule apart_move [OF assms(1,2)]) (use assms(3-5) in_current_lock in auto)
  then show ?thesis using apart_leave [OF assms(1)] by (auto simp: make_in_current_def split: option.splits)
qed

lemma apart_lock_step:
  assumes a: "runs_apart s" and new: "lk_stage s p = Idle \<Longrightarrow> \<forall>q. \<not> setting_up (lk_stage s q)"
  shows "runs_apart (lock_step p c s)"
proof (cases "(c = IoError \<and> lk_stage s p \<noteq> Ended) \<or> (\<exists>l. lk_stage s p = Running l) \<or> lk_stage s p = Ended")
  case True
  then show ?thesis using apart_leave [OF a, of p] a by (auto simp: lock_step_def)
next
  case False
  have alone: "\<not> setting_up (lk_stage s q)" if "q \<noteq> p" for q
    using a new idle_or_running [of "lk_stage s p"] False that by (auto simp: runs_apart_def)
  have here: "stage_kept p (lk_stage s p) s" using a by (simp add: runs_apart_def)
  have nobody: "nobody_runs (to_stage p st s1) = nobody_runs s"
    if "lk_stage s1 = lk_stage s" "\<forall>l. st \<noteq> Running l" for st s1
    using that False by (auto simp: nobody_runs_def)
  have none_locked: "nobody_runs s" if "locked p l s" "lk_stage s p = WritingOld l" for l
  proof -
    have "lk_stage s q \<noteq> Running k" for q k
    proof
      assume q: "lk_stage s q = Running k"
      then have "locked q k s" using a unfolding runs_apart_def by (metis stage_kept.simps(14))
      then show False using locked_unique [OF that(1)] q that(2) by auto
    qed
    then show ?thesis by (simp add: nobody_runs_def)
  qed
  note move = apart_move [OF a alone] and go = lock_step_def
  show ?thesis
  proof (cases "lk_stage s p")
    case Idle
    have "nobody_runs s" if "lk_current s = None"
    proof -
      have "lk_stage s q \<noteq> Running k" for q k
      proof
        assume "lk_stage s q = Running k"
        then have "locked q k s" using a unfolding runs_apart_def by (metis stage_kept.simps(14))
        then show False using that by (simp add: locked_def opened_def)
      qed
      then show ?thesis by (simp add: nobody_runs_def)
    qed
    then have "runs_apart (to_stage p (if lk_current s = None then Creating else OpeningOld) s)"
      using Idle by (intro move) (auto simp: nobody_runs_move nobody_runs_def)
    then show ?thesis using Idle False by (auto simp: go)
  next
    case OpeningOld
    then show ?thesis using False apart_open [OF a alone, of p WaitingOld] by (auto simp: go)
  next
    case (WaitingOld l)
    then show ?thesis using False here apart_wait [OF a alone, of p l "WritingOld l"] by (auto simp: go)
  next
    case (WritingOld l)
    have "runs_apart (to_stage p RemovingRotated (release p s))"
      using none_locked [OF _ WritingOld] here WritingOld
      by (intro move) (auto simp: nobody locked_release)
    then show ?thesis using WritingOld False by (auto simp: go)
  next
    case RemovingRotated
    have "runs_apart (to_stage p Renaming (s\<lparr>lk_rotated := None\<rparr>))"
      using here RemovingRotated by (intro move) (auto simp: nobody locked_def opened_def)
    then show ?thesis using RemovingRotated False by (auto simp: go)
  next
    case Renaming
    then have n: "nobody_runs s" using here by simp
    have "runs_apart (to_stage p Creating (s\<lparr>lk_rotated := Some d, lk_current := None\<rparr>))" for d
      using n by (intro move) (auto simp: nobody nobody_runs_def)
    then have "runs_apart (rename_current p s)"
      using apart_leave [OF a] by (auto simp: rename_current_def split: option.splits)
    then show ?thesis using Renaming False by (auto simp: go)
  next
    case Creating
    then have n: "nobody_runs s" using here by simp
    have "runs_apart (to_stage p OpeningNew
        (s\<lparr>lk_current := Some (lk_next s), lk_dirs := (lk_dirs s)(lk_next s := no_entries), lk_next := lk_next s + 1\<rparr>))"
      using n by (intro move) (auto simp: nobody nobody_runs_def)
    then have "runs_apart (create_current p s)" using apart_leave [OF a] by (auto simp: create_current_def)
    then show ?thesis using Creating False by (auto simp: go)
  next
    case OpeningNew
    have "runs_apart (open_and_wait p WaitingNew s)"
      using here OpeningNew by (intro apart_open [OF a alone]) (auto simp: nobody)
    then show ?thesis using OpeningNew False by (auto simp: go)
  next
    case (WaitingNew l)
    have "runs_apart (wait_for_lock p l i (WritingNew l) s)" for i
      using here WaitingNew by (intro apart_wait [OF a alone]) (auto simp: nobody)
    then show ?thesis using WaitingNew False by (auto simp: go)
  next
    case (WritingNew l)
    have "runs_apart (to_stage p (MakingLogDir l) s)" using here WritingNew by (intro move) (auto simp: nobody)
    then show ?thesis using WritingNew False by (auto simp: go)
  next
    case (MakingLogDir l)
    have "runs_apart (make_in_current p de_log (\<lambda>e. e\<lparr>de_log := True\<rparr>) (MakingDiffDir l) s)"
      using here MakingLogDir by (intro apart_make [OF a alone, of p l]) (auto simp: nobody)
    then show ?thesis using MakingLogDir False by (auto simp: go)
  next
    case (MakingDiffDir l)
    have "runs_apart (make_in_current p de_diff (\<lambda>e. e\<lparr>de_diff := True\<rparr>) (OpeningLists l 0) s)"
      using here MakingDiffDir by (intro apart_make [OF a alone, of p l]) (auto simp: nobody)
    then show ?thesis using MakingDiffDir False by (auto simp: go)
  next
    case (OpeningLists l k)
    have "runs_apart (make_in_current p (\<lambda>_. False) (\<lambda>e. e\<lparr>de_lists := max (de_lists e) (k + 1)\<rparr>)
        (if k + 1 < 6 then OpeningLists l (k + 1) else Running l) s)"
      using here OpeningLists by (intro apart_make [OF a alone, of p l]) (auto simp: nobody)
    then show ?thesis using OpeningLists False by (auto simp: go)
  qed (use False in auto)
qed

lemma orderly_apart: "orderly s \<Longrightarrow> runs_apart s"
proof (induction rule: orderly.induct)
  case (orderly_start s)
  then show ?case by (simp add: runs_apart_def nobody_yet_def)
next
  case (orderly_step s p c)
  then show ?case by (intro apart_lock_step)
qed

text \<open>C38: The lock keeps runs apart, if no run starts while another is still between the start and the return of
  \<open>OutputDir::new\<close>.  Then at any moment, whatever the interleaving of the calls and whichever of them fail,
  at most one process has a directory to write to, this directory is the one called \<open>mutants.out\<close>, and the
  process holds the lock on the file in it, so that every other process that opens the file has to wait.\<close>

theorem lock_keeps_runs_apart:
  assumes "orderly s" "lk_stage s p = Running l"
  shows "(\<forall>q k. lk_stage s q = Running k \<longrightarrow> q = p)
    \<and> (\<exists>d. lk_current s = Some d \<and> de_lock (lk_dirs s d) = Some l) \<and> lk_holder s l = Some p
    \<and> (\<forall>q k s1. open_lock s = Some (k, s1) \<longrightarrow> try_lock q k s1 = None)"
proof -
  have a: "runs_apart s" by (rule orderly_apart [OF assms(1)])
  have runs: "locked q k s" if "lk_stage s q = Running k" for q k
    using a that unfolding runs_apart_def by (metis stage_kept.simps(14))
  note l = runs [OF assms(2)]
  have "q = p" if "lk_stage s q = Running k" for q k using locked_unique [OF l runs [OF that]] by simp
  then show ?thesis using l by (auto simp: locked_def opened_def open_lock_def try_lock_def split: option.splits)
qed

subsection \<open>A run on its own\<close>

text \<open>The lock is free again when its holder leaves, and then the process that waits gets it at its next turn.\<close>

lemma waiter_gets_lock:
  assumes "lk_stage s p = Running l" "lk_holder s l = Some p" "lk_stage s q = WaitingOld l" "p \<noteq> q"
  shows "lk_stage (lock_step q Proceed (lock_step p Proceed s)) q = WritingOld l
    \<and> lk_holder (lock_step q Proceed (lock_step p Proceed s)) l = Some q"
  using assms
  by (simp add: lock_step_def leave_def release_def drop_locks_def wait_for_lock_def try_lock_def to_stage_def)

text \<open>A process that nobody disturbs rotates the directory of the last run, whose lock file is there and free, and runs
  in a new one, as \<^const>\<open>output_dir_new\<close> has it.\<close>

lemma alone_run_rotates:
  assumes "lk_stage s p = Idle" "lk_current s = Some d" "de_lock (lk_dirs s d) = Some l" "\<And>k. lk_holder s k = None"
  shows "let s' = lock_run (replicate 18 (p, Proceed)) s in
    lk_stage s' p = Running (lk_next s + 1) \<and> lk_rotated s' = Some d \<and> lk_current s' = Some (lk_next s)
    \<and> lk_holder s' (lk_next s + 1) = Some p
    \<and> lk_dirs s' (lk_next s) = \<lparr>de_lock = Some (lk_next s + 1), de_log = True, de_diff = True, de_lists = 6\<rparr>"
proof -
  have none: "drop_locks p ((\<lambda>_. None)(l \<mapsto> p)) = (\<lambda>_. None)" for l by (simp add: drop_locks_def fun_eq_iff)
  have "lk_holder s = (\<lambda>_. None)" using assms(4) by (simp add: fun_eq_iff)
  then obtain ro D n st where s: "s = \<lparr>lk_current = Some d, lk_rotated = ro, lk_dirs = D, lk_holder = (\<lambda>_. None), lk_next = n,
      lk_stage = st\<rparr>" using assms(2) by (cases s) auto
  have "st p = Idle" "de_lock (D d) = Some l" using assms(1,3) by (simp_all add: s)
  then show ?thesis
    by (simp add: s Let_def lock_run_def eval_nat_numeral lock_step_def open_and_wait_def wait_for_lock_def
        rename_current_def create_current_def make_in_current_def open_lock_def try_lock_def in_current_def to_stage_def
        release_def none no_entries_def)
qed

subsection \<open>Examples\<close>

definition first_run :: lock_state where
  "first_run = \<lparr>lk_current = None, lk_rotated = None, lk_dirs = (\<lambda>_. no_entries), lk_holder = (\<lambda>_. None), lk_next = 0,
     lk_stage = (\<lambda>_. Idle)\<rparr>"

definition turns :: "nat \<Rightarrow> nat \<Rightarrow> (nat \<times> choice) list" where
  "turns p n = replicate n (p, Proceed)"

lemma lock_run_simps [simp]:
  "lock_run [] s = s" "lock_run ((p, c) # ps) s = lock_run ps (lock_step p c s)"
  "lock_run (ps @ qs) s = lock_run qs (lock_run ps s)"
  by (simp_all add: lock_run_def)

lemma orderly_turns:
  assumes "orderly s" "\<And>q. q \<noteq> p \<Longrightarrow> \<not> setting_up (lk_stage s q)"
  shows "orderly (lock_run (turns p n) s)"
  using assms
proof (induction n arbitrary: s)
  case (Suc n)
  have "lk_stage s p = Idle \<Longrightarrow> \<forall>q. \<not> setting_up (lk_stage s q)" using Suc(3) setting_up_simps(1) by metis
  with Suc(2) have "orderly (lock_step p Proceed s)" by (rule orderly_step)
  moreover have "lk_stage (lock_step p Proceed s) q = lk_stage s q" if "q \<noteq> p" for q
    using that by (auto simp: lock_step_def open_and_wait_def wait_for_lock_def rename_current_def create_current_def
        make_in_current_def open_lock_def try_lock_def in_current_def split: stage.splits option.splits)
  ultimately show ?case using Suc by (simp add: turns_def)
qed (simp add: turns_def)

lemmas lock_eval =
  turns_def eval_nat_numeral first_run_def lock_step_def open_and_wait_def wait_for_lock_def rename_current_def
  create_current_def make_in_current_def open_lock_def try_lock_def in_current_def to_stage_def release_def drop_locks_def leave_def no_entries_def

text \<open>One process runs and another waits for it.\<close>

lemma lock_keeps_runs_apart_witness:
  "orderly (lock_run (turns 0 13 @ turns 1 3) first_run)
    \<and> lk_stage (lock_run (turns 0 13 @ turns 1 3) first_run) 0 = Running 1
    \<and> lk_holder (lock_run (turns 0 13 @ turns 1 3) first_run) 1 = Some 0"
proof -
  let ?s = "lock_run (turns 0 13) first_run"
  have "nobody_yet first_run" by (simp add: nobody_yet_def first_run_def)
  then have o: "orderly ?s"
    by (intro orderly_turns orderly_start) (simp_all add: first_run_def)
  have s: "lk_stage ?s = (\<lambda>_. Idle)(0 := Running 1)" by (simp add: lock_eval fun_eq_iff)
  have "orderly (lock_run (turns 1 3) ?s)" by (rule orderly_turns [OF o]) (simp add: s)
  moreover have "lk_stage (lock_run (turns 1 3) ?s) 0 = Running 1" by (simp add: lock_eval)
  ultimately show ?thesis using lock_keeps_runs_apart [of "lock_run (turns 1 3) ?s" 0 1] by simp
qed

text \<open>
  Without that condition it fails.  Two processes wait for the lock of the directory of a third.  When this
  one ends, the first of them gets the lock, drops it, moves the directory away and makes its own, in which it
  runs.  The other then gets the lock that it has waited for, which is on a file of the directory moved away:
  it removes that directory, moves the one in use, and runs as well.
\<close>

lemma second_waiter_moves_directory_in_use:
  assumes "s = lock_run (turns 0 13 @ turns 1 2 @ turns 2 2 @ turns 0 1 @ turns 1 16 @ turns 2 16) first_run"
  shows "lk_stage s 1 = Running 3 \<and> lk_stage s 2 = Running 5
    \<and> lk_rotated s = Some 2 \<and> de_lock (lk_dirs s 2) = Some 3 \<and> lk_holder s 3 = Some 1"
  unfolding assms by (simp add: lock_eval)

end
