(* ===== verification/Interrupts.thy ===== *)
theory Interrupts
  imports CargoRun
begin

text \<open>
  The flag that a ctrl-c sets (\<open>src/src/interrupt.rs\<close>).  \<open>INTERRUPTED\<close> starts as false, is set by the handler and
  by nothing else, and is only read otherwise.  The theories of the parts that ask for it take the answers as an
  argument; here the answers come from the flag.
\<close>

record interrupts =
  it_handler :: bool
  it_flag :: bool

definition not_interrupted :: interrupts where
  "not_interrupted = \<lparr>it_handler = False, it_flag = False\<rparr>"

text \<open>\<open>expect\<close> panics when the handler cannot be set, which is \<^term>\<open>None\<close>.\<close>

definition install_handler :: "bool \<Rightarrow> interrupts \<Rightarrow> interrupts option" where
  "install_handler set_ok s = (if set_ok then Some (s\<lparr>it_handler := True\<rparr>) else None)"

text \<open>A ctrl-c: without the handler the default action ends the program, which is \<^term>\<open>None\<close>.\<close>

definition ctrl_c :: "interrupts \<Rightarrow> interrupts option" where
  "ctrl_c s = (if it_handler s then Some (s\<lparr>it_flag := True\<rparr>) else None)"

definition check_interrupted :: "interrupts \<Rightarrow> (run_error, unit) rresult" where
  "check_interrupted s = (if it_flag s then Err Interrupted else Ok ())"

subsection \<open>The answers\<close>

datatype interrupt_event = CtrlC | Check

text \<open>What the checks answer, in order, when the events come one after the other.\<close>

fun answers :: "interrupt_event list \<Rightarrow> interrupts \<Rightarrow> (run_error, unit) rresult list option" where
  "answers [] s = Some []"
| "answers (CtrlC # es) s = Option.bind (ctrl_c s) (answers es)"
| "answers (Check # es) s = map_option (\<lambda>as. check_interrupted s # as) (answers es s)"

definition checks :: "interrupt_event list \<Rightarrow> nat" where
  "checks es = length (filter (\<lambda>e. e = Check) es)"

lemma checks_simps [simp]: "checks [] = 0" "checks (Check # es) = Suc (checks es)" "checks (CtrlC # es) = checks es"
  by (simp_all add: checks_def)

lemma answers_after:
  assumes "it_handler s" "it_flag s"
  shows "answers es s = Some (replicate (checks es) (Err Interrupted))"
  using assms
proof (induction es arbitrary: s)
  case (Cons e es)
  then show ?case by (cases e) (simp_all add: ctrl_c_def check_interrupted_def)
qed simp

text \<open>Once the handler is there a ctrl-c never ends the program by itself, every check before the first one
  succeeds, and from then on every check fails.\<close>

lemma answers_split_at_first_ctrl_c:
  assumes "it_handler s" "\<not> it_flag s"
  shows "answers es s = Some (replicate (checks (takeWhile (\<lambda>e. e \<noteq> CtrlC) es)) (Ok ())
    @ replicate (checks (dropWhile (\<lambda>e. e \<noteq> CtrlC) es)) (Err Interrupted))"
  using assms
proof (induction es)
  case (Cons e es)
  then show ?case
    by (cases e) (simp_all add: check_interrupted_def ctrl_c_def answers_after)
qed simp

text \<open>Before that a ctrl-c is the end of the program.\<close>

lemma ctrl_c_without_handler: "\<not> it_handler s \<Longrightarrow> CtrlC \<in> set es \<Longrightarrow> answers es s = None"
  by (induction es s rule: answers.induct) (auto simp: ctrl_c_def)

subsection \<open>In time\<close>

text \<open>What a check finds at a moment, when ctrl-c is pressed at the moments given.\<close>

definition flag_at :: "nat list \<Rightarrow> interrupts \<Rightarrow> nat \<Rightarrow> interrupts option" where
  "flag_at signals s now = fold (\<lambda>_ st. Option.bind st ctrl_c) (filter (\<lambda>k. k \<le> now) signals) (Some s)"

definition interrupted_at :: "nat list \<Rightarrow> interrupts \<Rightarrow> nat \<Rightarrow> bool" where
  "interrupted_at signals s now = (case flag_at signals s now of Some s' \<Rightarrow> check_interrupted s' \<noteq> Ok () | None \<Rightarrow> False)"

lemma fold_ctrl_c:
  "it_handler s \<Longrightarrow> fold (\<lambda>_ st. Option.bind st ctrl_c) ks (Some s) = Some (s\<lparr>it_flag := it_flag s \<or> ks \<noteq> []\<rparr>)"
  by (induction ks arbitrary: s) (simp_all add: ctrl_c_def)

lemma interrupted_at_iff:
  "it_handler s \<Longrightarrow> interrupted_at signals s now \<longleftrightarrow> it_flag s \<or> (\<exists>k\<in>set signals. k \<le> now)"
  by (auto simp: interrupted_at_def flag_at_def fold_ctrl_c check_interrupted_def filter_empty_conv)

lemma interrupted_at_lasts:
  "it_handler s \<Longrightarrow> interrupted_at signals s now \<Longrightarrow> now \<le> later \<Longrightarrow> interrupted_at signals s later"
  by (auto simp: interrupted_at_iff intro: order_trans)

end
