(* ===== verification/Processes.thy ===== *)
theory Processes
  imports Interrupts
begin

text \<open>
  A child process in time: the waiter thread and the signal (\<open>src/src/process/unix.rs\<close>) under the loop of
  \<open>Process::run\<close> (\<open>src/src/process.rs\<close>).  The theory of cargo takes what each round of that loop observes as
  given; here the observations come from a child with a life of its own.  Moments are nanoseconds after its
  start.
\<close>

subsection \<open>The child\<close>

datatype kill_result = KillOk | KillNoProcess | KillNotPermitted | KillError

text \<open>When the child ends by itself, how long it lives on after a \<open>SIGTERM\<close> (\<^term>\<open>None\<close> if it ignores it), the
  status it ends with, and whether waiting for it gives that status.\<close>

record child =
  ch_exit :: "nat option"
  ch_term_delay :: "nat option"
  ch_code :: "int option"
  ch_signal :: "int option"
  ch_wait_ok :: bool
  ch_killpg :: "nat \<Rightarrow> kill_result"

definition WAIT_POLL_INTERVAL :: duration where "WAIT_POLL_INTERVAL = 50 * 10 ^ 6"

text \<open>Waiting on the channel of the waiter thread, which speaks when the child ends: the moment at which the call
  returns and what it returns.\<close>

definition wait_for_exit :: "child \<Rightarrow> duration \<Rightarrow> nat \<Rightarrow> nat \<times> (run_error, exit_status option) rresult" where
  "wait_for_exit ch limit now =
     (case ch_exit ch of
        None \<Rightarrow> (now + limit, Ok None)
      | Some e \<Rightarrow>
          if e \<le> now + limit
          then (max now e,
                if ch_wait_ok ch then Ok (Some (exit_from_status (ch_code ch) (ch_signal ch))) else Err WaitFailed)
          else (now + limit, Ok None))"

definition terminate_child :: "bool \<Rightarrow> kill_result \<Rightarrow> (run_error, unit) rresult" where
  "terminate_child macos k =
     (case k of
        KillOk \<Rightarrow> Ok ()
      | KillNoProcess \<Rightarrow> Ok ()
      | KillNotPermitted \<Rightarrow> if macos then Ok () else Err TerminateFailed
      | KillError \<Rightarrow> Err TerminateFailed)"

text \<open>The end of a child that has been sent a signal, or not, at the moment \<open>now\<close>.\<close>

definition gone_at :: "child \<Rightarrow> bool \<Rightarrow> nat \<Rightarrow> nat option" where
  "gone_at ch sent now =
     (case (ch_exit ch, if sent then map_option (\<lambda>d. now + d) (ch_term_delay ch) else None) of
        (None, None) \<Rightarrow> None
      | (Some e, None) \<Rightarrow> Some e
      | (None, Some k) \<Rightarrow> Some k
      | (Some e, Some k) \<Rightarrow> Some (min e k))"

text \<open>Terminating blocks until the waiter thread has spoken: \<^term>\<open>None\<close> if that never happens.\<close>

definition terminate :: "bool \<Rightarrow> child \<Rightarrow> nat \<Rightarrow> (nat \<times> (run_error, unit) rresult) option" where
  "terminate macos ch now =
     (case terminate_child macos (ch_killpg ch now) of
        Err e \<Rightarrow> Some (now, Err e)
      | Ok _ \<Rightarrow> map_option (\<lambda>t. (max now t, Ok ())) (gone_at ch (ch_killpg ch now = KillOk) now))"

text \<open>What the loop uses of a child: waiting for it up to a limit, and terminating it.  Each platform gives its own.\<close>

record child_handle =
  hd_wait :: "duration \<Rightarrow> nat \<Rightarrow> nat \<times> (run_error, exit_status option) rresult"
  hd_terminate :: "nat \<Rightarrow> (nat \<times> (run_error, unit) rresult) option"

definition unix_handle :: "bool \<Rightarrow> child \<Rightarrow> child_handle" where
  "unix_handle macos ch = \<lparr>hd_wait = wait_for_exit ch, hd_terminate = terminate macos ch\<rparr>"

subsection \<open>The loop\<close>

record run_setting =
  rs_interrupted :: "nat \<Rightarrow> bool"
  rs_pause :: "nat \<Rightarrow> nat"  \<comment> \<open>from the return of one round to the start of the next\<close>

text \<open>One round, with the moment at which a signal was sent.\<close>

definition live_wait_step ::
  "run_setting \<Rightarrow> child_handle \<Rightarrow> duration option \<Rightarrow> nat
     \<Rightarrow> (nat \<times> nat option \<times> (run_error, exit_status option) rresult) option" where
  "live_wait_step R h timeout now =
     (if is_some_and timeout (\<lambda>t. now > t)
      then map_option (\<lambda>(n, r). (n, Some now, rbind r (\<lambda>_. Ok (Some ExitTimeout)))) (hd_terminate h now)
      else if rs_interrupted R now
      then map_option (\<lambda>(n, r). (n, Some now, rbind r (\<lambda>_. Err Interrupted))) (hd_terminate h now)
      else (case hd_wait h WAIT_POLL_INTERVAL now of (n, r) \<Rightarrow> Some (n, None, r)))"

text \<open>\<open>Ends\<close> holds the moment, the moment of the signal if one was sent, and the result; \<open>Blocks\<close> is a call that
  never returns.\<close>

datatype live_end = Ends nat "nat option" "(run_error, exit_status) rresult" | Blocks | NoFuel

fun live_run :: "run_setting \<Rightarrow> child_handle \<Rightarrow> duration option \<Rightarrow> nat \<Rightarrow> nat \<Rightarrow> live_end" where
  "live_run R h timeout 0 now = NoFuel"
| "live_run R h timeout (Suc fuel) now =
     (case live_wait_step R h timeout now of
        None \<Rightarrow> Blocks
      | Some (n, sent, Err e) \<Rightarrow> Ends n sent (Err e)
      | Some (n, sent, Ok (Some st)) \<Rightarrow> Ends n sent (Ok st)
      | Some (n, sent, Ok None) \<Rightarrow> live_run R h timeout fuel (n + rs_pause R n))"

lemma poll_pos: "0 < WAIT_POLL_INTERVAL"
  by (simp add: WAIT_POLL_INTERVAL_def)

lemma exit_from_status_no_timeout [simp]: "exit_from_status c sg \<noteq> ExitTimeout" "ExitTimeout \<noteq> exit_from_status c sg"
  by (auto simp: exit_from_status_def split: option.splits)

subsection \<open>What a platform promises\<close>

text \<open>How far an end of the loop may be believed.  \<open>gone\<close> tells from the moment of the signal, if one was sent, that
  the child has ended by a moment; \<open>own\<close> is the status it ends with; \<open>lost\<close> are the errors after which it may
  still run.\<close>

definition right_end ::
  "(nat option \<Rightarrow> nat \<Rightarrow> bool) \<Rightarrow> exit_status \<Rightarrow> run_error set \<Rightarrow> duration option \<Rightarrow> nat \<Rightarrow> nat option
     \<Rightarrow> (run_error, exit_status) rresult \<Rightarrow> bool" where
  "right_end gone own lost timeout n sent r \<longleftrightarrow>
     (is_ok r \<or> (\<exists>e. r = Err e \<and> e \<notin> lost) \<longrightarrow> gone sent n)
     \<and> (\<forall>st. r = Ok st \<longrightarrow>
          (if st = ExitTimeout then \<exists>t k. timeout = Some t \<and> sent = Some k \<and> t < k \<and> k \<le> n
           else sent = None \<and> st = own))"

locale reaped_child =
  fixes h :: child_handle
    and gone :: "nat option \<Rightarrow> nat \<Rightarrow> bool"
    and own :: exit_status
    and lost :: "run_error set"
  assumes wait_exit: "hd_wait h limit now = (n, Ok (Some st)) \<Longrightarrow> gone None n \<and> st = own"
    and wait_nothing: "hd_wait h limit now = (n, Ok None) \<Longrightarrow> n = now + limit"
    and wait_error: "hd_wait h limit now = (n, Err e) \<Longrightarrow> e \<in> lost \<or> gone None n"
    and wait_limit: "hd_wait h limit now = (n, r) \<Longrightarrow> n \<le> now + limit"
    and terminate_result:
      "hd_terminate h now = Some (n, sig) \<Longrightarrow> now \<le> n \<and> (sig = Ok () \<and> gone (Some now) n \<or> sig = Err TerminateFailed)"
    and terminate_lost: "TerminateFailed \<in> lost"
    and own_status: "own \<noteq> ExitTimeout"
begin

lemma step_right:
  assumes "live_wait_step R h timeout now = Some (n, sent, r)"
  shows "case r of Err e \<Rightarrow> right_end gone own lost timeout n sent (Err e)
    | Ok (Some st) \<Rightarrow> right_end gone own lost timeout n sent (Ok st)
    | Ok None \<Rightarrow> n = now + WAIT_POLL_INTERVAL"
proof (cases "is_some_and timeout (\<lambda>t. now > t) \<or> rs_interrupted R now")
  case True
  then obtain r1 where "hd_terminate h now = Some (n, r1)" "sent = Some now"
    and r: "r = (if is_some_and timeout (\<lambda>t. now > t) then rbind r1 (\<lambda>_. Ok (Some ExitTimeout)) else rbind r1 (\<lambda>_. Err Interrupted))"
    using assms by (auto simp: live_wait_step_def split: if_splits)
  then show ?thesis using terminate_result [of now n r1] terminate_lost
    by (auto simp: right_end_def is_some_and_def is_ok_def split: option.splits)
next
  case False
  then have w: "hd_wait h WAIT_POLL_INTERVAL now = (n, r)" "sent = None"
    using assms by (auto simp: live_wait_step_def split: if_splits prod.splits)
  then show ?thesis
    using wait_exit [of WAIT_POLL_INTERVAL now n] wait_nothing [of WAIT_POLL_INTERVAL now n]
      wait_error [of WAIT_POLL_INTERVAL now n] own_status
    by (cases r) (auto simp: right_end_def split: option.splits)
qed

lemma run_right: "live_run R h timeout fuel now = Ends n sent r \<Longrightarrow> right_end gone own lost timeout n sent r"
proof (induction fuel arbitrary: now)
  case (Suc fuel)
  then obtain n1 sent1 r1 where s: "live_wait_step R h timeout now = Some (n1, sent1, r1)"
    by (auto split: option.splits)
  from step_right [OF s] Suc s show ?case
    by (auto split: sum.splits option.splits)
qed simp

end

text \<open>A child that ends within a grace after it has been told to, as long as it is \<open>calm\<close>.\<close>

locale timely_child = reaped_child +
  fixes calm :: bool and grace :: nat
  assumes in_time: "calm \<Longrightarrow> \<exists>n r. hd_terminate h now = Some (n, r) \<and> n \<le> now + grace"
begin

text \<open>From the moment \<open>t\<close> on, the loop terminates the child: for its timeout or for an interrupt.\<close>

lemma run_in_time:
  assumes calm and stop: "\<And>now. t < now \<Longrightarrow> is_some_and timeout (\<lambda>l. l < now) \<or> rs_interrupted R now"
    and pause: "\<And>n. rs_pause R n \<le> w"
    and "now \<le> t + WAIT_POLL_INTERVAL + w" "t + WAIT_POLL_INTERVAL + w - now < fuel"
  shows "\<exists>n sent r. live_run R h timeout fuel now = Ends n sent r \<and> n \<le> t + WAIT_POLL_INTERVAL + w + grace"
  using assms(4,5)
proof (induction fuel arbitrary: now)
  case (Suc fuel)
  show ?case
  proof (cases "is_some_and timeout (\<lambda>l. l < now) \<or> rs_interrupted R now")
    case True
    obtain n r where "hd_terminate h now = Some (n, r)" "n \<le> now + grace"
      using in_time [OF assms(1)] by blast
    then show ?thesis using True Suc(2)
      by (cases r) (auto simp: live_wait_step_def)
  next
    case False
    then have now: "now \<le> t" using stop by (meson not_le)
    obtain n r where w: "hd_wait h WAIT_POLL_INTERVAL now = (n, r)" by fastforce
    show ?thesis
    proof (cases "r = Ok None")
      case True
      let ?now = "n + rs_pause R n"
      have "n = now + WAIT_POLL_INTERVAL" using w True wait_nothing by blast
      then have "?now \<le> t + WAIT_POLL_INTERVAL + w" "t + WAIT_POLL_INTERVAL + w - ?now < fuel"
        using pause [of n] now Suc(3) poll_pos by linarith+
      from Suc(1) [OF this] show ?thesis using False w True
        by (simp add: live_wait_step_def)
    next
      case other: False
      then show ?thesis using False w wait_limit [OF w] now
        by (auto simp: live_wait_step_def split: sum.splits option.splits)
    qed
  qed
qed simp

lemma run_in_time_right:
  assumes calm and "\<And>now. t < now \<Longrightarrow> is_some_and timeout (\<lambda>l. l < now) \<or> rs_interrupted R now"
    and "\<And>n. rs_pause R n \<le> w" and "t + WAIT_POLL_INTERVAL + w < fuel"
  shows "\<exists>n sent r. live_run R h timeout fuel 0 = Ends n sent r \<and> n \<le> t + WAIT_POLL_INTERVAL + w + grace
    \<and> right_end gone own lost timeout n sent r"
proof -
  obtain n sent r where "live_run R h timeout fuel 0 = Ends n sent r" "n \<le> t + WAIT_POLL_INTERVAL + w + grace"
    using run_in_time [where t = t and now = 0 and fuel = fuel, OF assms(1-3)] assms(4) by auto
  then show ?thesis using run_right by blast
qed

end

subsection \<open>The Unix child\<close>

text \<open>What is known of a child: a signal that finds no process, or none it may be sent to, finds one that has ended.\<close>

definition child_ok :: "bool \<Rightarrow> child \<Rightarrow> bool" where
  "child_ok macos ch \<longleftrightarrow>
     (\<forall>now. ch_killpg ch now \<noteq> KillOk \<and> terminate_child macos (ch_killpg ch now) = Ok ()
        \<longrightarrow> (\<exists>e\<le>now. ch_exit ch = Some e))"

definition gone :: "child \<Rightarrow> nat option \<Rightarrow> nat \<Rightarrow> bool" where
  "gone ch sent n \<longleftrightarrow> (\<exists>e\<le>n. ch_exit ch = Some e)
     \<or> (\<exists>k d. sent = Some k \<and> ch_term_delay ch = Some d \<and> k + d \<le> n)"

lemma unix_terminate_result:
  assumes "terminate macos ch now = Some (n, r)"
  shows "now \<le> n \<and> (r = Ok () \<and> (child_ok macos ch \<longrightarrow> gone ch (Some now) n) \<or> r = Err TerminateFailed)"
proof (cases "terminate_child macos (ch_killpg ch now)")
  case (Inl e)
  then have "e = TerminateFailed" by (auto simp: terminate_child_def split: kill_result.splits if_splits)
  then show ?thesis using assms Inl by (simp add: terminate_def)
next
  case (Inr u)
  then obtain t where t: "gone_at ch (ch_killpg ch now = KillOk) now = Some t" "n = max now t" "r = Ok ()"
    using assms by (auto simp: terminate_def)
  moreover have "gone ch (Some now) n"
    using t(1,2) by (fastforce simp: gone_at_def gone_def min_def split: option.splits if_splits)
  ultimately show ?thesis by simp
qed

lemma unix_terminate_in_time:
  assumes "child_ok macos ch" "ch_term_delay ch = Some d" "d \<le> g"
  shows "\<exists>n r. terminate macos ch now = Some (n, r) \<and> n \<le> now + g"
proof (cases "terminate_child macos (ch_killpg ch now)")
  case (Inl e)
  then show ?thesis by (simp add: terminate_def)
next
  case (Inr u)
  show ?thesis
  proof (cases "ch_killpg ch now = KillOk")
    case True
    then show ?thesis using Inr assms(2,3) by (auto simp: terminate_def gone_at_def split: option.splits)
  next
    case False
    then obtain e where "ch_exit ch = Some e" "e \<le> now" using Inr assms(1) by (auto simp: child_ok_def)
    then show ?thesis using Inr False by (simp add: terminate_def gone_at_def)
  qed
qed

interpretation ux: timely_child "unix_handle macos ch" "\<lambda>sent n. child_ok macos ch \<longrightarrow> gone ch sent n"
  "exit_from_status (ch_code ch) (ch_signal ch)" "{TerminateFailed}"
  "child_ok macos ch \<and> (\<exists>d\<le>g. ch_term_delay ch = Some d)" g for macos ch g
proof unfold_locales
  fix limit now n st e and r :: "(run_error, exit_status option) rresult" and r1 :: "(run_error, unit) rresult"
  let ?h = "unix_handle macos ch"
  show "hd_wait ?h limit now = (n, Ok (Some st)) \<Longrightarrow>
      (child_ok macos ch \<longrightarrow> gone ch None n) \<and> st = exit_from_status (ch_code ch) (ch_signal ch)"
    "hd_wait ?h limit now = (n, Ok None) \<Longrightarrow> n = now + limit"
    "hd_wait ?h limit now = (n, Err e) \<Longrightarrow> e \<in> {TerminateFailed} \<or> (child_ok macos ch \<longrightarrow> gone ch None n)"
    "hd_wait ?h limit now = (n, r) \<Longrightarrow> n \<le> now + limit"
    by (auto simp: unix_handle_def wait_for_exit_def gone_def split: option.splits if_splits)
  show "hd_terminate ?h now = Some (n, r1) \<Longrightarrow>
      now \<le> n \<and> (r1 = Ok () \<and> (child_ok macos ch \<longrightarrow> gone ch (Some now) n) \<or> r1 = Err TerminateFailed)"
    using unix_terminate_result by (simp add: unix_handle_def)
  show "child_ok macos ch \<and> (\<exists>d\<le>g. ch_term_delay ch = Some d) \<Longrightarrow>
      \<exists>n r. hd_terminate ?h now = Some (n, r) \<and> n \<le> now + g"
    using unix_terminate_in_time by (auto simp: unix_handle_def)
qed simp_all

text \<open>C39: A child with a timeout is reaped in time.  If it ends within the grace \<open>g\<close> after a \<open>SIGTERM\<close>, then with enough
  rounds the loop has ended at most one poll interval, one pause and the grace after the limit, whatever the
  child does and whenever an interrupt comes; unless the signal could not be sent the child is gone by then; a timeout
  is reported only if the signal was sent after the limit; and any other status is the child's own, of
  a child that was sent no signal.\<close>

theorem child_reaped_in_time:
  assumes "child_ok macos ch" "ch_term_delay ch = Some d" "d \<le> g" "\<forall>n. rs_pause R n \<le> w"
  shows "\<exists>k. \<forall>fuel\<ge>k. \<exists>n sent r. live_run R (unix_handle macos ch) (Some t) fuel 0 = Ends n sent r
    \<and> n \<le> t + WAIT_POLL_INTERVAL + w + g
    \<and> (r \<noteq> Err TerminateFailed \<longrightarrow> gone ch sent n)
    \<and> (\<forall>st. r = Ok st \<longrightarrow>
         (if st = ExitTimeout then \<exists>k. sent = Some k \<and> t < k \<and> k \<le> n
          else sent = None \<and> st = exit_from_status (ch_code ch) (ch_signal ch)))"
proof (rule exI [of _ "t + WAIT_POLL_INTERVAL + w + 1"], intro allI impI)
  fix fuel assume "t + WAIT_POLL_INTERVAL + w + 1 \<le> fuel"
  then obtain n sent r where e: "live_run R (unix_handle macos ch) (Some t) fuel 0 = Ends n sent r"
    "n \<le> t + WAIT_POLL_INTERVAL + w + g" "right_end (\<lambda>sent n. child_ok macos ch \<longrightarrow> gone ch sent n)
      (exit_from_status (ch_code ch) (ch_signal ch)) {TerminateFailed} (Some t) n sent r"
    using ux.run_in_time_right [of macos ch g t "Some t" R w fuel] assms by (auto simp: is_some_and_def)
  then have "r \<noteq> Err TerminateFailed \<longrightarrow> gone ch sent n"
    using assms(1) by (cases r) (auto simp: right_end_def is_ok_def)
  then show "\<exists>n sent r. live_run R (unix_handle macos ch) (Some t) fuel 0 = Ends n sent r
      \<and> n \<le> t + WAIT_POLL_INTERVAL + w + g \<and> (r \<noteq> Err TerminateFailed \<longrightarrow> gone ch sent n)
      \<and> (\<forall>st. r = Ok st \<longrightarrow>
           (if st = ExitTimeout then \<exists>k. sent = Some k \<and> t < k \<and> k \<le> n
            else sent = None \<and> st = exit_from_status (ch_code ch) (ch_signal ch)))"
    using e by (intro exI [of _ n] exI [of _ sent] exI [of _ r]) (auto simp: right_end_def)
qed

text \<open>The same for a ctrl-c at the moment \<open>k\<close>, with or without a timeout.\<close>

lemma ctrl_c_ends_run:
  assumes "child_ok macos ch" "ch_term_delay ch = Some d" "d \<le> g" "\<forall>n. rs_pause R n \<le> w"
    and "rs_interrupted R = interrupted_at signals s" "it_handler s" "k \<in> set signals"
    and "k + WAIT_POLL_INTERVAL + w < fuel"
  shows "\<exists>n sent r. live_run R (unix_handle macos ch) timeout fuel 0 = Ends n sent r
    \<and> n \<le> k + WAIT_POLL_INTERVAL + w + g \<and> (r \<noteq> Err TerminateFailed \<longrightarrow> gone ch sent n)"
proof -
  have "rs_interrupted R now" if "k < now" for now
    using assms(5-7) that by (auto simp: interrupted_at_iff intro: less_imp_le)
  then obtain n sent r where e: "live_run R (unix_handle macos ch) timeout fuel 0 = Ends n sent r"
    "n \<le> k + WAIT_POLL_INTERVAL + w + g" "right_end (\<lambda>sent n. child_ok macos ch \<longrightarrow> gone ch sent n)
      (exit_from_status (ch_code ch) (ch_signal ch)) {TerminateFailed} timeout n sent r"
    using ux.run_in_time_right [of macos ch g k timeout R w fuel] assms(1-4,8) by auto
  then have "r \<noteq> Err TerminateFailed \<longrightarrow> gone ch sent n"
    using assms(1) by (cases r) (auto simp: right_end_def is_ok_def)
  then show ?thesis using e by blast
qed

text \<open>
  The condition on the grace is needed: there is no second, harsher signal.  A child that ignores \<open>SIGTERM\<close> and does
  not end by itself blocks the run, whatever its timeout.
\<close>

lemma deaf_child_blocks:
  assumes "ch_exit ch = None" "ch_term_delay ch = None" "\<And>now. ch_killpg ch now = KillOk" "\<And>n. \<not> rs_interrupted R n"
    and "t < now + fuel * WAIT_POLL_INTERVAL"
  shows "live_run R (unix_handle macos ch) (Some t) (Suc fuel) now = Blocks"
  using assms(5)
proof (induction fuel arbitrary: now)
  case 0
  then show ?case using assms(1-4)
    by (simp add: live_wait_step_def unix_handle_def is_some_and_def terminate_def terminate_child_def gone_at_def)
next
  case (Suc fuel)
  have "t < (now + WAIT_POLL_INTERVAL + rs_pause R (now + WAIT_POLL_INTERVAL)) + fuel * WAIT_POLL_INTERVAL"
    using Suc(2) by simp
  from Suc(1) [OF this] show ?case using assms(1-4)
    by (subst live_run.simps(2))
      (simp add: live_wait_step_def unix_handle_def is_some_and_def terminate_def terminate_child_def gone_at_def
        wait_for_exit_def)
qed

subsection \<open>The rounds that are observed\<close>

definition observe :: "run_setting \<Rightarrow> child_handle \<Rightarrow> nat \<Rightarrow> observation" where
  "observe R h now =
     \<lparr>ob_elapsed = now, ob_interrupted = rs_interrupted R now,
      ob_terminate_ok = (case hd_terminate h now of Some (_, r) \<Rightarrow> is_ok r | None \<Rightarrow> False),
      ob_poll = snd (hd_wait h WAIT_POLL_INTERVAL now)\<rparr>"

definition plain_errors :: "child_handle \<Rightarrow> bool" where
  "plain_errors h \<longleftrightarrow> (\<forall>now n e. hd_terminate h now = Some (n, Err e) \<longrightarrow> e = TerminateFailed)"

lemma unix_plain_errors [simp]: "plain_errors (unix_handle macos ch)"
  using unix_terminate_result by (fastforce simp: plain_errors_def unix_handle_def)

lemma live_wait_step_observed:
  assumes "plain_errors h" "live_wait_step R h timeout now = Some (n, sent, r)"
  shows "wait_step timeout (observe R h now) = r"
proof -
  have "is_ok r1 \<or> r1 = Err TerminateFailed" if "hd_terminate h now = Some (n1, r1)" for n1 r1
    using that assms(1) by (cases r1) (auto simp: plain_errors_def is_ok_def)
  then show ?thesis using assms(2)
    by (fastforce simp: live_wait_step_def wait_step_def observe_def is_ok_def split: if_splits prod.splits sum.splits)
qed

text \<open>The loop over what is observed gives the result of the loop over the child.\<close>

lemma live_run_observed:
  assumes "plain_errors h" "live_run R h timeout fuel now = Ends n sent r"
  shows "\<exists>moments. wait_loop timeout (map (observe R h) moments) = Some r"
  using assms(2)
proof (induction fuel arbitrary: now)
  case (Suc fuel)
  then obtain n1 sent1 r1 where s: "live_wait_step R h timeout now = Some (n1, sent1, r1)"
    by (auto split: option.splits)
  note ob = live_wait_step_observed [OF assms(1) s]
  show ?case
  proof (cases "r1 = Ok None")
    case True
    then have "live_run R h timeout fuel (n1 + rs_pause R n1) = Ends n sent r" using Suc(2) s by simp
    from Suc(1) [OF this] obtain moments where "wait_loop timeout (map (observe R h) moments) = Some r" by blast
    then show ?thesis using ob True by (intro exI [of _ "now # moments"]) simp
  next
    case False
    then show ?thesis using ob Suc(2) s by (intro exI [of _ "[now]"]) (auto split: sum.splits option.splits)
  qed
qed simp

subsection \<open>The whole call\<close>

text \<open>\<open>Process::start\<close> with the scenario's log; \<open>argv[0]\<close> panics on no arguments, which is \<^term>\<open>None\<close>.\<close>

record start_system =
  ss_message_ok :: bool
  ss_stdout_ok :: bool
  ss_stderr_ok :: bool
  ss_spawn :: "string list \<Rightarrow> (string \<times> string) list \<Rightarrow> path \<Rightarrow> child_handle option"
  ss_result_message_ok :: bool

definition process_start ::
  "start_system \<Rightarrow> string list \<Rightarrow> (string \<times> string) list \<Rightarrow> path \<Rightarrow> scenario_output \<Rightarrow> output_dir
     \<Rightarrow> (output_dir \<times> (run_error, child_handle) rresult) option" where
  "process_start S argv env cwd sc od =
     (case message (ss_message_ok S) sc (quote_argv argv) od of
        (od1, Err _) \<Rightarrow> Some (od1, Err RunOutput)
      | (od1, Ok _) \<Rightarrow>
          if argv = [] then None
          else if \<not> ss_stdout_ok S \<or> \<not> ss_stderr_ok S then Some (od1, Err RunOutput)
          else (case ss_spawn S argv env cwd of
                  None \<Rightarrow> Some (od1, Err SpawnFailed)
                | Some h \<Rightarrow> Some (od1, Ok h)))"

text \<open>\<open>Process::run\<close>; \<^term>\<open>None\<close> also where the call does not return within the fuel.\<close>

definition live_process_run ::
  "start_system \<Rightarrow> run_setting \<Rightarrow> nat \<Rightarrow> string list \<Rightarrow> (string \<times> string) list \<Rightarrow> path \<Rightarrow> duration option
     \<Rightarrow> scenario_output \<Rightarrow> output_dir \<Rightarrow> (output_dir \<times> (run_error, exit_status) rresult) option" where
  "live_process_run S R fuel argv env cwd timeout sc od =
     (case process_start S argv env cwd sc od of
        None \<Rightarrow> None
      | Some (od1, Err e) \<Rightarrow> Some (od1, Err e)
      | Some (od1, Ok h) \<Rightarrow>
          (case live_run R h timeout fuel 0 of
             Ends _ _ (Err e) \<Rightarrow> Some (od1, Err e)
           | Ends _ _ (Ok st) \<Rightarrow>
               (case message (ss_result_message_ok S) sc (''result: '' @ show_exit st) od1 of
                  (od2, Err _) \<Rightarrow> Some (od2, Err RunOutput)
                | (od2, Ok _) \<Rightarrow> Some (od2, Ok st))
           | _ \<Rightarrow> None))"

text \<open>
  Whatever the call over a child returns, and whatever it leaves in the log, the call over some sequence of
  observations does too, so that what the lab proves of every such sequence holds of every child.  A log that
  cannot be opened fails as a message that cannot be written does.
\<close>

lemma live_process_run_observed:
  assumes "live_process_run S R fuel argv env cwd timeout sc od = Some (od', r)" "ss_stdout_ok S" "ss_stderr_ok S"
    and "\<And>h. ss_spawn S argv env cwd = Some h \<Longrightarrow> plain_errors h"
  shows "\<exists>obs. process_run
      \<lparr>cw_message_ok = ss_message_ok S, cw_spawn_ok = (ss_spawn S argv env cwd \<noteq> None), cw_observations = obs,
       cw_result_message_ok = ss_result_message_ok S, cw_interrupted_after = False, cw_elapsed = 0\<rparr>
      argv timeout sc od = Some (od', r)"
proof -
  obtain od1 m where m: "message (ss_message_ok S) sc (quote_argv argv) od = (od1, m)" by fastforce
  show ?thesis
  proof (cases "is_ok m \<and> ss_spawn S argv env cwd \<noteq> None")
    case False
    then show ?thesis using assms m
      by (intro exI [of _ "[]"])
        (auto simp: live_process_run_def process_start_def process_run_def is_ok_def split: sum.splits if_splits option.splits)
  next
    case True
    then obtain u h where ok: "m = Ok u" "ss_spawn S argv env cwd = Some h" by (cases m) auto
    then obtain n sent r1 where run: "live_run R h timeout fuel 0 = Ends n sent r1"
      using assms m by (auto simp: live_process_run_def process_start_def split: live_end.splits if_splits)
    from live_run_observed [OF assms(4) [OF ok(2)] run] obtain moments
      where "wait_loop timeout (map (observe R h) moments) = Some r1" by blast
    then show ?thesis using assms m ok run
      by (intro exI [of _ "map (observe R h) moments"])
        (auto simp: live_process_run_def process_start_def process_run_def split: sum.splits if_splits prod.splits)
  qed
qed

subsection \<open>Examples\<close>

text \<open>A child that would run for an hour and takes a second to end when it is told to.\<close>

definition slow_child :: child where
  "slow_child =
     \<lparr>ch_exit = Some (3600 * 10 ^ 9), ch_term_delay = Some (10 ^ 9), ch_code = Some 0, ch_signal = None, ch_wait_ok = True,
      ch_killpg = (\<lambda>_. KillOk)\<rparr>"

definition plain_setting :: run_setting where
  "plain_setting = \<lparr>rs_interrupted = (\<lambda>_. False), rs_pause = (\<lambda>_. 0)\<rparr>"

lemma child_reaped_in_time_witness:
  "\<exists>k. \<forall>fuel\<ge>k. \<exists>n sent r. live_run plain_setting (unix_handle False slow_child) (Some (2 * 10 ^ 9)) fuel 0 = Ends n sent r
    \<and> n \<le> 3050 * 10 ^ 6 \<and> gone slow_child sent n"
proof -
  have ok: "child_ok False slow_child" "ch_term_delay slow_child = Some (10 ^ 9)"
    "\<forall>n. rs_pause plain_setting n \<le> 0"
    by (simp_all add: child_ok_def slow_child_def plain_setting_def)
  have sent: "r \<noteq> Err TerminateFailed" if "live_run plain_setting (unix_handle False slow_child) t fuel now = Ends n s r" for t fuel now n s r
    using that
    by (induction fuel arbitrary: now)
      (auto simp: live_wait_step_def unix_handle_def terminate_def terminate_child_def wait_for_exit_def slow_child_def
        plain_setting_def gone_at_def split: if_splits sum.splits option.splits)
  obtain k where k: "\<forall>fuel\<ge>k. \<exists>n sent r. live_run plain_setting (unix_handle False slow_child) (Some (2 * 10 ^ 9)) fuel 0 = Ends n sent r
      \<and> n \<le> 2 * 10 ^ 9 + WAIT_POLL_INTERVAL + 0 + 10 ^ 9 \<and> (r \<noteq> Err TerminateFailed \<longrightarrow> gone slow_child sent n)"
    using child_reaped_in_time [OF ok(1,2) order_refl ok(3), of "2 * 10 ^ 9"] by blast
  then show ?thesis using sent by (intro exI [of _ k]) (fastforce simp: WAIT_POLL_INTERVAL_def)
qed

end
