(* ===== verification/Windows.thy ===== *)
theory Windows
  imports Processes Copying
begin

text \<open>
  The Windows half of the code that depends on the platform: waiting for a child and ending it
  (\<open>src/src/process/windows.rs\<close>) and copying a link (\<open>src/src/copy_tree/windows.rs\<close>).  The loop of
  \<open>Process::run\<close> is the one of theory \<open>Processes\<close>; its locales are interpreted here a second time.
\<close>

subsection \<open>The child\<close>

text \<open>When the child ends by itself, its code, whether it can be killed and asked for its end at a moment, and how
  long it is still there after it has been killed.\<close>

record win_child =
  wc_exit :: "nat option"
  wc_code :: "int option"
  wc_try_wait_ok :: "nat \<Rightarrow> bool"
  wc_kill_ok :: "nat \<Rightarrow> bool"
  wc_kill_delay :: "nat option"

definition win_exit :: "int option \<Rightarrow> exit_status" where
  "win_exit code =
     (case code of
        Some c \<Rightarrow> if c = 0 then ExitSuccess else ExitFailure c
      | None \<Rightarrow> ExitOther)"

definition try_wait :: "win_child \<Rightarrow> nat \<Rightarrow> (run_error, exit_status option) rresult" where
  "try_wait ch now =
     (if \<not> wc_try_wait_ok ch now then Err WaitFailed
      else (case wc_exit ch of
              Some e \<Rightarrow> Ok (if e \<le> now then Some (win_exit (wc_code ch)) else None)
            | None \<Rightarrow> Ok None))"

text \<open>The call asks, sleeps for the whole limit, and asks again.\<close>

definition win_wait_for_exit :: "win_child \<Rightarrow> duration \<Rightarrow> nat \<Rightarrow> nat \<times> (run_error, exit_status option) rresult" where
  "win_wait_for_exit ch limit now =
     (case try_wait ch now of
        Err e \<Rightarrow> (now, Err e)
      | Ok (Some st) \<Rightarrow> (now, Ok (Some st))
      | Ok None \<Rightarrow> (now + limit, try_wait ch (now + limit)))"

definition win_terminate_child :: "win_child \<Rightarrow> nat \<Rightarrow> (run_error, unit) rresult" where
  "win_terminate_child ch now = (if wc_kill_ok ch now then Ok () else Err TerminateFailed)"

definition win_gone_at :: "win_child \<Rightarrow> nat \<Rightarrow> nat option" where
  "win_gone_at ch now =
     (case (wc_exit ch, wc_kill_delay ch) of
        (None, None) \<Rightarrow> None
      | (Some e, None) \<Rightarrow> Some e
      | (None, Some d) \<Rightarrow> Some (now + d)
      | (Some e, Some d) \<Rightarrow> Some (min e (now + d)))"

text \<open>After the kill the call waits without a limit; an error of that wait is only logged.\<close>

definition win_terminate :: "win_child \<Rightarrow> nat \<Rightarrow> (nat \<times> (run_error, unit) rresult) option" where
  "win_terminate ch now =
     (case win_terminate_child ch now of
        Err e \<Rightarrow> Some (now, Err e)
      | Ok _ \<Rightarrow> map_option (\<lambda>t. (max now t, Ok ())) (win_gone_at ch now))"

definition windows_handle :: "win_child \<Rightarrow> child_handle" where
  "windows_handle ch = \<lparr>hd_wait = win_wait_for_exit ch, hd_terminate = win_terminate ch\<rparr>"

subsection \<open>It keeps the promises of a platform\<close>

definition win_gone :: "win_child \<Rightarrow> nat option \<Rightarrow> nat \<Rightarrow> bool" where
  "win_gone ch sent n \<longleftrightarrow> (\<exists>e\<le>n. wc_exit ch = Some e)
     \<or> (\<exists>k d. sent = Some k \<and> wc_kill_delay ch = Some d \<and> k + d \<le> n)"

text \<open>An error of \<open>try_wait\<close> says nothing of the child, which may still run.\<close>

interpretation win: timely_child "windows_handle ch" "win_gone ch" "win_exit (wc_code ch)"
  "{TerminateFailed, WaitFailed}" "\<exists>d\<le>g. wc_kill_delay ch = Some d" g for ch g
proof unfold_locales
  fix limit now n st e and r :: "(run_error, exit_status option) rresult" and r1 :: "(run_error, unit) rresult"
  let ?h = "windows_handle ch"
  show "hd_wait ?h limit now = (n, Ok (Some st)) \<Longrightarrow> win_gone ch None n \<and> st = win_exit (wc_code ch)"
    "hd_wait ?h limit now = (n, Ok None) \<Longrightarrow> n = now + limit"
    "hd_wait ?h limit now = (n, Err e) \<Longrightarrow> e \<in> {TerminateFailed, WaitFailed} \<or> win_gone ch None n"
    "hd_wait ?h limit now = (n, r) \<Longrightarrow> n \<le> now + limit"
    by (auto simp: windows_handle_def win_wait_for_exit_def try_wait_def win_gone_def split: option.splits if_splits)
  show "hd_terminate ?h now = Some (n, r1) \<Longrightarrow>
      now \<le> n \<and> (r1 = Ok () \<and> win_gone ch (Some now) n \<or> r1 = Err TerminateFailed)"
    by (auto simp: windows_handle_def win_terminate_def win_terminate_child_def win_gone_at_def win_gone_def min_def
      split: option.splits if_splits)
  show "\<exists>d\<le>g. wc_kill_delay ch = Some d \<Longrightarrow> \<exists>n r. hd_terminate ?h now = Some (n, r) \<and> n \<le> now + g"
    by (auto simp: windows_handle_def win_terminate_def win_terminate_child_def win_gone_at_def split: option.splits)
qed (simp_all add: win_exit_def split: option.splits)

lemma windows_plain_errors [simp]: "plain_errors (windows_handle ch)"
  by (auto simp: plain_errors_def windows_handle_def win_terminate_def win_terminate_child_def split: if_splits)

text \<open>A child with a timeout, or one that runs when a ctrl-c comes, is reaped in time here too: a kill cannot be
  ignored, so the grace is only the time the system takes to end the process.\<close>

lemma windows_child_reaped_in_time:
  assumes "wc_kill_delay ch = Some d" "\<And>n. rs_pause R n \<le> w" "t + WAIT_POLL_INTERVAL + w < fuel"
    and "\<And>now. t < now \<Longrightarrow> is_some_and timeout (\<lambda>l. l < now) \<or> rs_interrupted R now"
  shows "\<exists>n sent r. live_run R (windows_handle ch) timeout fuel 0 = Ends n sent r
    \<and> n \<le> t + WAIT_POLL_INTERVAL + w + d
    \<and> (\<forall>st. r = Ok st \<longrightarrow> win_gone ch sent n \<and> (st \<noteq> ExitTimeout \<longrightarrow> st = win_exit (wc_code ch)))"
proof -
  have "\<exists>d'\<le>d. wc_kill_delay ch = Some d'" using assms(1) by simp
  from win.run_in_time_right [where t = t, OF this assms(4) assms(2) assms(3)]
  show ?thesis by (fastforce simp: right_end_def)
qed

subsection \<open>Beside the Unix child\<close>

text \<open>One wait gives the same answer on both platforms, but on Windows only after the whole poll interval unless the
  child had ended before it.\<close>

lemma same_answer_later:
  assumes "wc_exit c = ch_exit ch" "wc_code c = ch_code ch" "ch_signal ch = None" "ch_wait_ok ch"
    and "\<And>now. wc_try_wait_ok c now"
  shows "snd (win_wait_for_exit c limit now) = snd (wait_for_exit ch limit now)"
    and "fst (wait_for_exit ch limit now) \<le> fst (win_wait_for_exit c limit now)"
    and "fst (win_wait_for_exit c limit now) \<le> now + limit"
    and "ch_exit ch = Some e \<Longrightarrow> now < e \<Longrightarrow> e \<le> now + limit \<Longrightarrow>
      fst (wait_for_exit ch limit now) = e \<and> fst (win_wait_for_exit c limit now) = now + limit"
  using assms
  by (auto simp: win_wait_for_exit_def try_wait_def wait_for_exit_def win_exit_def exit_from_status_def
    split: option.splits)

subsection \<open>Links\<close>

text \<open>A link is made for a directory or for a file, which the file type tells; anything else is an error.\<close>

datatype link_type = LinkToDir | LinkToFile | UnknownLink

record win_files =
  wf_files :: files
  wf_links :: "string list \<Rightarrow> link_type option"

datatype win_copy_error = WinCopy copy_error | UnknownLinkType

definition win_copy_symlink ::
  "copy_world \<Rightarrow> string list \<Rightarrow> link_type \<Rightarrow> string list \<Rightarrow> string list \<Rightarrow> win_files
     \<Rightarrow> win_files \<times> (win_copy_error, unit) rresult" where
  "win_copy_symlink w rel ft src dest s =
     (case (if cw_read_link_ok w rel then wf_files s src else None) of
        Some (Symlink link_target) \<Rightarrow>
          if ft = LinkToDir \<or> ft = LinkToFile
          then (case (if wf_files s dest = None \<and> cw_symlink_ok w rel
                      then new_node dest (Symlink link_target) (wf_files s) else None) of
                  Some fs \<Rightarrow> (s\<lparr>wf_files := fs, wf_links := (wf_links s)(dest \<mapsto> ft)\<rparr>, Ok ())
                | None \<Rightarrow> (s, Err (WinCopy (SymlinkFailed (path_of rel)))))
          else (s, Err UnknownLinkType)
      | _ \<Rightarrow> (s, Err (WinCopy (ReadLinkFailed (path_of rel)))))"

text \<open>With a type that is known the files are those that the Unix function leaves, the errors correspond, and the
  copy of a link is of the same type as the link.\<close>

lemma win_copy_symlink_is_unix:
  assumes "ft \<noteq> UnknownLink"
  shows "wf_files (fst (win_copy_symlink w rel ft src dest s)) = fst (copy_symlink w rel src dest (wf_files s))"
    and "snd (win_copy_symlink w rel ft src dest s)
      = (case snd (copy_symlink w rel src dest (wf_files s)) of Err e \<Rightarrow> Err (WinCopy e) | Ok u \<Rightarrow> Ok u)"
  using assms by (cases ft; auto simp: win_copy_symlink_def copy_symlink_def split: option.splits fnode.splits)+

lemma win_copy_symlink_type:
  assumes "wf_links s src = Some ft" "win_copy_symlink w rel ft src dest s = (s', Ok ())"
  shows "wf_links s' dest = wf_links s src"
  using assms by (auto simp: win_copy_symlink_def split: option.splits fnode.splits if_splits)

lemma win_copy_symlink_unknown:
  "fst (win_copy_symlink w rel UnknownLink src dest s) = s"
  "\<not> is_ok (snd (win_copy_symlink w rel UnknownLink src dest s))"
  by (auto simp: win_copy_symlink_def split: option.splits fnode.splits)

end
