(* ===== verification/Reports.thy ===== *)
theory Reports
  imports Listing Outputs
begin

text \<open>
  The report of a run, \<open>mutants.out/outcomes.json\<close>: what \<open>write_lab_outcome\<close> in \<open>src/src/output.rs\<close> hands to the
  printer of JSON, by the \<open>Serialize\<close> of \<open>src/src/outcome.rs\<close>, \<open>src/src/scenario.rs\<close> and \<open>src/src/process.rs\<close>.
\<close>

subsection \<open>The parts\<close>

definition phase_json :: "phase \<Rightarrow> json" where
  "phase_json p = JStr (case p of Check \<Rightarrow> ''Check'' | Build \<Rightarrow> ''Build'' | Test \<Rightarrow> ''Test'')"

definition exit_json :: "exit_status \<Rightarrow> json" where
  "exit_json e =
     (case e of
        ExitSuccess \<Rightarrow> JStr ''Success''
      | ExitFailure c \<Rightarrow> JObject [(''Failure'', JNum c)]
      | ExitTimeout \<Rightarrow> JStr ''Timeout''
      | ExitSignalled sg \<Rightarrow> JObject [(''Signalled'', JNum sg)]
      | ExitOther \<Rightarrow> JStr ''Other'')"

definition summary_json :: "summary_outcome \<Rightarrow> json" where
  "summary_json s =
     JStr (case s of
             Success \<Rightarrow> ''Success'' | CaughtMutant \<Rightarrow> ''CaughtMutant'' | MissedMutant \<Rightarrow> ''MissedMutant''
           | Unviable \<Rightarrow> ''Unviable'' | Failure \<Rightarrow> ''Failure'' | Timeout \<Rightarrow> ''Timeout''
           | Equivalent \<Rightarrow> ''Equivalent'' | Uncovered \<Rightarrow> ''Uncovered'')"

definition skip_reason_json :: "skip_reason option \<Rightarrow> json" where
  "skip_reason_json r =
     (case r of None \<Rightarrow> JNull | Some SkipEquivalent \<Rightarrow> JStr ''Equivalent'' | Some SkipUncovered \<Rightarrow> JStr ''Uncovered'')"

text \<open>A mutant without its diff.\<close>

definition scenario_json :: "scenario \<Rightarrow> json option" where
  "scenario_json s =
     (case s of
        Baseline \<Rightarrow> Some (JStr ''Baseline'')
      | MutantScenario m \<Rightarrow> map_option (\<lambda>fields. JObject [(''Mutant'', JObject fields)]) (serialize_mutant m))"

definition phase_result_json :: "libs \<Rightarrow> phase_result \<Rightarrow> json" where
  "phase_result_json L pr =
     JObject [(''phase'', phase_json (pr_phase pr)), (''duration'', JFloat (lib_as_secs_f64 L (pr_duration pr))),
       (''process_status'', exit_json (pr_status pr)), (''argv'', JArray (map JStr (pr_argv pr)))]"

definition path_json :: "path option \<Rightarrow> json" where
  "path_json p = (case p of None \<Rightarrow> JNull | Some q \<Rightarrow> JStr q)"

definition scenario_outcome_json :: "libs \<Rightarrow> scenario_outcome \<Rightarrow> json option" where
  "scenario_outcome_json L o' =
     map_option (\<lambda>sc.
       JObject [(''scenario'', sc), (''summary'', summary_json (summary o')), (''log_path'', JStr (so_log_path o')),
         (''diff_path'', path_json (so_diff_path o')),
         (''phase_results'', JArray (map (phase_result_json L) (so_phase_results o'))),
         (''skip_reason'', skip_reason_json (so_skip_reason o'))]) (scenario_json (so_scenario o'))"

text \<open>\<open>None\<close> where an outcome cannot be serialised.\<close>

fun outcomes_json :: "libs \<Rightarrow> scenario_outcome list \<Rightarrow> json list option" where
  "outcomes_json L [] = Some []"
| "outcomes_json L (o' # os) =
     Option.bind (scenario_outcome_json L o') (\<lambda>j. map_option ((#) j) (outcomes_json L os))"

text \<open>The start, the version and the printing of a time come with the run.\<close>

definition lab_outcome_json :: "libs \<Rightarrow> string \<Rightarrow> string \<Rightarrow> (nat \<Rightarrow> string) \<Rightarrow> lab_outcome \<Rightarrow> json option" where
  "lab_outcome_json L version start show_time lo =
     map_option (\<lambda>os.
       JObject [(''outcomes'', JArray os), (''total_mutants'', JNum (int (lo_total_mutants lo))),
         (''missed'', JNum (int (lo_missed lo))), (''caught'', JNum (int (lo_caught lo))),
         (''timeout'', JNum (int (lo_timeout lo))), (''unviable'', JNum (int (lo_unviable lo))),
         (''success'', JNum (int (lo_success lo))), (''equivalent'', JNum (int (lo_equivalent lo))),
         (''uncovered'', JNum (int (lo_uncovered lo))), (''start_time'', JStr start),
         (''end_time'', case lo_end_time lo of None \<Rightarrow> JNull | Some t \<Rightarrow> JStr (show_time t)),
         (''cargo_mutants_version'', JStr version)]) (outcomes_json L (lo_outcomes lo))"

subsection \<open>What the report determines\<close>

lemma exit_json_inject: "exit_json a = exit_json b \<longleftrightarrow> a = b"
  by (cases a; cases b) (simp_all add: exit_json_def)

lemma phase_json_inject: "phase_json a = phase_json b \<longleftrightarrow> a = b"
  by (cases a; cases b) (simp_all add: phase_json_def)

lemma summary_json_inject: "summary_json a = summary_json b \<longleftrightarrow> a = b"
  by (cases a; cases b) (simp_all add: summary_json_def)

lemma scenario_json_total:
  assumes "\<And>m. s = MutantScenario m \<Longrightarrow> mutant_ok m"
  shows "\<exists>j. scenario_json s = Some j"
proof (cases s)
  case (MutantScenario m)
  then obtain n where "full_name m = Some n" using name_total [of m True] assms by (auto simp: name_of_def write_name_def)
  then show ?thesis using MutantScenario by (simp add: scenario_json_def serialize_mutant_def)
qed (simp add: scenario_json_def)

lemma outcomes_json_total:
  assumes "\<And>o' m. o' \<in> set os \<Longrightarrow> so_scenario o' = MutantScenario m \<Longrightarrow> mutant_ok m"
  shows "\<exists>js. outcomes_json L os = Some js"
  using assms
proof (induction os)
  case (Cons o' os)
  have "\<exists>j. scenario_json (so_scenario o') = Some j" by (rule scenario_json_total) (use Cons(2) in auto)
  moreover have "\<exists>js. outcomes_json L os = Some js" by (rule Cons(1)) (use Cons(2) in auto)
  ultimately show ?case by (auto simp: scenario_outcome_json_def)
qed simp

text \<open>Two outcomes that a report does not tell apart.\<close>

definition same_verdict :: "scenario_outcome \<Rightarrow> scenario_outcome \<Rightarrow> bool" where
  "same_verdict a b \<longleftrightarrow> is_mutant (so_scenario a) = is_mutant (so_scenario b) \<and> summary a = summary b
     \<and> map (\<lambda>pr. (pr_phase pr, pr_status pr, pr_argv pr)) (so_phase_results a)
       = map (\<lambda>pr. (pr_phase pr, pr_status pr, pr_argv pr)) (so_phase_results b)"

lemma map_JStr_inject: "map JStr xs = map JStr ys \<longleftrightarrow> xs = ys"
  by (rule inj_map_eq_map) (simp add: inj_def)

lemma phase_results_inject:
  "map (phase_result_json L) xs = map (phase_result_json L) ys \<Longrightarrow>
   map (\<lambda>pr. (pr_phase pr, pr_status pr, pr_argv pr)) xs = map (\<lambda>pr. (pr_phase pr, pr_status pr, pr_argv pr)) ys"
proof (induction xs arbitrary: ys)
  case (Cons x xs)
  then obtain y ys' where "ys = y # ys'" by (cases ys) auto
  with Cons show ?case
    by (simp add: phase_result_json_def phase_json_inject exit_json_inject map_JStr_inject)
qed simp

lemma scenario_outcome_json_verdict:
  assumes "scenario_outcome_json L a = Some j" "scenario_outcome_json L b = Some j"
  shows "same_verdict a b"
proof -
  obtain s where s: "scenario_json (so_scenario a) = Some s" "scenario_json (so_scenario b) = Some s"
    using assms by (auto simp: scenario_outcome_json_def)
  then have "is_mutant (so_scenario a) = is_mutant (so_scenario b)"
    by (auto simp: scenario_json_def split: scenario.splits)
  moreover have "summary_json (summary a) = summary_json (summary b)
      \<and> map (phase_result_json L) (so_phase_results a) = map (phase_result_json L) (so_phase_results b)"
    using trans [OF assms(1) assms(2) [symmetric]] s unfolding scenario_outcome_json_def by simp
  ultimately show ?thesis using phase_results_inject unfolding same_verdict_def summary_json_inject by blast
qed

lemma outcomes_json_verdicts:
  "outcomes_json L os = Some js \<Longrightarrow> outcomes_json L os' = Some js \<Longrightarrow> list_all2 same_verdict os os'"
proof (induction os arbitrary: os' js)
  case Nil
  then show ?case by (cases os') (auto simp: bind_eq_Some_conv)
next
  case (Cons o1 os)
  then obtain j js1 where j: "scenario_outcome_json L o1 = Some j" "outcomes_json L os = Some js1" "js = j # js1"
    by (auto simp: bind_eq_Some_conv)
  with Cons(3) obtain o2 os2 where "os' = o2 # os2" "scenario_outcome_json L o2 = Some j" "outcomes_json L os2 = Some js1"
    by (cases os') (auto simp: bind_eq_Some_conv)
  with j Cons(1) scenario_outcome_json_verdict show ?case by auto
qed

lemma last_opt_map: "last_opt (map f xs) = map_option f (last_opt xs)"
  by (simp add: last_opt_def last_map)

lemma same_verdict_success:
  assumes "same_verdict a b"
  shows "success a = success b"
proof -
  have "map (fst \<circ> snd) (map (\<lambda>pr. (pr_phase pr, pr_status pr, pr_argv pr)) (so_phase_results a))
      = map (fst \<circ> snd) (map (\<lambda>pr. (pr_phase pr, pr_status pr, pr_argv pr)) (so_phase_results b))"
    using assms unfolding same_verdict_def by simp
  then have "map pr_status (so_phase_results a) = map pr_status (so_phase_results b)" by (simp add: comp_def)
  then show ?thesis by (simp add: success_def last_phase_result_def last_opt_map [symmetric])
qed



end
