(* ===== verification/Tracing.thy ===== *)
theory Tracing
  imports Progress
begin

text \<open>
  The debug log (the second part of \<open>Console\<close> in \<open>src/src/console.rs\<close>): every event of the program goes to the terminal
  if its level is low enough, and to \<open>mutants.out/debug.log\<close> once that is open.  The tracing library asks the layers
  for the highest level that any of them wants only when it is told to, and skips an event above what it was last
  told; formatting an event is its work, so an event comes with both of its texts.
\<close>

subsection \<open>The state\<close>

datatype level = LError | LWarn | LInfo | LDebug | LTrace

fun level_rank :: "level \<Rightarrow> nat" where
  "level_rank LError = 1"
| "level_rank LWarn = 2"
| "level_rank LInfo = 3"
| "level_rank LDebug = 4"
| "level_rank LTrace = 5"

text \<open>\<open>LevelFilter::OFF\<close> is 0; no hint from a layer means that it wants every level.\<close>

record tracing =
  tr_console_level :: level
  tr_debug_log :: "string option"  \<comment> \<open>what the file holds\<close>
  tr_debug_log_open :: bool
  tr_max_level :: nat  \<comment> \<open>what the library has been told\<close>
  tr_terminal :: string

definition debug_filter_enabled :: "tracing \<Rightarrow> bool" where
  "debug_filter_enabled s = tr_debug_log_open s"

definition debug_max_level_hint :: "tracing \<Rightarrow> nat option" where
  "debug_max_level_hint s = (if tr_debug_log_open s then None else Some 0)"

text \<open>\<open>rebuild_interest_cache\<close>: the maximum over both layers.\<close>

definition rebuild_interest_cache :: "tracing \<Rightarrow> tracing" where
  "rebuild_interest_cache s =
     s\<lparr>tr_max_level := max (unwrap_or (debug_max_level_hint s) (level_rank LTrace)) (level_rank (tr_console_level s))\<rparr>"

text \<open>\<open>Console::new\<close> and \<open>setup_global_trace\<close>.\<close>

definition setup_global_trace :: "level \<Rightarrow> tracing" where
  "setup_global_trace console_level =
     rebuild_interest_cache
       \<lparr>tr_console_level = console_level, tr_debug_log = None, tr_debug_log_open = False, tr_max_level = 0, tr_terminal = []\<rparr>"

definition set_debug_log :: "string \<Rightarrow> tracing \<Rightarrow> tracing" where
  "set_debug_log content s = rebuild_interest_cache (s\<lparr>tr_debug_log := Some content, tr_debug_log_open := True\<rparr>)"

subsection \<open>Writers\<close>

text \<open>\<open>DebugLogWriter\<close>: nothing is kept while there is no file.\<close>

definition debug_log_write :: "string \<Rightarrow> tracing \<Rightarrow> tracing" where
  "debug_log_write buf s = s\<lparr>tr_debug_log := map_option (\<lambda>body. body @ buf) (tr_debug_log s)\<rparr>"

text \<open>\<open>TerminalWriter\<close> panics unless the bytes are UTF-8.\<close>

definition terminal_write :: "string \<Rightarrow> tracing \<Rightarrow> tracing option" where
  "terminal_write buf s = (if utf8 buf then Some (s\<lparr>tr_terminal := tr_terminal s @ buf\<rparr>) else None)"

record event =
  ev_level :: level
  ev_debug_text :: string
  ev_console_text :: string

definition emit :: "event \<Rightarrow> tracing \<Rightarrow> tracing option" where
  "emit ev s =
     (if level_rank (ev_level ev) > tr_max_level s then Some s
      else
        let s1 = (if debug_filter_enabled s then debug_log_write (ev_debug_text ev) s else s) in
        if level_rank (ev_level ev) \<le> level_rank (tr_console_level s1) then terminal_write (ev_console_text ev) s1
        else Some s1)"

fun emit_all :: "event list \<Rightarrow> tracing \<Rightarrow> tracing option" where
  "emit_all [] s = Some s"
| "emit_all (ev # evs) s = Option.bind (emit ev s) (emit_all evs)"

text \<open>A run of the program: the events before the output directory is there, and those after.\<close>

definition traced_run :: "level \<Rightarrow> event list \<Rightarrow> event list \<Rightarrow> tracing option" where
  "traced_run console_level before after =
     Option.bind (emit_all before (setup_global_trace console_level)) (\<lambda>s. emit_all after (set_debug_log [] s))"

subsection \<open>What is logged\<close>

definition shown :: "level \<Rightarrow> event list \<Rightarrow> string" where
  "shown lv evs = concat (map ev_console_text (filter (\<lambda>ev. level_rank (ev_level ev) \<le> level_rank lv) evs))"

text \<open>The library knows what the layers want.\<close>

definition told :: "tracing \<Rightarrow> bool" where
  "told s \<longleftrightarrow> rebuild_interest_cache s = s \<and> (tr_debug_log_open s \<longleftrightarrow> tr_debug_log s \<noteq> None)"

lemma level_rank_bounds: "1 \<le> level_rank lv" "level_rank lv \<le> 5"
  by (cases lv; simp)+

lemma emit_told:
  assumes "told s" "utf8 (ev_console_text ev)"
  shows "emit ev s = Some (s\<lparr>tr_debug_log := map_option (\<lambda>body. body @ ev_debug_text ev) (tr_debug_log s),
    tr_terminal := tr_terminal s @ shown (tr_console_level s) [ev]\<rparr>)"
proof -
  obtain cl log op mx t where s: "s = \<lparr>tr_console_level = cl, tr_debug_log = log, tr_debug_log_open = op, tr_max_level = mx,
      tr_terminal = t\<rparr>" by (cases s) auto
  have "mx = max (if op then 5 else 0) (level_rank cl)" "op \<longleftrightarrow> log \<noteq> None"
    using assms(1) by (auto simp: s told_def rebuild_interest_cache_def debug_max_level_hint_def unwrap_or_def)
  then show ?thesis using assms(2) level_rank_bounds [of "ev_level ev"] level_rank_bounds [of cl]
    by (auto simp: s emit_def debug_filter_enabled_def debug_log_write_def terminal_write_def shown_def Let_def max_def)
qed

lemma emit_all_told:
  assumes "told s" "\<And>ev. ev \<in> set evs \<Longrightarrow> utf8 (ev_console_text ev)"
  shows "emit_all evs s = Some (s\<lparr>tr_debug_log := map_option (\<lambda>body. body @ concat (map ev_debug_text evs)) (tr_debug_log s),
    tr_terminal := tr_terminal s @ shown (tr_console_level s) evs\<rparr>)"
  using assms
proof (induction evs arbitrary: s)
  case Nil
  then show ?case by (cases s) (simp add: shown_def map_option.id [unfolded id_def] option.map_ident)
next
  case (Cons ev evs)
  let ?s1 = "s\<lparr>tr_debug_log := map_option (\<lambda>body. body @ ev_debug_text ev) (tr_debug_log s),
    tr_terminal := tr_terminal s @ shown (tr_console_level s) [ev]\<rparr>"
  have "told ?s1" using Cons(2) by (cases s) (auto simp: told_def rebuild_interest_cache_def debug_max_level_hint_def)
  then have "emit_all evs ?s1 = Some (?s1\<lparr>tr_debug_log := map_option (\<lambda>body. body @ concat (map ev_debug_text evs)) (tr_debug_log ?s1),
      tr_terminal := tr_terminal ?s1 @ shown (tr_console_level ?s1) evs\<rparr>)"
    using Cons(1,3) by simp
  moreover have "emit ev s = Some ?s1" using emit_told Cons(2,3) by simp
  ultimately show ?case
    by (cases s) (simp add: shown_def option.map_comp comp_def)
qed

text \<open>The debug log is complete from the moment it is opened: it holds the text of every later event, of whatever
  level, in order, and nothing of the events before.  The terminal shows the events up to the level asked for, in
  order, before and after, so that opening the log changes nothing on the terminal; and logging does not panic.\<close>

theorem debug_log_is_complete:
  assumes "\<forall>ev\<in>set (before @ after). utf8 (ev_console_text ev)"
  shows "\<exists>s. traced_run lv before after = Some s
    \<and> tr_debug_log s = Some (concat (map ev_debug_text after))
    \<and> tr_terminal s = concat (map ev_console_text
        (filter (\<lambda>ev. level_rank (ev_level ev) \<le> level_rank lv) (before @ after)))"
proof -
  let ?s0 = "setup_global_trace lv"
  have "told ?s0" by (simp add: told_def setup_global_trace_def rebuild_interest_cache_def debug_max_level_hint_def)
  then have 1: "emit_all before ?s0 = Some (?s0\<lparr>tr_debug_log := None, tr_terminal := shown lv before\<rparr>)"
    using emit_all_told [of ?s0 before] assms by (simp add: setup_global_trace_def rebuild_interest_cache_def)
  let ?s1 = "set_debug_log [] (?s0\<lparr>tr_debug_log := None, tr_terminal := shown lv before\<rparr>)"
  have "told ?s1" by (simp add: told_def set_debug_log_def rebuild_interest_cache_def debug_max_level_hint_def)
  then have "emit_all after ?s1 = Some (?s1\<lparr>tr_debug_log := Some (concat (map ev_debug_text after)),
      tr_terminal := shown lv before @ shown lv after\<rparr>)"
    using emit_all_told [of ?s1 after] assms
    by (simp add: set_debug_log_def setup_global_trace_def rebuild_interest_cache_def)
  with 1 show ?thesis by (simp add: traced_run_def shown_def)
qed

text \<open>The library has to be told: an event above the level of the terminal would be skipped otherwise.\<close>

lemma untold_event_is_lost:
  "emit \<lparr>ev_level = LDebug, ev_debug_text = ''d'', ev_console_text = ''d''\<rparr>
     ((setup_global_trace LInfo)\<lparr>tr_debug_log := Some [], tr_debug_log_open := True\<rparr>)
   = Some ((setup_global_trace LInfo)\<lparr>tr_debug_log := Some [], tr_debug_log_open := True\<rparr>)"
  by (simp add: emit_def setup_global_trace_def rebuild_interest_cache_def debug_max_level_hint_def unwrap_or_def)

theorem debug_log_is_complete_witness:
  "\<exists>s. traced_run LInfo [] [\<lparr>ev_level = LDebug, ev_debug_text = ''d'', ev_console_text = ''c''\<rparr>] = Some s
    \<and> tr_debug_log s = Some ''d'' \<and> tr_terminal s = []"
proof -
  have "utf8 ''c''" by (simp add: utf8_def lead_len_def)
  then show ?thesis
    using debug_log_is_complete [of "[]" "[\<lparr>ev_level = LDebug, ev_debug_text = ''d'', ev_console_text = ''c''\<rparr>]" LInfo] by simp
qed

end
