(* ===== verification/Spec2Isabelle.thy ===== *)
theory Spec2Isabelle
  imports Shards InDiff WalkTree Copying Display Tail Program Locking Processes Windows Reports Coverage Tracing
begin

text \<open>
  A verification library for cargo-mutants, a program that looks for code that no test checks: it finds
  places in the source of a Rust workspace where the code could be changed (mutants), makes one change after
  the other in a copy of the tree, runs the tests on each, and reports the changes that no test caught.

  The parts of the program and where they are modelled.  All paths are below \<open>src/src/\<close>.

  \<^item> \<open>main.rs\<close> chooses what to do.  Theory \<open>Program\<close>: \<open>main\<close> and \<open>mutate_file\<close>, as a composition of all the other
    parts; what clap makes of the command line is its input, and its result says how the process ends, what it
    prints and what is left in \<open>mutants.out\<close>.
  \<^item> \<open>options.rs\<close>, \<open>config.rs\<close>, \<open>glob.rs\<close>, \<open>annotation.rs\<close> merge arguments, environment and configuration.  Theory
    \<open>Options\<close>; the records \<open>args\<close>, \<open>config\<close>, \<open>common\<close> and \<open>options\<close> have the fields of the structs.
  \<^item> \<open>package.rs\<close>, \<open>workspace.rs\<close>, \<open>source.rs\<close> choose packages and load files.  Theory \<open>Sources\<close>, on the path
    functions of \<open>Paths\<close> (\<open>path.rs\<close> and the standard library's paths).
  \<^item> \<open>span.rs\<close>, \<open>mutant.rs\<close>: positions, and mutants with their names, texts and diffs.  Theories \<open>Spans\<close>, \<open>Mutants\<close>.
  \<^item> \<open>visit.rs\<close>, \<open>fnvalue.rs\<close>, \<open>pretty.rs\<close> discover mutants.  The tree that syn hands out is the datatype of \<open>Syntax\<close>;
    \<open>Attributes\<close>, \<open>ControlFlow\<close>, \<open>FnValue\<close> and \<open>Pretty\<close> are the parts of the visitor, \<open>Visit\<close> is the visitor itself,
    with its state as a record and one function for each of its visiting functions; \<open>VisitFacts\<close> and \<open>VisitProps\<close>
    prove what it does.  \<open>WalkTree\<close> follows modules from file to file over a pool of threads.
  \<^item> \<open>in_diff.rs\<close>, \<open>shard.rs\<close>, \<open>list.rs\<close> choose among mutants and list them.  Theories \<open>InDiff\<close>, \<open>Shards\<close> (on 64-bit
    words), \<open>Listing\<close> (text and JSON).
  \<^item> \<open>build_dir.rs\<close>, \<open>copy_tree.rs\<close>, \<open>manifest.rs\<close> make the directory to build in.  Theory \<open>Copying\<close>, over a file system
    that maps the components of a path to a file, a directory or a link.
  \<^item> \<open>lab.rs\<close>, \<open>timeouts.rs\<close>, \<open>scenario.rs\<close>, \<open>outcome.rs\<close>, \<open>exit_code.rs\<close> run the tests and judge.  Theories \<open>Outcomes\<close>
    (verdicts, counters, exit codes), \<open>Timeouts\<close>, \<open>Lab\<close> (one worker from the baseline to the outcome) and \<open>Workers\<close>
    (several workers as an inductive relation, one step for each turn under a lock).
  \<^item> \<open>cargo.rs\<close>, \<open>process.rs\<close>, \<open>process/unix.rs\<close>, \<open>artifacts.rs\<close>, \<open>coverage.rs\<close> run commands.  Theories \<open>CargoRun\<close> (command
    lines, environments, waiting for a process as a sequence of observations, fingerprints, coverage maps),
    \<open>Processes\<close> (a child with a life of its own, in time) and \<open>Coverage\<close> (the LLVM tools).
  \<^item> \<open>interrupt.rs\<close> holds the flag of a ctrl-c, \<open>process/windows.rs\<close> and \<open>copy_tree/windows.rs\<close> are the code of the other
    platform.  Theories \<open>Interrupts\<close> and \<open>Windows\<close>.
  \<^item> \<open>output.rs\<close> keeps \<open>mutants.out\<close>.  Theories \<open>Outputs\<close> (its files as the fields of a record), \<open>Reports\<close> (the JSON of
    \<open>outcomes.json\<close>) and \<open>Locking\<close> (several runs at once).
  \<^item> \<open>console.rs\<close>, \<open>tail_file.rs\<close> show progress.  Theories \<open>Progress\<close> (the model of the display, its updates and its
    text), \<open>Display\<close> (every interleaving of the calls finds what it updates), \<open>Tail\<close> and \<open>Tracing\<close> (the debug log).

  \<open>Prelude\<close> holds what they share: text as UTF-8 bytes, results, panics and numbers.  An operation that can fail
  returns a sum, one that can panic an option, and both where the code can do both.  A definition keeps the name
  of the function it models; fields of records have a prefix of two or three letters.

  How a run goes through them: \<open>main\<close> opens the workspace, builds the options, and lets \<open>discover\<close> walk the tree.  The
  mutants found lose those caught before, those that the diff does not touch and those of other shards.  They are
  listed, or tested: \<open>output_dir_new\<close> rotates \<open>mutants.out\<close>, \<open>for_baseline\<close> makes the build directory, \<open>run_baseline\<close>
  runs the tests unchanged, the timeouts follow, and the workers apply, build, test and revert one mutant after
  the other, each with its outcome written down and shown.  The exit code is that of all outcomes.

  What the groups of lemmas show:

  \<^item> Composition: the outcomes of a run of the whole program are those of exactly the mutants selected, in the shard, and
    what each exit status means; a run that only lists ends and tests nothing (\<open>Program\<close>).
  \<^item> Running: every mutant is tested once in order and the baseline first; the tree is restored after each; no worker
    loses or repeats a mutant in any interleaving, and all of them reach their end (\<open>Lab\<close>, \<open>Workers\<close>).
  \<^item> Judging: verdicts as a function of what ran, counters that partition the mutants, exit codes (\<open>Outcomes\<close>), and
    lists, JSON and logs that agree with them (\<open>Outputs\<close>, \<open>Reports\<close>, \<open>Listing\<close>).
  \<^item> Discovery: every mutant found is justified by a node of the tree, lies in a listed file and is well formed; the
    visitor never panics, keeps its stacks, and respects attributes; its memory agrees with a plain traversal; the
    walk ends, whatever the threads do (\<open>ControlFlow\<close>, \<open>VisitProps\<close>, \<open>WalkTree\<close>).
  \<^item> Text: spans never cut a character, offsets invert lines and columns, the diff over a window is the diff over the file,
    printing tokens adds only spaces (\<open>Spans\<close>, \<open>Mutants\<close>, \<open>Pretty\<close>).
  \<^item> Choice: shards partition the mutants without a wrap in 64 bits, the diff filter keeps exactly what is touched, filters
    combine both of their sources (\<open>Shards\<close>, \<open>InDiff\<close>, \<open>Options\<close>).
  \<^item> The outside: a copy is faithful and leaves the source alone, paths in manifests are fixed (\<open>Copying\<close>); a child
    is reaped in time after its timeout and after a ctrl-c, on both platforms (\<open>Processes\<close>, \<open>Windows\<close>); runs stay apart
    as long as they start one after the other (\<open>Locking\<close>); the display always finds what it updates (\<open>Display\<close>, \<open>Tail\<close>).

  Interfaces are locales, interpreted on the definitions of the model: \<open>sharder\<close> (a way to cut a list into shards, by
  both methods), \<open>file_store\<close> (files that are read and overwritten, by the build directory), \<open>log_names\<close> (names of logs, by
  the output directory), \<open>work_queue\<close> (handing out each item once, by the queue of mutants), and \<open>reaped_child\<close> with its extension
  \<open>timely_child\<close> (waiting for a child and ending it, by the handles of Unix and of Windows).

  Where the behaviour of the code is not what its documentation or purpose says, a lemma shows the case on a small
  example: \<open>mod_cycle_never_ends\<close>, \<open>struct_field_ignores_options\<close>, \<open>second_patch_hides_mutant\<close>, \<open>one_tuple_loses_comma\<close>,
  \<open>nested_condition_not_recognised\<close>, \<open>unlogged_equivalent_mutant_stays\<close>, \<open>revert_normalises_line_endings\<close>,
  \<open>covered_lines_are_region_starts\<close>, \<open>instrumented_baseline_drops_user_flags\<close>, \<open>dev_dependencies_left_alone\<close>,
  \<open>manifest_written_through_link\<close>, \<open>unreadable_log_panics\<close>, \<open>second_waiter_moves_directory_in_use\<close>, \<open>deaf_child_blocks\<close>
  and \<open>earlier_profiles_are_merged\<close>.

  Bounds and fuel.  The walk of the tree and the wait for a child are the two loops that may run forever; each has fuel,
  and running out of it is a result of its own.  \<open>walk_tree_returns\<close> gives a bound on the fuel when modules do not lead
  back to files on the way, \<open>child_reaped_in_time\<close> one when a child has a timeout and ends within a grace after the
  signal.  The loop over observations in \<open>CargoRun\<close> is structural, and its result is an option.  Following links stops
  after \<open>MAX_LINKS\<close> = 40, as on Linux.  Words of 64 bits are used where the code computes with them (sharding, floating
  point numbers by their bits); lengths and counters elsewhere are natural numbers, since they count things in memory.

  Parameters.  Code outside the repository is an argument of what uses it, with documented behaviour as named
  hypotheses: syn's parser and token streams (\<open>parser\<close>), globset, regex and arithmetic on \<open>f64\<close> (\<open>libs\<close>), the parsers
  of TOML, of JSON and of diffs, the printer of JSON, the diff of two texts, the walk of the ignore crate (\<open>copy_world\<close>), cargo
  and its metadata, the LLVM tools, the hash of artifacts, the painter of colours, time, and every system call that
  can fail.

  Not modelled, and why: what clap does with the command line, the help and the schema (derived or generated); the
  terminal view of nutmeg and the formatting of events, which have no effect on a result; the jobserver, which belongs
  to cargo; \<open>Debug\<close> instances, warnings and debug messages; the attributes crate, whose macros return their input; and
  the tests with the functions that only they call.
\<close>

end
